(* ===== verification/Prelude.thy ===== *)
theory Prelude
  imports Main "HOL-Library.Word"
begin

text \<open>
  What every component shares: bytes, text and errors as the code has them, the Rust
  \<^verbatim>\<open>?\<close> operator on results, readers over a byte cursor (each takes the bytes still
  unread and gives an error, or a value with what is left), and the one loop
  combinator that models every \<^verbatim>\<open>loop\<close> and \<^verbatim>\<open>while let\<close> over a cursor.
\<close>

subsection \<open>Automation of the development\<close>

named_theorems rd_simps "what a reader does on a given input"
named_theorems progress_intros "readers that give no byte back, or take at least one"
named_theorems wr_simps "what a writer appends"

subsection \<open>Bytes, text, errors\<close>

type_synonym byte = "8 word"

text \<open>A Rust \<^verbatim>\<open>str\<close> is a sequence of Unicode scalar values.\<close>

type_synonym str = "nat list"

definition is_scalar :: "nat \<Rightarrow> bool" where
  "is_scalar c \<longleftrightarrow> c < 0xD800 \<or> (0xE000 \<le> c \<and> c < 0x110000)"

definition is_str :: "str \<Rightarrow> bool" where
  "is_str s \<longleftrightarrow> list_all is_scalar s"

definition lit :: "string \<Rightarrow> str" where
  "lit s = map of_char s"

lemma is_str_Nil [simp]: "is_str []"
  by (simp add: is_str_def)

lemma is_str_Cons [simp]: "is_str (c # s) \<longleftrightarrow> is_scalar c \<and> is_str s"
  by (simp add: is_str_def)

lemma is_str_append [simp]: "is_str (s @ t) \<longleftrightarrow> is_str s \<and> is_str t"
  by (simp add: is_str_def)

lemma of_char_less: "(of_char c :: nat) < 256"
  by (metis of_char_mod_256 mod_less_divisor zero_less_numeral)

lemma is_str_lit [simp]: "is_str (lit s)"
proof (induction s)
  case (Cons c s)
  have "is_scalar (of_char c)"
    using of_char_less [of c] unfolding is_scalar_def by linarith
  with Cons show ?case by (simp add: lit_def)
qed (simp add: lit_def)

lemma length_lit [simp]: "length (lit s) = length s"
  by (simp add: lit_def)

text \<open>
  \<^verbatim>\<open>std::io::ErrorKind\<close>, as far as the code tells kinds apart, and the transport
  capability's error by the function that made it: \<^verbatim>\<open>TransportError::permanent\<close>,
  \<^verbatim>\<open>TransportError::retryable\<close>, \<^verbatim>\<open>protocol_error\<close> and \<^verbatim>\<open>classify\<close>.
  \<open>Diverged\<close> is no error of the code: it marks a loop that does not end, and the
  loops of the code are shown never to reach it.
\<close>

datatype io_error = UnexpectedEof | NotConnected | TimedOut | OtherIo nat

datatype terror =
    Permanent str
  | Retryable str
  | Protocol str
  | Classified str io_error
  | Diverged

subsection \<open>Results and readers\<close>

definition and_then :: "'e + 'a \<Rightarrow> ('a \<Rightarrow> 'e + 'b) \<Rightarrow> 'e + 'b" where
  "and_then m f = (case m of Inl e \<Rightarrow> Inl e | Inr x \<Rightarrow> f x)"

lemma and_then_simps [simp]:
  "and_then (Inl e) f = Inl e"
  "and_then (Inr x) f = f x"
  by (simp_all add: and_then_def)

lemma and_then_eq_Inr:
  "and_then m f = Inr y \<longleftrightarrow> (\<exists>x. m = Inr x \<and> f x = Inr y)"
  by (cases m) simp_all

lemma and_then_cong [fundef_cong]:
  "m = m' \<Longrightarrow> (\<And>x. m' = Inr x \<Longrightarrow> f x = f' x) \<Longrightarrow> and_then m f = and_then m' f'"
  by (cases m') simp_all

text \<open>A cursor is known by the bytes it has not read yet.\<close>

type_synonym 'a rd = "byte list \<Rightarrow> terror + 'a \<times> byte list"

definition rd_return :: "'a \<Rightarrow> 'a rd" where
  "rd_return x = (\<lambda>c. Inr (x, c))"

definition rd_fail :: "terror \<Rightarrow> 'a rd" where
  "rd_fail e = (\<lambda>c. Inl e)"

definition rd_lift :: "terror + 'a \<Rightarrow> 'a rd" where
  "rd_lift r = (\<lambda>c. and_then r (\<lambda>x. Inr (x, c)))"

definition rd_bind :: "'a rd \<Rightarrow> ('a \<Rightarrow> 'b rd) \<Rightarrow> 'b rd" where
  "rd_bind m f = (\<lambda>c. and_then (m c) (\<lambda>(x, c'). f x c'))"

lemma rd_basic [rd_simps]:
  "rd_return x c = Inr (x, c)"
  "rd_fail e c = Inl e"
  "rd_lift (Inr x) c = Inr (x, c)"
  "rd_lift (Inl e) c = Inl e"
  by (simp_all add: rd_return_def rd_fail_def rd_lift_def)

lemma rd_bind_apply [rd_simps]:
  "rd_bind m f c = and_then (m c) (\<lambda>(x, c'). f x c')"
  by (simp add: rd_bind_def)

lemma rd_bind_eq_Inr:
  "rd_bind m f c = Inr (y, d) \<longleftrightarrow> (\<exists>x c'. m c = Inr (x, c') \<and> f x c' = Inr (y, d))"
  by (auto simp: rd_bind_def and_then_eq_Inr)

lemma rd_bind_assoc: "rd_bind (rd_bind m f) g = rd_bind m (\<lambda>x. rd_bind (f x) g)"
proof
  show "rd_bind (rd_bind m f) g c = rd_bind m (\<lambda>x. rd_bind (f x) g) c" for c
    by (cases "m c") (auto simp: rd_bind_def)
qed

subsection \<open>Readers that never give bytes back\<close>

definition shrinks :: "'a rd \<Rightarrow> bool" where
  "shrinks p \<longleftrightarrow> (\<forall>c x c'. p c = Inr (x, c') \<longrightarrow> length c' \<le> length c)"

definition consumes :: "'a rd \<Rightarrow> bool" where
  "consumes p \<longleftrightarrow> (\<forall>c x c'. p c = Inr (x, c') \<longrightarrow> length c' < length c)"

lemma shrinksD: "shrinks p \<Longrightarrow> p c = Inr (x, c') \<Longrightarrow> length c' \<le> length c"
  unfolding shrinks_def by blast

lemma consumesD: "consumes p \<Longrightarrow> p c = Inr (x, c') \<Longrightarrow> length c' < length c"
  unfolding consumes_def by blast

lemma consumes_shrinks [intro]: "consumes p \<Longrightarrow> shrinks p"
  unfolding shrinks_def consumes_def by (blast intro: less_imp_le)

lemma shrinks_basic [simp, intro, progress_intros]:
  "shrinks (rd_return x)" "shrinks (rd_fail e)" "shrinks (rd_lift r)"
  by (auto simp: shrinks_def rd_return_def rd_fail_def rd_lift_def and_then_eq_Inr)

lemma consumes_fail [simp, intro, progress_intros]: "consumes (rd_fail e)"
  by (auto simp: consumes_def rd_fail_def)

lemma shrinks_bind [intro, progress_intros]:
  assumes "shrinks m" and "\<And>x. shrinks (f x)"
  shows "shrinks (rd_bind m f)"
proof -
  have "length d \<le> length c" if "rd_bind m f c = Inr (y, d)" for c y d
  proof -
    from that obtain x c' where "m c = Inr (x, c')" and "f x c' = Inr (y, d)"
      by (auto simp: rd_bind_eq_Inr)
    then show ?thesis
      using shrinksD [OF assms(1)] shrinksD [OF assms(2)] by (meson order_trans)
  qed
  then show ?thesis by (simp add: shrinks_def)
qed

lemma consumes_bind [intro, progress_intros]:
  assumes "consumes m" and "\<And>x. shrinks (f x)"
  shows "consumes (rd_bind m f)"
proof -
  have "length d < length c" if "rd_bind m f c = Inr (y, d)" for c y d
  proof -
    from that obtain x c' where "m c = Inr (x, c')" and "f x c' = Inr (y, d)"
      by (auto simp: rd_bind_eq_Inr)
    then show ?thesis
      using consumesD [OF assms(1)] shrinksD [OF assms(2)] by (meson le_less_trans)
  qed
  then show ?thesis by (simp add: consumes_def)
qed

lemma progress_cases [progress_intros]:
  "(b \<Longrightarrow> shrinks p) \<Longrightarrow> (\<not> b \<Longrightarrow> shrinks q) \<Longrightarrow> shrinks (if b then p else q)"
  "(b \<Longrightarrow> consumes p) \<Longrightarrow> (\<not> b \<Longrightarrow> consumes q) \<Longrightarrow> consumes (if b then p else q)"
  "shrinks p \<Longrightarrow> (\<And>x. shrinks (f x)) \<Longrightarrow> shrinks (case y of None \<Rightarrow> p | Some x \<Rightarrow> f x)"
  by (auto split: option.split)

subsection \<open>Loops over a cursor\<close>

text \<open>
  The body of a Rust \<^verbatim>\<open>loop\<close> over a cursor, given the loop's variables, goes round
  again with new ones (\<open>Inl\<close>) or leaves with a result (\<open>Inr\<close>). Every round that
  goes on has read at least one byte, so one round more than there are bytes is fuel
  enough: \<open>progressing.loop_unfold\<close> is the loop's own equation, without fuel.
\<close>

fun loop_fuel :: "nat \<Rightarrow> ('s \<Rightarrow> ('s + 'a) rd) \<Rightarrow> 's \<Rightarrow> 'a rd" where
  "loop_fuel 0 body s c = Inl Diverged"
| "loop_fuel (Suc n) body s c =
     and_then (body s c) (\<lambda>(r, c').
       case r of Inl s' \<Rightarrow> loop_fuel n body s' c' | Inr a \<Rightarrow> Inr (a, c'))"

definition rd_loop :: "('s \<Rightarrow> ('s + 'a) rd) \<Rightarrow> 's \<Rightarrow> 'a rd" where
  "rd_loop body s = (\<lambda>c. loop_fuel (Suc (length c)) body s c)"

definition go_on :: "'s \<Rightarrow> ('s + 'a) rd" where
  "go_on s = rd_return (Inl s)"

definition leave :: "'a \<Rightarrow> ('s + 'a) rd" where
  "leave a = rd_return (Inr a)"

lemma go_on_leave [rd_simps]:
  "go_on s c = Inr (Inl s, c)" "leave a c = Inr (Inr a, c)"
  by (simp_all add: go_on_def leave_def rd_return_def)

lemma shrinks_go_on_leave [simp, intro, progress_intros]: "shrinks (go_on s)" "shrinks (leave a)"
  by (simp_all add: go_on_def leave_def)

locale progressing =
  fixes body :: "'s \<Rightarrow> ('s + 'a) rd"
  assumes progress: "body s c = Inr (Inl s', c') \<Longrightarrow> length c' < length c"
begin

lemma fuel_enough:
  "length c < n \<Longrightarrow> length c < m \<Longrightarrow> loop_fuel n body s c = loop_fuel m body s c"
proof (induction n arbitrary: m s c)
  case (Suc n)
  from Suc.prems obtain k where m: "m = Suc k" by (cases m) auto
  have same: "loop_fuel n body s' c' = loop_fuel k body s' c'"
    if "body s c = Inr (Inl s', c')" for s' c'
  proof -
    from progress [OF that] Suc.prems m have "length c' < n" "length c' < k" by auto
    then show ?thesis by (rule Suc.IH)
  qed
  show ?case
    unfolding m by (cases "body s c") (auto simp: same split: sum.split)
qed simp

lemma loop_unfold:
  "rd_loop body s c =
     and_then (body s c) (\<lambda>(r, c').
       case r of Inl s' \<Rightarrow> rd_loop body s' c' | Inr a \<Rightarrow> Inr (a, c'))"
proof -
  have same: "loop_fuel (length c) body s' c' = loop_fuel (Suc (length c')) body s' c'"
    if "body s c = Inr (Inl s', c')" for s' c'
    using progress [OF that] by (intro fuel_enough) auto
  show ?thesis
    unfolding rd_loop_def
    by (cases "body s c") (auto simp: same split: sum.split)
qed

lemma loop_go_on:
  "body s c = Inr (Inl s', c') \<Longrightarrow> rd_loop body s c = rd_loop body s' c'"
  by (simp add: loop_unfold [of s c])

lemma loop_leave: "body s c = Inr (Inr a, c') \<Longrightarrow> rd_loop body s c = Inr (a, c')"
  by (simp add: loop_unfold [of s c])

lemma loop_fails: "body s c = Inl e \<Longrightarrow> rd_loop body s c = Inl e"
  by (simp add: loop_unfold [of s c])

lemma loop_induct [case_names round]:
  assumes "\<And>s c. (\<And>s' c'. body s c = Inr (Inl s', c') \<Longrightarrow> P s' c') \<Longrightarrow> P s c"
  shows "P s c"
proof (induction c arbitrary: s rule: length_induct)
  case (1 c)
  then show ?case using assms progress by blast
qed

lemma loop_shrinks:
  assumes "\<And>s. shrinks (body s)"
  shows "shrinks (rd_loop body s)"
proof -
  have "rd_loop body s c = Inr (a, d) \<longrightarrow> length d \<le> length c" for s c a d
  proof (induction s c rule: loop_induct)
    case (round s c)
    show ?case
    proof (cases "body s c")
      case (Inr r)
      obtain q c' where r: "r = (q, c')" by (cases r) auto
      have "length c' \<le> length c" using assms Inr r by (auto dest: shrinksD)
      then show ?thesis
        using round [of _ c'] Inr r by (auto simp: loop_unfold [of s c] split: sum.splits)
    qed (simp add: loop_fails)
  qed
  then show ?thesis by (auto simp: shrinks_def)
qed

end

lemma progressingI: "(\<And>s. consumes (body s)) \<Longrightarrow> progressing body"
  by unfold_locales (auto dest: consumesD)

subsection \<open>Reading one value for each of a list\<close>

text \<open>\<open>for k in ks { out.push(f(k)?) }\<close>\<close>

fun rd_map :: "('k \<Rightarrow> 'a rd) \<Rightarrow> 'k list \<Rightarrow> 'a list rd" where
  "rd_map f [] = rd_return []"
| "rd_map f (k # ks) = rd_bind (f k) (\<lambda>v. rd_bind (rd_map f ks) (\<lambda>vs. rd_return (v # vs)))"

lemma rd_map_round:
  assumes "list_all2 (\<lambda>k (bs, v). \<forall>c. f k (bs @ c) = Inr (v, c)) ks bvs"
  shows "rd_map f ks (concat (map fst bvs) @ c) = Inr (map snd bvs, c)"
  using assms
proof (induction ks bvs arbitrary: c rule: list_all2_induct)
  case (Cons k ks bv bvs)
  then show ?case by (cases bv) (simp add: rd_simps)
qed (simp add: rd_simps)

lemma shrinks_rd_map [intro, progress_intros]: "(\<And>k. shrinks (f k)) \<Longrightarrow> shrinks (rd_map f ks)"
  by (induction ks) (auto intro!: shrinks_bind)

lemma length_rd_map: "rd_map f ks c = Inr (vs, c') \<Longrightarrow> length vs = length ks"
  by (induction ks arbitrary: vs c c') (auto simp: rd_simps rd_bind_eq_Inr simp del: rd_bind_apply)

text \<open>
  The contract of a field's two directions: writing appends to the buffer, and reading
  what was written gives the value back and leaves what follows it.
\<close>

locale wire_format =
  fixes put :: "byte list \<Rightarrow> 'a \<Rightarrow> byte list" and get :: "'a rd" and ok :: "'a \<Rightarrow> bool"
  assumes put_appends: "put out x = out @ put [] x"
    and get_put: "ok x \<Longrightarrow> get (put [] x @ c) = Inr (x, c)"
begin

lemma foldl_put: "foldl put out xs = out @ concat (map (put []) xs)"
proof (induction xs arbitrary: out)
  case (Cons x xs)
  have "foldl put out (x # xs) = foldl put (out @ put [] x) xs"
    by (simp add: put_appends [of out x])
  also have "\<dots> = (out @ put [] x) @ concat (map (put []) xs)" by (rule Cons.IH)
  finally show ?case by simp
qed simp

lemma get_many:
  assumes "list_all ok xs"
  shows "rd_map (\<lambda>_. get) (replicate (length xs) ()) (foldl put [] xs @ c) = Inr (xs, c)"
proof -
  have "list_all2 (\<lambda>k (bs, v). \<forall>c. get (bs @ c) = Inr (v, c))
      (replicate (length xs) ()) (map (\<lambda>x. (put [] x, x)) xs)"
    using assms by (induction xs) (auto simp: get_put)
  from rd_map_round [OF this] show ?thesis by (simp add: foldl_put comp_def)
qed

lemma put_injective: "ok x \<Longrightarrow> ok y \<Longrightarrow> put [] x = put [] y \<Longrightarrow> x = y"
  using get_put [of x "[]"] get_put [of y "[]"] by simp

end

subsection \<open>Steps of a stateful object\<close>

text \<open>
  A method on \<^verbatim>\<open>&mut self\<close> that may fail: its result, and the object as it leaves it
  either way. \<open>act_bind\<close> is \<^verbatim>\<open>?\<close> between two of them.
\<close>

type_synonym ('s, 'a) act = "'s \<Rightarrow> (terror + 'a) \<times> 's"

definition act_return :: "'a \<Rightarrow> ('s, 'a) act" where
  "act_return x = (\<lambda>s. (Inr x, s))"

definition act_fail :: "terror \<Rightarrow> ('s, 'a) act" where
  "act_fail e = (\<lambda>s. (Inl e, s))"

definition act_lift :: "terror + 'a \<Rightarrow> ('s, 'a) act" where
  "act_lift r = (\<lambda>s. (r, s))"

definition act_bind :: "('s, 'a) act \<Rightarrow> ('a \<Rightarrow> ('s, 'b) act) \<Rightarrow> ('s, 'b) act" where
  "act_bind m f = (\<lambda>s. case m s of (Inl e, s') \<Rightarrow> (Inl e, s') | (Inr x, s') \<Rightarrow> f x s')"

lemma act_simps [simp]:
  "act_return x s = (Inr x, s)" "act_fail e s = (Inl e, s)" "act_lift r s = (r, s)"
  by (simp_all add: act_return_def act_fail_def act_lift_def)

lemma act_bind_Inr: "m s = (Inr x, s') \<Longrightarrow> act_bind m f s = f x s'"
  by (simp add: act_bind_def)

lemma act_bind_Inl: "m s = (Inl e, s') \<Longrightarrow> act_bind m f s = (Inl e, s')"
  by (simp add: act_bind_def)

lemma act_bind_lift [simp]:
  "act_bind (act_lift (Inr x)) f s = f x s" "act_bind (act_lift (Inl e)) f s = (Inl e, s)"
  by (simp_all add: act_bind_def)

lemma act_bind_eq:
  "act_bind m f s = (r, t) \<longleftrightarrow>
     (\<exists>e. m s = (Inl e, t) \<and> r = Inl e) \<or> (\<exists>x s'. m s = (Inr x, s') \<and> f x s' = (r, t))"
  by (auto simp: act_bind_def split: prod.splits sum.splits)

subsection \<open>Generic lemmas\<close>

lemma map_option_o_case [simp]:
  "(case x of None \<Rightarrow> None | Some y \<Rightarrow> Some (f y)) = map_option f x"
  by (cases x) simp_all

lemma foldl_appends: "foldl (\<lambda>out x. out @ f x) out xs = out @ concat (map f xs)"
  by (induction xs arbitrary: out) simp_all

lemma sum_eq_Inr_iff_projr: "\<not> isl m \<Longrightarrow> m = Inr (projr m)"
  by (cases m) simp_all

end
