(* ===== verification/Rust_Std.thy ===== *)
theory Rust_Std
  imports Prelude
begin

unbundle bit_operations_syntax

text \<open>
  The parts of Rust's standard library the crate calls: \<^verbatim>\<open>to_le_bytes\<close> and its
  kin, checked and saturating conversions, \<^verbatim>\<open>slice::chunks\<close>, integers printed and
  parsed, \<^verbatim>\<open>str::trim\<close>, UTF-8 and \<^verbatim>\<open>String::from_utf8_lossy\<close>, and the
  \<^verbatim>\<open>Read\<close> and \<^verbatim>\<open>Write\<close> ends of a connection. A \<^verbatim>\<open>usize\<close> is a \<open>nat\<close>: the crate
  only holds lengths of buffers and sums of \<^verbatim>\<open>u16\<close>s in one.
\<close>

subsection \<open>Integers and bytes\<close>

fun le_bytes :: "nat \<Rightarrow> 'a::len word \<Rightarrow> byte list" where
  "le_bytes 0 w = []"
| "le_bytes (Suc n) w = ucast w # le_bytes n (drop_bit 8 w)"

definition be_bytes :: "nat \<Rightarrow> 'a::len word \<Rightarrow> byte list" where
  "be_bytes n w = rev (le_bytes n w)"

fun of_le :: "byte list \<Rightarrow> 'a::len word" where
  "of_le [] = 0"
| "of_le (b # bs) = ucast b OR push_bit 8 (of_le bs)"

definition of_be :: "byte list \<Rightarrow> 'a::len word" where
  "of_be bs = of_le (rev bs)"

lemma length_le_bytes [simp]: "length (le_bytes n w) = n"
  by (induction n w rule: le_bytes.induct) simp_all

lemma le_bytes_eq_Nil [simp]: "le_bytes n w = [] \<longleftrightarrow> n = 0"
  by (metis length_0_conv length_le_bytes)

lemma le_bytes_expand:
  "le_bytes 2 w = [ucast w, ucast (drop_bit 8 w)]"
  "le_bytes 4 w = [ucast w, ucast (drop_bit 8 w), ucast (drop_bit 16 w), ucast (drop_bit 24 w)]"
  "le_bytes 8 w = [ucast w, ucast (drop_bit 8 w), ucast (drop_bit 16 w), ucast (drop_bit 24 w),
     ucast (drop_bit 32 w), ucast (drop_bit 40 w), ucast (drop_bit 48 w), ucast (drop_bit 56 w)]"
  by (simp_all add: eval_nat_numeral)

lemma length_be_bytes [simp]: "length (be_bytes n w) = n"
  by (simp add: be_bytes_def)

lemma of_le_le_bytes: "of_le (le_bytes n w) = take_bit (8 * n) (w :: 'a::len word)"
proof (induction n w rule: le_bytes.induct)
  case (2 n w)
  have "ucast (ucast w :: byte) OR push_bit 8 (take_bit (8 * n) (drop_bit 8 w))
      = take_bit (8 * Suc n) w"
    by (rule bit_word_eqI) (auto simp: bit_simps)
  with 2 show ?case by simp
qed simp

lemma of_le_le_bytes_ucast:
  "of_le (le_bytes n w) = (take_bit (8 * n) (ucast w) :: 'b::len word)"
  for w :: "'a::len word"
proof (induction n w rule: le_bytes.induct)
  case (2 n w)
  have "ucast (ucast w :: byte) OR push_bit 8 (take_bit (8 * n) (ucast (drop_bit 8 w)))
      = (take_bit (8 * Suc n) (ucast w) :: 'b word)"
    by (rule bit_word_eqI) (auto simp: bit_simps)
  with 2 show ?case by simp
qed simp

lemma le_bytes_of_le:
  "8 * length bs \<le> LENGTH('a) \<Longrightarrow> le_bytes (length bs) (of_le bs :: 'a::len word) = bs"
proof (induction bs)
  case (Cons b bs)
  have "ucast (ucast b OR push_bit 8 (of_le bs) :: 'a word) = b"
    using Cons.prems by (intro bit_word_eqI) (auto simp: bit_simps)
  moreover have high: "bit (of_le bs :: 'a word) n \<Longrightarrow> n < 8 * length bs" for n
    using Cons by (metis Suc_leD le_trans length_Cons mult_Suc_right of_le_le_bytes bit_take_bit_iff
        take_bit_word_eq_self le_add2 Cons.IH)
  have "drop_bit 8 (ucast b OR push_bit 8 (of_le bs) :: 'a word) = of_le bs"
    using Cons.prems by (intro bit_word_eqI) (auto simp: bit_simps dest: high bit_imp_le_length)
  ultimately show ?case using Cons by simp
qed simp

lemma take_le_bytes: "m \<le> n \<Longrightarrow> take m (le_bytes n w) = le_bytes m w"
proof (induction n w arbitrary: m rule: le_bytes.induct)
  case (2 n w)
  then show ?case by (cases m) simp_all
qed simp

text \<open>A signed integer cut to a narrower width.\<close>

lemma sint_narrow:
  "sint (ucast (w :: 64 word) :: 8 word) = signed_take_bit 7 (sint w)"
  "sint (ucast (w :: 64 word) :: 16 word) = signed_take_bit 15 (sint w)"
  "sint (ucast (w :: 64 word) :: 32 word) = signed_take_bit 31 (sint w)"
  by (rule bit_eqI, simp add: bit_simps min_def)+

lemma of_le_inverse [simp]:
  "of_le (le_bytes 2 (w :: 16 word)) = w"
  "of_le (le_bytes 4 (x :: 32 word)) = x"
  "of_le (le_bytes 8 (y :: 64 word)) = y"
  by (simp_all add: of_le_le_bytes take_bit_word_eq_self)

lemma of_be_inverse [simp]:
  "of_be (be_bytes 2 (w :: 16 word)) = w"
  "of_be (be_bytes 4 (x :: 32 word)) = x"
  by (simp_all add: of_be_def be_bytes_def)

text \<open>\<open>try_from n\<close> at an unsigned width, and \<open>try_from(n).unwrap_or(d)\<close>.\<close>

definition fits_or :: "'a::len word \<Rightarrow> nat \<Rightarrow> 'a word" where
  "fits_or d n = (if n < 2 ^ LENGTH('a) then of_nat n else d)"

lemma unat_fits_or: "n < 2 ^ LENGTH('a) \<Longrightarrow> unat (fits_or d n :: 'a::len word) = n"
  by (simp add: fits_or_def unat_of_nat)

subsection \<open>Slices\<close>

text \<open>\<open>slice::chunks\<close>; Rust panics on a size of zero, which the crate never asks for.\<close>

fun chunks :: "nat \<Rightarrow> 'a list \<Rightarrow> 'a list list" where
  "chunks n xs = (if n = 0 \<or> xs = [] then [] else take n xs # chunks n (drop n xs))"

declare chunks.simps [simp del]

lemma chunks_Nil [simp]: "chunks n [] = []"
  by (simp add: chunks.simps)

lemma chunks_rec: "0 < n \<Longrightarrow> xs \<noteq> [] \<Longrightarrow> chunks n xs = take n xs # chunks n (drop n xs)"
  by (simp add: chunks.simps [of n xs])

lemma chunks_eq_Nil_iff [simp]: "0 < n \<Longrightarrow> chunks n xs = [] \<longleftrightarrow> xs = []"
  by (simp add: chunks.simps [of n xs])

lemma concat_chunks [simp]: "0 < n \<Longrightarrow> concat (chunks n xs) = xs"
proof (induction n xs rule: chunks.induct)
  case (1 n xs)
  then show ?case by (cases "xs = []") (simp_all add: chunks_rec)
qed

lemma chunks_bounds:
  "0 < n \<Longrightarrow> c \<in> set (chunks n xs) \<Longrightarrow> 0 < length c \<and> length c \<le> n"
proof (induction n xs rule: chunks.induct)
  case (1 n xs)
  then show ?case by (cases "xs = []") (auto simp: chunks_rec)
qed

lemma length_chunks: "0 < n \<Longrightarrow> length (chunks n xs) = (length xs + n - 1) div n"
proof (induction n xs rule: chunks.induct)
  case (1 n xs)
  show ?case
  proof (cases "xs = []")
    case False
    have "(length xs - n + n - 1) div n + 1 = (length xs + n - 1) div n"
    proof (cases "n \<le> length xs")
      case True
      have "length xs + n - 1 = (length xs - n + n - 1) + n"
        using True False 1(2) by simp
      then show ?thesis using 1(2) by (metis div_add_self2 less_numeral_extra(3))
    next
      case less: False
      have "(n - 1) div n = 0" using 1(2) by simp
      moreover have "(length xs + n - 1) div n = 1"
      proof (rule div_nat_eqI)
        show "n * 1 \<le> length xs + n - 1"
          using False by (cases xs) auto
        show "length xs + n - 1 < n * Suc 1" using less by simp
      qed
      ultimately show ?thesis using less by simp
    qed
    with 1 False show ?thesis by (simp add: chunks_rec)
  qed (use 1 in simp)
qed

lemma chunks_short:
  assumes "xs \<noteq> []" and "length xs \<le> n"
  shows "chunks n xs = [xs]"
proof -
  have "0 < n" using assms by (cases xs) auto
  then have "chunks n xs = take n xs # chunks n (drop n xs)"
    using assms(1) by (rule chunks_rec)
  with assms(2) show ?thesis by simp
qed

text \<open>\<open>&xs[from..to]\<close> as \<open>get\<close> gives it: nothing where the range runs out.\<close>

definition slice_get :: "'a list \<Rightarrow> nat \<Rightarrow> nat \<Rightarrow> 'a list option" where
  "slice_get xs i j =
     (if i \<le> j \<and> j \<le> length xs then Some (take (j - i) (drop i xs)) else None)"

lemma slice_get_at:
  "body = xs @ ys @ zs \<Longrightarrow> i = length xs \<Longrightarrow> j = i + length ys \<Longrightarrow> slice_get body i j = Some ys"
  by (simp add: slice_get_def)

subsection \<open>Integers as text\<close>

fun dec_nat :: "nat \<Rightarrow> str" where
  "dec_nat n = (if n < 10 then [48 + n] else dec_nat (n div 10) @ [48 + n mod 10])"

declare dec_nat.simps [simp del]

definition dec_int :: "int \<Rightarrow> str" where
  "dec_int i = (if i < 0 then 45 # dec_nat (nat (- i)) else dec_nat (nat i))"

fun parse_digits :: "nat \<Rightarrow> str \<Rightarrow> nat option" where
  "parse_digits acc [] = Some acc"
| "parse_digits acc (c # cs) =
     (if 48 \<le> c \<and> c \<le> 57 then parse_digits (acc * 10 + (c - 48)) cs else None)"

text \<open>\<open>str::parse\<close> at \<^verbatim>\<open>i64\<close> and \<^verbatim>\<open>u16\<close>: a sign, digits, in range.\<close>

definition parse_i64 :: "str \<Rightarrow> int option" where
  "parse_i64 s =
     (let (neg, ds) = (case s of
          [] \<Rightarrow> (False, [])
        | c # cs \<Rightarrow> if c = 45 then (True, cs) else if c = 43 then (False, cs) else (False, s))
      in if ds = [] then None
         else case parse_digits 0 ds of
           None \<Rightarrow> None
         | Some n \<Rightarrow>
             let i = (if neg then - int n else int n)
             in if - (2 ^ 63) \<le> i \<and> i < 2 ^ 63 then Some i else None)"

definition parse_u16 :: "str \<Rightarrow> nat option" where
  "parse_u16 s =
     (let ds = (case s of c # cs \<Rightarrow> if c = 43 then cs else s | [] \<Rightarrow> [])
      in if ds = [] then None
         else case parse_digits 0 ds of
           None \<Rightarrow> None
         | Some n \<Rightarrow> if n < 2 ^ 16 then Some n else None)"

lemma parse_digits_append:
  "parse_digits a (s @ t) = Option.bind (parse_digits a s) (\<lambda>b. parse_digits b t)"
  by (induction s arbitrary: a) simp_all

lemma dec_nat_digits: "c \<in> set (dec_nat n) \<Longrightarrow> 48 \<le> c \<and> c \<le> 57"
proof (induction n rule: dec_nat.induct)
  case (1 n)
  then show ?case by (subst (asm) dec_nat.simps) (auto split: if_splits)
qed

lemma dec_nat_not_Nil [simp]: "dec_nat n \<noteq> []"
  by (subst dec_nat.simps) simp

lemma parse_digits_dec_nat [simp]: "parse_digits 0 (dec_nat n) = Some n"
proof (induction n rule: dec_nat.induct)
  case (1 n)
  have "n mod 10 \<le> 9" by (simp add: less_Suc_eq_le [symmetric])
  then show ?case
    by (subst dec_nat.simps) (simp add: 1 parse_digits_append)
qed

lemma hd_dec_nat: "dec_nat n = c # cs \<Longrightarrow> 48 \<le> c \<and> c \<le> 57"
  using dec_nat_digits [of c n] by simp

lemma parse_i64_dec_int:
  assumes "- (2 ^ 63) \<le> i" and "i < 2 ^ 63"
  shows "parse_i64 (dec_int i) = Some i"
proof (cases "i < 0")
  case True
  with assms show ?thesis by (simp add: parse_i64_def dec_int_def)
next
  case False
  obtain c cs where d: "dec_nat (nat i) = c # cs"
    by (cases "dec_nat (nat i)") simp_all
  with hd_dec_nat [OF d] have "c \<noteq> 45" "c \<noteq> 43" by auto
  moreover have "parse_digits 0 (c # cs) = Some (nat i)"
    using parse_digits_dec_nat [of "nat i"] d by simp
  ultimately show ?thesis
    using False assms by (simp add: parse_i64_def dec_int_def d del: parse_digits.simps)
qed

lemma parse_u16_dec_nat:
  assumes "n < 2 ^ 16"
  shows "parse_u16 (dec_nat n) = Some n"
proof -
  obtain c cs where d: "dec_nat n = c # cs" by (cases "dec_nat n") simp_all
  with hd_dec_nat [OF d] have "c \<noteq> 43" by auto
  moreover have "parse_digits 0 (c # cs) = Some n"
    using parse_digits_dec_nat [of n] d by simp
  ultimately show ?thesis
    using assms by (simp add: parse_u16_def d del: parse_digits.simps)
qed

lemma is_str_dec_int [simp]: "is_str (dec_int i)"
proof -
  have "is_str (dec_nat n)" for n
    using dec_nat_digits [of _ n] by (fastforce simp: is_str_def list_all_iff is_scalar_def)
  then show ?thesis by (simp add: dec_int_def is_scalar_def)
qed

lemma is_str_dec_nat [simp]: "is_str (dec_nat n)"
  using is_str_dec_int [of "int n"] by (simp add: dec_int_def)

text \<open>\<open>{:#04x}\<close> of a byte, \<open>{:#010x}\<close> of a \<^verbatim>\<open>u32\<close>.\<close>

definition hex_digit :: "nat \<Rightarrow> nat" where
  "hex_digit d = (if d < 10 then 48 + d else 87 + d)"

definition hex_byte :: "byte \<Rightarrow> str" where
  "hex_byte b = [hex_digit (unat b div 16), hex_digit (unat b mod 16)]"

definition hex04 :: "byte \<Rightarrow> str" where
  "hex04 b = lit ''0x'' @ hex_byte b"

definition hex010 :: "32 word \<Rightarrow> str" where
  "hex010 w = lit ''0x'' @ concat (map hex_byte (be_bytes 4 w))"

subsection \<open>Trimming\<close>

definition white_space :: "nat \<Rightarrow> bool" where
  "white_space c \<longleftrightarrow>
     (9 \<le> c \<and> c \<le> 13) \<or> c = 32 \<or> c = 0x85 \<or> c = 0xA0 \<or> c = 0x1680 \<or>
     (0x2000 \<le> c \<and> c \<le> 0x200A) \<or> c = 0x2028 \<or> c = 0x2029 \<or> c = 0x202F \<or>
     c = 0x205F \<or> c = 0x3000"

definition trim :: "str \<Rightarrow> str" where
  "trim s = rev (dropWhile white_space (rev (dropWhile white_space s)))"

lemma trim_id:
  assumes "\<And>c. c \<in> set s \<Longrightarrow> \<not> white_space c"
  shows "trim s = s"
proof -
  have keep: "dropWhile white_space t = t" if "set t = set s" for t
    using that assms by (cases t) auto
  show ?thesis by (simp add: trim_def keep)
qed

lemma trim_dec_int [simp]: "trim (dec_int i) = dec_int i"
proof (rule trim_id)
  fix c
  assume "c \<in> set (dec_int i)"
  then have "c = 45 \<or> (48 \<le> c \<and> c \<le> 57)"
    by (auto simp: dec_int_def split: if_splits dest: dec_nat_digits)
  then show "\<not> white_space c" by (auto simp: white_space_def)
qed

end
