(* ===== verification/Rust_Text.thy ===== *)
theory Rust_Text
  imports Rust_Std
begin

text \<open>
  Text as bytes: \<^verbatim>\<open>str::as_bytes\<close> (UTF-8) and \<^verbatim>\<open>String::from_utf8_lossy\<close>, which
  replaces every maximal ill-formed part by one U+FFFD, both of Rust's standard library.
\<close>

subsection \<open>UTF-8\<close>

definition utf8_char :: "nat \<Rightarrow> nat list" where
  "utf8_char c =
     (if c < 0x80 then [c]
      else if c < 0x800 then [0xC0 + c div 64, 0x80 + c mod 64]
      else if c < 0x10000 then [0xE0 + c div 4096, 0x80 + c div 64 mod 64, 0x80 + c mod 64]
      else [0xF0 + c div 262144, 0x80 + c div 4096 mod 64, 0x80 + c div 64 mod 64,
            0x80 + c mod 64])"

definition as_bytes :: "str \<Rightarrow> byte list" where
  "as_bytes s = map of_nat (concat (map utf8_char s))"

definition continuation :: "nat \<Rightarrow> bool" where
  "continuation b \<longleftrightarrow> 0x80 \<le> b \<and> b < 0xC0"

text \<open>The second byte a lead byte of a three- or four-byte sequence allows.\<close>

definition second3 :: "nat \<Rightarrow> nat \<Rightarrow> bool" where
  "second3 a b \<longleftrightarrow>
     (a = 0xE0 \<and> 0xA0 \<le> b \<and> b < 0xC0) \<or> (0xE1 \<le> a \<and> a \<le> 0xEC \<and> continuation b) \<or>
     (a = 0xED \<and> 0x80 \<le> b \<and> b < 0xA0) \<or> (0xEE \<le> a \<and> a \<le> 0xEF \<and> continuation b)"

definition second4 :: "nat \<Rightarrow> nat \<Rightarrow> bool" where
  "second4 a b \<longleftrightarrow>
     (a = 0xF0 \<and> 0x90 \<le> b \<and> b < 0xC0) \<or> (0xF1 \<le> a \<and> a \<le> 0xF3 \<and> continuation b) \<or>
     (a = 0xF4 \<and> 0x80 \<le> b \<and> b < 0x90)"

fun lossy :: "nat list \<Rightarrow> str" where
  "lossy [] = []"
| "lossy (a # r) =
     (if a < 0x80 then a # lossy r
      else if 0xC2 \<le> a \<and> a \<le> 0xDF then
        (case r of
           b # r1 \<Rightarrow>
             if continuation b then ((a - 0xC0) * 64 + (b - 0x80)) # lossy r1
             else 0xFFFD # lossy r
         | [] \<Rightarrow> [0xFFFD])
      else if 0xE0 \<le> a \<and> a \<le> 0xEF then
        (case r of
           b # r1 \<Rightarrow>
             if second3 a b then
               (case r1 of
                  d # r2 \<Rightarrow>
                    if continuation d then
                      ((a - 0xE0) * 4096 + (b - 0x80) * 64 + (d - 0x80)) # lossy r2
                    else 0xFFFD # lossy r1
                | [] \<Rightarrow> [0xFFFD])
             else 0xFFFD # lossy r
         | [] \<Rightarrow> [0xFFFD])
      else if 0xF0 \<le> a \<and> a \<le> 0xF4 then
        (case r of
           b # r1 \<Rightarrow>
             if second4 a b then
               (case r1 of
                  d # r2 \<Rightarrow>
                    if continuation d then
                      (case r2 of
                         e # r3 \<Rightarrow>
                           if continuation e then
                             ((a - 0xF0) * 262144 + (b - 0x80) * 4096 + (d - 0x80) * 64
                               + (e - 0x80)) # lossy r3
                           else 0xFFFD # lossy r2
                       | [] \<Rightarrow> [0xFFFD])
                    else 0xFFFD # lossy r1
                | [] \<Rightarrow> [0xFFFD])
             else 0xFFFD # lossy r
         | [] \<Rightarrow> [0xFFFD])
      else 0xFFFD # lossy r)"

definition from_utf8_lossy :: "byte list \<Rightarrow> str" where
  "from_utf8_lossy bs = lossy (map unat bs)"

subsection \<open>Text comes back from its bytes\<close>

lemma split3: "(c::nat) div 4096 * 4096 + c div 64 mod 64 * 64 + c mod 64 = c"
proof -
  have "c div 4096 = c div 64 div 64" by (simp add: div_mult2_eq [symmetric])
  then show ?thesis
    using div_mult_mod_eq [of "c div 64" 64] div_mult_mod_eq [of c 64] by linarith
qed

lemma split4:
  "(c::nat) div 262144 * 262144 + c div 4096 mod 64 * 4096 + c div 64 mod 64 * 64 + c mod 64 = c"
proof -
  have "c div 262144 = c div 4096 div 64" by (simp add: div_mult2_eq [symmetric])
  then show ?thesis
    using div_mult_mod_eq [of "c div 4096" 64] split3 [of c] by linarith
qed

lemma second3_lead:
  assumes "a * 4096 + m * 64 + l = c" "m < 64" "l < 64" "is_scalar c" "0x800 \<le> c" "c < 0x10000"
  shows "a < 16" "second3 (0xE0 + a) (0x80 + m)"
proof -
  show "a < 16" using assms by linarith
  have "a = 0 \<Longrightarrow> 32 \<le> m" using assms by linarith
  moreover have "a = 13 \<Longrightarrow> m < 32" using assms by (auto simp: is_scalar_def)
  ultimately show "second3 (0xE0 + a) (0x80 + m)"
    using \<open>a < 16\<close> assms(2) unfolding second3_def continuation_def by linarith
qed

lemma second4_lead:
  assumes "a * 262144 + m * 4096 + k * 64 + l = c" "m < 64" "k < 64" "l < 64"
    "0x10000 \<le> c" "c < 0x110000"
  shows "a \<le> 4" "second4 (0xF0 + a) (0x80 + m)"
proof -
  show "a \<le> 4" using assms by linarith
  have "a = 0 \<Longrightarrow> 16 \<le> m" using assms by linarith
  moreover have "a = 4 \<Longrightarrow> m < 16" using assms by linarith
  ultimately show "second4 (0xF0 + a) (0x80 + m)"
    using \<open>a \<le> 4\<close> assms(2) unfolding second4_def continuation_def by linarith
qed

lemma lossy_utf8_char:
  assumes "is_scalar c"
  shows "lossy (utf8_char c @ r) = c # lossy r"
proof -
  consider "c < 0x80" | "0x80 \<le> c" "c < 0x800" | "0x800 \<le> c" "c < 0x10000" | "0x10000 \<le> c"
    by linarith
  then show ?thesis
  proof cases
    case 2
    then have "2 \<le> c div 64" "c div 64 < 32" by auto
    with 2 show ?thesis
      by (simp add: utf8_char_def continuation_def)
  next
    case 3
    define a m l where "a = c div 4096" and "m = c div 64 mod 64" and "l = c mod 64"
    then have c: "a * 4096 + m * 64 + l = c" and "m < 64" "l < 64"
      using split3 [of c] by simp_all
    with second3_lead [OF c] assms 3 have "a < 16" "second3 (0xE0 + a) (0x80 + m)" by auto
    moreover have "utf8_char c = [0xE0 + a, 0x80 + m, 0x80 + l]"
      using 3 by (simp add: utf8_char_def a_def m_def l_def)
    ultimately show ?thesis using c \<open>l < 64\<close> by (simp add: continuation_def)
  next
    case 4
    define a m k l where "a = c div 262144" and "m = c div 4096 mod 64"
      and "k = c div 64 mod 64" and "l = c mod 64"
    then have c: "a * 262144 + m * 4096 + k * 64 + l = c" and "m < 64" "k < 64" "l < 64"
      using split4 [of c] by simp_all
    moreover have "c < 0x110000" using assms 4 by (simp add: is_scalar_def)
    ultimately have "a \<le> 4" "second4 (0xF0 + a) (0x80 + m)"
      using second4_lead [OF c] 4 by auto
    moreover have "utf8_char c = [0xF0 + a, 0x80 + m, 0x80 + k, 0x80 + l]"
      using 4 by (simp add: utf8_char_def a_def m_def k_def l_def)
    ultimately show ?thesis using c \<open>k < 64\<close> \<open>l < 64\<close> by (simp add: continuation_def)
  qed (simp add: utf8_char_def)
qed

lemma utf8_char_bytes: "is_scalar c \<Longrightarrow> b \<in> set (utf8_char c) \<Longrightarrow> b < 256"
  by (auto simp: utf8_char_def is_scalar_def split: if_splits)

lemma lossy_concat: "is_str s \<Longrightarrow> lossy (concat (map utf8_char s)) = s"
  by (induction s) (simp_all add: lossy_utf8_char)

lemma unat_as_bytes: "is_str s \<Longrightarrow> map unat (as_bytes s) = concat (map utf8_char s)"
proof (induction s)
  case (Cons c s)
  then have "map (unat \<circ> (of_nat :: nat \<Rightarrow> byte)) (utf8_char c) = utf8_char c"
    by (intro map_idI) (auto simp: unat_of_nat dest: utf8_char_bytes)
  with Cons show ?case by (simp add: as_bytes_def)
qed (simp add: as_bytes_def)

lemma from_utf8_lossy_as_bytes [simp]: "is_str s \<Longrightarrow> from_utf8_lossy (as_bytes s) = s"
  by (simp add: from_utf8_lossy_def unat_as_bytes lossy_concat)

lemma zero_in_utf8_char: "is_scalar c \<Longrightarrow> 0 \<in> set (utf8_char c) \<longleftrightarrow> c = 0"
  by (auto simp: utf8_char_def)

lemma zero_in_as_bytes:
  assumes "is_str s"
  shows "0 \<in> set (as_bytes s) \<longleftrightarrow> 0 \<in> set s"
proof -
  have "0 \<in> set (as_bytes s) \<longleftrightarrow> 0 \<in> set (map unat (as_bytes s))"
    by (auto simp: unat_eq_0 image_iff)
  also have "\<dots> \<longleftrightarrow> (\<exists>c \<in> set s. 0 \<in> set (utf8_char c))"
    using assms by (simp add: unat_as_bytes)
  also have "\<dots> \<longleftrightarrow> 0 \<in> set s"
    using assms zero_in_utf8_char by (auto simp: is_str_def list_all_iff)
  finally show ?thesis .
qed

lemma as_bytes_append [simp]: "as_bytes (s @ t) = as_bytes s @ as_bytes t"
  by (simp add: as_bytes_def)

lemma as_bytes_Nil [simp]: "as_bytes [] = []"
  by (simp add: as_bytes_def)

lemma as_bytes_inject: "is_str s \<Longrightarrow> is_str t \<Longrightarrow> as_bytes s = as_bytes t \<longleftrightarrow> s = t"
  by (metis from_utf8_lossy_as_bytes)

end
