(* ===== verification/Externals.thy ===== *)
theory Externals
  imports Rust_Text
begin

text \<open>
  The crates this one calls and whose source is not in the repository, as the parameter
  of the model: \<^verbatim>\<open>codec\<close>'s byte cursor, byte writer, UTF-16 and UTF-8 forms,
  \<^verbatim>\<open>net\<close>'s ceiling on a body and \<^verbatim>\<open>sql\<close>'s T-SQL binary literal. The record
  holds the operations the crate calls; the locales state what it relies on them for.
\<close>

record externals =
  cur_byte :: "byte rd"
  cur_take :: "nat \<Rightarrow> byte list rd"
  cur_skip :: "nat \<Rightarrow> unit rd"
  cur_u16_le :: "16 word rd"
  cur_u16_be :: "16 word rd"
  cur_u32_le :: "32 word rd"
  cur_u32_be :: "32 word rd"
  cur_i32_le :: "32 word rd"
  cur_u64_le :: "64 word rd"
  overrun :: "nat \<Rightarrow> byte list \<Rightarrow> terror"
  put_byte :: "byte list \<Rightarrow> byte \<Rightarrow> byte list"
  put_bytes :: "byte list \<Rightarrow> byte list \<Rightarrow> byte list"
  put_u16_le :: "byte list \<Rightarrow> 16 word \<Rightarrow> byte list"
  put_u16_be :: "byte list \<Rightarrow> 16 word \<Rightarrow> byte list"
  put_u32_le :: "byte list \<Rightarrow> 32 word \<Rightarrow> byte list"
  put_u32_be :: "byte list \<Rightarrow> 32 word \<Rightarrow> byte list"
  put_i32_le :: "byte list \<Rightarrow> 32 word \<Rightarrow> byte list"
  put_u64_le :: "byte list \<Rightarrow> 64 word \<Rightarrow> byte list"
  utf16_encode :: "str \<Rightarrow> byte list"
  utf16_decode :: "byte list \<Rightarrow> terror + str"
  utf16_decode_lossy :: "byte list \<Rightarrow> str"
  utf8_decode :: "byte list \<Rightarrow> terror + str"
  max_body :: nat
  within_ceiling :: "nat \<Rightarrow> nat \<Rightarrow> str \<Rightarrow> terror + unit"
  bytes_of :: "str \<Rightarrow> byte list option"
  quote_bytes :: "byte list \<Rightarrow> str"

subsection \<open>The byte cursor\<close>

text \<open>
  A read takes the bytes it names off the front of what is left, or fails because they
  run past the end. An \<^verbatim>\<open>i32\<close> is its 32 bits.
\<close>

locale cursor =
  fixes K :: "'z externals_scheme"
  assumes byte_law: "cur_byte K c =
      (case c of b # c' \<Rightarrow> Inr (b, c') | [] \<Rightarrow> Inl (overrun K 1 c))"
    and take_law: "cur_take K n c =
      (if n \<le> length c then Inr (take n c, drop n c) else Inl (overrun K n c))"
    and skip_law: "cur_skip K n c =
      (if n \<le> length c then Inr ((), drop n c) else Inl (overrun K n c))"
    and u16_le_law: "cur_u16_le K c =
      (if 2 \<le> length c then Inr (of_le (take 2 c), drop 2 c) else Inl (overrun K 2 c))"
    and u16_be_law: "cur_u16_be K c =
      (if 2 \<le> length c then Inr (of_be (take 2 c), drop 2 c) else Inl (overrun K 2 c))"
    and u32_le_law: "cur_u32_le K c =
      (if 4 \<le> length c then Inr (of_le (take 4 c), drop 4 c) else Inl (overrun K 4 c))"
    and u32_be_law: "cur_u32_be K c =
      (if 4 \<le> length c then Inr (of_be (take 4 c), drop 4 c) else Inl (overrun K 4 c))"
    and i32_le_law: "cur_i32_le K c =
      (if 4 \<le> length c then Inr (of_le (take 4 c), drop 4 c) else Inl (overrun K 4 c))"
    and u64_le_law: "cur_u64_le K c =
      (if 8 \<le> length c then Inr (of_le (take 8 c), drop 8 c) else Inl (overrun K 8 c))"
begin

lemmas cursor_laws = byte_law take_law skip_law u16_le_law u16_be_law u32_le_law
  u32_be_law i32_le_law u64_le_law

lemma byte_Cons [rd_simps]: "cur_byte K (b # c) = Inr (b, c)"
  by (simp add: byte_law)

lemma take_append [rd_simps]: "length xs = n \<Longrightarrow> cur_take K n (xs @ c) = Inr (xs, c)"
  by (simp add: take_law)

lemma skip_append [rd_simps]: "length xs = n \<Longrightarrow> cur_skip K n (xs @ c) = Inr ((), c)"
  by (simp add: skip_law)

lemma words_append [rd_simps]:
  "cur_u16_le K (le_bytes 2 w @ c) = Inr (w, c)"
  "cur_u16_be K (be_bytes 2 w @ c) = Inr (w, c)"
  "cur_u32_le K (le_bytes 4 x @ c) = Inr (x, c)"
  "cur_u32_be K (be_bytes 4 x @ c) = Inr (x, c)"
  "cur_i32_le K (le_bytes 4 x @ c) = Inr (x, c)"
  "cur_u64_le K (le_bytes 8 y @ c) = Inr (y, c)"
  by (simp_all add: u16_le_law u16_be_law u32_le_law u32_be_law i32_le_law u64_le_law)

lemma words_reads:
  "cur_u16_le K c = Inr (w, c') \<longleftrightarrow> c = le_bytes 2 w @ c'"
  "cur_u32_le K c = Inr (x, c') \<longleftrightarrow> c = le_bytes 4 x @ c'"
  "cur_u64_le K c = Inr (y, c') \<longleftrightarrow> c = le_bytes 8 y @ c'"
  using le_bytes_of_le [of "take 2 c", where 'a = 16] le_bytes_of_le [of "take 4 c", where 'a = 32]
    le_bytes_of_le [of "take 8 c", where 'a = 64]
  by (auto simp: u16_le_law u32_le_law u64_le_law append_eq_conv_conj)

lemma skip_reads: "cur_skip K n c = Inr (u, c') \<longleftrightarrow> (\<exists>xs. length xs = n \<and> c = xs @ c')"
  by (auto simp: skip_law append_eq_conv_conj intro: exI [of _ "take n c"])

lemma byte_reads: "cur_byte K c = Inr (b, c') \<longleftrightarrow> c = b # c'"
  by (auto simp: byte_law split: list.splits)

lemma cursor_consumes [simp, intro, progress_intros]:
  "consumes (cur_byte K)" "consumes (cur_u16_le K)" "consumes (cur_u16_be K)"
  "consumes (cur_u32_le K)" "consumes (cur_u32_be K)" "consumes (cur_i32_le K)"
  "consumes (cur_u64_le K)"
  by (auto simp: consumes_def cursor_laws split: list.splits if_splits)

lemma consumes_take: "0 < n \<Longrightarrow> consumes (cur_take K n)"
  by (auto simp: consumes_def take_law split: if_splits)

lemma cursor_shrinks [simp, intro, progress_intros]:
  "shrinks (cur_take K n)" "shrinks (cur_skip K n)"
  by (auto simp: shrinks_def cursor_laws split: if_splits)

lemmas cursor_shrinks_all [progress_intros] = cursor_consumes [THEN consumes_shrinks]

lemma take_Inr: "cur_take K n c = Inr (xs, c') \<longleftrightarrow> c = xs @ c' \<and> length xs = n"
  by (auto simp: take_law split: if_splits)

end

subsection \<open>The byte writer\<close>

locale byte_writer =
  fixes K :: "'z externals_scheme"
  assumes put_laws [wr_simps]:
    "put_byte K out b = out @ [b]"
    "put_bytes K out bs = out @ bs"
    "put_u16_le K out w = out @ le_bytes 2 w"
    "put_u16_be K out w = out @ be_bytes 2 w"
    "put_u32_le K out x = out @ le_bytes 4 x"
    "put_u32_be K out x = out @ be_bytes 4 x"
    "put_i32_le K out x = out @ le_bytes 4 x"
    "put_u64_le K out y = out @ le_bytes 8 y"

subsection \<open>Text forms\<close>

definition utf16_units :: "str \<Rightarrow> nat" where
  "utf16_units s = sum_list (map (\<lambda>c. if c < 0x10000 then 1 else 2) s)"

lemma utf16_units_simps [simp]:
  "utf16_units [] = 0"
  "utf16_units (c # s) = (if c < 0x10000 then 1 else 2) + utf16_units s"
  "utf16_units (s @ t) = utf16_units s + utf16_units t"
  by (simp_all add: utf16_units_def)

lemma utf16_units_lit [simp]: "utf16_units (lit s) = length s"
proof (induction s)
  case (Cons c s)
  have "(of_char c :: nat) < 0x10000" using of_char_less [of c] by linarith
  with Cons show ?case by (simp add: lit_def)
qed (simp add: lit_def)

locale text_forms =
  fixes K :: "'z externals_scheme"
  assumes utf16_length: "length (utf16_encode K s) = 2 * utf16_units s"
    and utf16_round: "is_str s \<Longrightarrow> utf16_decode K (utf16_encode K s) = Inr s"
    and utf16_lossy_round: "is_str s \<Longrightarrow> utf16_decode_lossy K (utf16_encode K s) = s"
    and utf8_round: "is_str s \<Longrightarrow> utf8_decode K (as_bytes s) = Inr s"

locale codec = cursor K + byte_writer K + text_forms K
  for K :: "'z externals_scheme"

subsection \<open>The ceiling on a message and the binary literal\<close>

locale body_ceiling =
  fixes K :: "'z externals_scheme"
  assumes within_law: "within_ceiling K n m what = Inr () \<longleftrightarrow> n \<le> m"
begin

lemma within_cases:
  obtains "n \<le> m" "within_ceiling K n m what = Inr ()"
  | e where "m < n" "within_ceiling K n m what = Inl e"
  using within_law [of n m what] by (cases "within_ceiling K n m what") auto

end

locale binary_literal =
  fixes K :: "'z externals_scheme"
  assumes bytes_of_quote: "bytes_of K (quote_bytes K bs) = Some bs"
    and quote_is_str: "is_str (quote_bytes K bs)"

text \<open>Everything at once, for what spans components.\<close>

locale crates = codec K + body_ceiling K + binary_literal K
  for K :: "'z externals_scheme"

end
