(* ===== verification/Reference.thy ===== *)
theory Reference
  imports Externals
begin

text \<open>
  One set of crates that keeps every law of \<open>Externals\<close>: a cursor and a writer over
  byte lists, UTF-16 in little-endian units, strict UTF-8, a ceiling of one mebibyte and
  the lower-case \<open>0x\<close> literal. It is what the witnesses run the model with; no theorem
  about the code mentions it.
\<close>

definition overran :: "nat \<Rightarrow> byte list \<Rightarrow> terror" where
  "overran n c = Protocol (lit ''a field runs past the message'')"

definition cut :: "nat \<Rightarrow> (byte list \<Rightarrow> 'a) \<Rightarrow> 'a rd" where
  "cut n f c = (if n \<le> length c then Inr (f (take n c), drop n c) else Inl (overran n c))"

subsection \<open>UTF-16\<close>

definition utf16_char :: "nat \<Rightarrow> nat list" where
  "utf16_char c =
     (if c < 0x10000 then [c]
      else [0xD800 + (c - 0x10000) div 1024, 0xDC00 + (c - 0x10000) mod 1024])"

definition unit_bytes :: "nat \<Rightarrow> byte list" where
  "unit_bytes u = [of_nat u, of_nat (u div 256)]"

fun units_of :: "byte list \<Rightarrow> nat list" where
  "units_of (a # b # bs) = (unat a + 256 * unat b) # units_of bs"
| "units_of _ = []"

definition encode16 :: "str \<Rightarrow> byte list" where
  "encode16 s = concat (map unit_bytes (concat (map utf16_char s)))"

text \<open>A unit that pairs with nothing is U+FFFD, or the end of a strict decoding.\<close>

fun decode_units :: "nat list \<Rightarrow> (nat + nat) list" where
  "decode_units [] = []"
| "decode_units (u # us) =
     (if u < 0xD800 \<or> 0xE000 \<le> u then Inr u # decode_units us
      else case us of
        v # vs \<Rightarrow>
          if u < 0xDC00 \<and> 0xDC00 \<le> v \<and> v < 0xE000 then
            Inr (0x10000 + (u - 0xD800) * 1024 + (v - 0xDC00)) # decode_units vs
          else Inl u # decode_units us
      | [] \<Rightarrow> [Inl u])"

definition lossy16 :: "byte list \<Rightarrow> str" where
  "lossy16 bs = map (\<lambda>r. case r of Inr c \<Rightarrow> c | Inl _ \<Rightarrow> 0xFFFD) (decode_units (units_of bs))"

definition decode16 :: "byte list \<Rightarrow> terror + str" where
  "decode16 bs =
     (if even (length bs) \<and> list_all (\<lambda>r. \<not> isl r) (decode_units (units_of bs))
      then Inr (map projr (decode_units (units_of bs)))
      else Inl (Protocol (lit ''text that is not UTF-16'')))"

lemma units_of_bytes: "list_all (\<lambda>u. u < 0x10000) us \<Longrightarrow> units_of (concat (map unit_bytes us)) = us"
proof (induction us)
  case (Cons u us)
  have "u mod 256 + 256 * (u div 256) = u" by simp
  moreover have "u div 256 < 256" using Cons.prems by (simp add: less_mult_imp_div_less)
  ultimately show ?case using Cons by (simp add: unit_bytes_def unat_of_nat)
qed simp

lemma utf16_char_small: "is_scalar c \<Longrightarrow> list_all (\<lambda>u. u < 0x10000) (utf16_char c)"
  by (auto simp: utf16_char_def is_scalar_def)

lemma decode_utf16_char:
  assumes "is_scalar c"
  shows "decode_units (utf16_char c @ us) = Inr c # decode_units us"
proof (cases "c < 0x10000")
  case True
  then show ?thesis using assms by (auto simp: utf16_char_def is_scalar_def)
next
  case False
  define d where "d = c - 0x10000"
  have c: "c = 0x10000 + d" and "d div 1024 < 1024"
    using False assms by (auto simp: d_def is_scalar_def less_mult_imp_div_less)
  moreover have "d div 1024 * 1024 + d mod 1024 = d" by simp
  ultimately show ?thesis by (simp add: utf16_char_def)
qed

lemma decode_units_encode:
  "is_str s \<Longrightarrow> decode_units (units_of (encode16 s)) = map Inr s"
proof -
  assume s: "is_str s"
  have "list_all (\<lambda>u. u < 0x10000) (concat (map utf16_char s))"
    using s by (induction s) (auto simp: utf16_char_small)
  then have "units_of (encode16 s) = concat (map utf16_char s)"
    by (simp add: encode16_def units_of_bytes)
  moreover have "decode_units (concat (map utf16_char s)) = map Inr s"
    using s by (induction s) (simp_all add: decode_utf16_char)
  ultimately show ?thesis by simp
qed

lemma length_encode16: "length (encode16 s) = 2 * utf16_units s"
proof -
  have "length (concat (map unit_bytes us)) = 2 * length us" for us
    by (induction us) (simp_all add: unit_bytes_def)
  moreover have "length (concat (map utf16_char s)) = utf16_units s"
    by (induction s) (simp_all add: utf16_char_def)
  ultimately show ?thesis by (simp add: encode16_def)
qed

subsection \<open>UTF-8 and the literal\<close>

definition decode8 :: "byte list \<Rightarrow> terror + str" where
  "decode8 bs =
     (let s = from_utf8_lossy bs
      in if as_bytes s = bs then Inr s else Inl (Protocol (lit ''text that is not UTF-8'')))"

definition quote_hex :: "byte list \<Rightarrow> str" where
  "quote_hex bs = lit ''0x'' @ concat (map hex_byte bs)"

definition hex_value :: "nat \<Rightarrow> nat option" where
  "hex_value c =
     (if 48 \<le> c \<and> c \<le> 57 then Some (c - 48)
      else if 97 \<le> c \<and> c \<le> 102 then Some (c - 87)
      else if 65 \<le> c \<and> c \<le> 70 then Some (c - 55) else None)"

fun hex_pairs :: "str \<Rightarrow> byte list option" where
  "hex_pairs [] = Some []"
| "hex_pairs (a # b # s) =
     (case (hex_value a, hex_value b, hex_pairs s) of
        (Some h, Some l, Some bs) \<Rightarrow> Some (of_nat (16 * h + l) # bs)
      | _ \<Rightarrow> None)"
| "hex_pairs _ = None"

definition unquote_hex :: "str \<Rightarrow> byte list option" where
  "unquote_hex s = (if take 2 s = lit ''0x'' then hex_pairs (drop 2 s) else None)"

lemma hex_value_digit: "d < 16 \<Longrightarrow> hex_value (hex_digit d) = Some d"
  by (simp add: hex_value_def hex_digit_def)

lemma hex_pairs_bytes: "hex_pairs (concat (map hex_byte bs)) = Some bs"
proof (induction bs)
  case (Cons b bs)
  have "unat b < 256" using unsigned_less [of b, where 'a = nat] by simp
  then have "unat b div 16 < 16" by (simp add: less_mult_imp_div_less)
  moreover have "of_nat (16 * (unat b div 16) + unat b mod 16) = b"
    by (simp only: mult_div_mod_eq) simp
  ultimately show ?case using Cons by (simp add: hex_byte_def hex_value_digit)
qed simp

lemma is_str_quote_hex: "is_str (quote_hex bs)"
proof -
  have "is_scalar (hex_digit d)" if "d < 16" for d
    using that by (simp add: hex_digit_def is_scalar_def)
  moreover have "unat b div 16 < 16" for b :: byte
    using unsigned_less [of b, where 'a = nat] by (simp add: less_mult_imp_div_less)
  ultimately have "is_str (concat (map hex_byte bs))"
    by (induction bs) (simp_all add: hex_byte_def)
  then show ?thesis by (simp add: quote_hex_def)
qed

subsection \<open>The crates\<close>

definition reference :: externals where
  "reference = \<lparr>
     cur_byte = cut 1 hd,
     cur_take = (\<lambda>n. cut n (\<lambda>bs. bs)),
     cur_skip = (\<lambda>n. cut n (\<lambda>_. ())),
     cur_u16_le = cut 2 of_le,
     cur_u16_be = cut 2 of_be,
     cur_u32_le = cut 4 of_le,
     cur_u32_be = cut 4 of_be,
     cur_i32_le = cut 4 of_le,
     cur_u64_le = cut 8 of_le,
     overrun = overran,
     put_byte = (\<lambda>out b. out @ [b]),
     put_bytes = (\<lambda>out bs. out @ bs),
     put_u16_le = (\<lambda>out w. out @ le_bytes 2 w),
     put_u16_be = (\<lambda>out w. out @ be_bytes 2 w),
     put_u32_le = (\<lambda>out w. out @ le_bytes 4 w),
     put_u32_be = (\<lambda>out w. out @ be_bytes 4 w),
     put_i32_le = (\<lambda>out w. out @ le_bytes 4 w),
     put_u64_le = (\<lambda>out w. out @ le_bytes 8 w),
     utf16_encode = encode16,
     utf16_decode = decode16,
     utf16_decode_lossy = lossy16,
     utf8_decode = decode8,
     max_body = 1048576,
     within_ceiling = (\<lambda>n m what.
       if n \<le> m then Inr () else Inl (Permanent (lit ''more than '' @ what))),
     bytes_of = unquote_hex,
     quote_bytes = quote_hex\<rparr>"

interpretation reference_crates: crates reference
proof unfold_locales
  show "cur_byte reference c =
      (case c of b # c' \<Rightarrow> Inr (b, c') | [] \<Rightarrow> Inl (overrun reference 1 c))" for c
    by (simp add: reference_def cut_def split: list.split)
  show "length (utf16_encode reference s) = 2 * utf16_units s" for s
    by (simp add: reference_def length_encode16)
  show "utf16_decode reference (utf16_encode reference s) = Inr s" if "is_str s" for s
    using that by (simp add: reference_def decode16_def decode_units_encode length_encode16
        list.pred_map comp_def list.pred_True)
  show "utf16_decode_lossy reference (utf16_encode reference s) = s" if "is_str s" for s
    using that by (simp add: reference_def lossy16_def decode_units_encode comp_def)
  show "utf8_decode reference (as_bytes s) = Inr s" if "is_str s" for s
    using that by (simp add: reference_def decode8_def)
  show "bytes_of reference (quote_bytes reference bs) = Some bs" for bs
    by (simp add: reference_def unquote_hex_def quote_hex_def hex_pairs_bytes)
  show "is_str (quote_bytes reference bs)" for bs
    by (simp add: reference_def is_str_quote_hex)
qed (simp_all add: reference_def cut_def)

lemma reference_laws:
  "cursor reference" "byte_writer reference" "text_forms reference" "codec reference"
  "body_ceiling reference" "binary_literal reference" "crates reference"
  by unfold_locales

lemma reference_max_body [simp]: "max_body reference = 1048576"
  by (simp add: reference_def)

end
