(* ===== verification/Rust_Io.thy ===== *)
theory Rust_Io
  imports Rust_Std
begin

text \<open>
  The two ends of a connection as \<^verbatim>\<open>std::io\<close> shows them. A reader holds the bytes
  the peer has yet to be read for and what comes after them: the peer closed, or reading
  fails from there on. A writer holds what has been written, and how much more it takes
  before it fails, when it does.
\<close>

datatype ending = Closed | Broken io_error

record reader =
  incoming :: "byte list"
  ending :: ending

text \<open>\<open>read\<close> into a buffer of one byte: \<open>None\<close> is the count of zero at the end.\<close>

definition read1 :: "reader \<Rightarrow> (io_error + byte option) \<times> reader" where
  "read1 r =
     (case incoming r of
        b # bs \<Rightarrow> (Inr (Some b), r\<lparr>incoming := bs\<rparr>)
      | [] \<Rightarrow> (case ending r of Closed \<Rightarrow> (Inr None, r) | Broken e \<Rightarrow> (Inl e, r)))"

text \<open>\<open>read_exact\<close>: a buffer that cannot be filled has taken what there was.\<close>

definition read_exact :: "nat \<Rightarrow> reader \<Rightarrow> (io_error + byte list) \<times> reader" where
  "read_exact n r =
     (if n \<le> length (incoming r) then
        (Inr (take n (incoming r)), r\<lparr>incoming := drop n (incoming r)\<rparr>)
      else
        (Inl (case ending r of Closed \<Rightarrow> UnexpectedEof | Broken e \<Rightarrow> e), r\<lparr>incoming := []\<rparr>))"

record writer =
  sent :: "byte list"
  gives_out :: "(nat \<times> io_error) option"
  flush_error :: "io_error option"

definition write_all :: "byte list \<Rightarrow> writer \<Rightarrow> (io_error + unit) \<times> writer" where
  "write_all bs w =
     (case gives_out w of
        None \<Rightarrow> (Inr (), w\<lparr>sent := sent w @ bs\<rparr>)
      | Some (n, e) \<Rightarrow>
          if length bs \<le> n then
            (Inr (), w\<lparr>sent := sent w @ bs, gives_out := Some (n - length bs, e)\<rparr>)
          else (Inl e, w\<lparr>sent := sent w @ take n bs, gives_out := Some (0, e)\<rparr>))"

definition flush :: "writer \<Rightarrow> (io_error + unit) \<times> writer" where
  "flush w = (case flush_error w of None \<Rightarrow> (Inr (), w) | Some e \<Rightarrow> (Inl e, w))"

text \<open>A writer that takes everything, as a connection does while it lasts.\<close>

definition sound :: "writer \<Rightarrow> bool" where
  "sound w \<longleftrightarrow> gives_out w = None \<and> flush_error w = None"

lemma read1_step:
  "read1 r = (Inr (Some b), r') \<Longrightarrow> incoming r = b # incoming r' \<and> ending r' = ending r"
  by (auto simp: read1_def split: list.splits ending.splits)

lemma read1_end: "read1 r = (Inr None, r') \<Longrightarrow> incoming r = [] \<and> ending r = Closed \<and> r' = r"
  by (auto simp: read1_def split: list.splits ending.splits)

lemma read_exact_step:
  "read_exact n r = (Inr bs, r') \<Longrightarrow>
     incoming r = bs @ incoming r' \<and> length bs = n \<and> ending r' = ending r"
  by (auto simp: read_exact_def split: if_splits)

lemma read1_Cons [simp]:
  "read1 \<lparr>incoming = b # bs, ending = e\<rparr> = (Inr (Some b), \<lparr>incoming = bs, ending = e\<rparr>)"
  by (simp add: read1_def)

lemma read_exact_prefix:
  "length bs = n \<Longrightarrow>
     read_exact n \<lparr>incoming = bs @ cs, ending = e\<rparr> = (Inr bs, \<lparr>incoming = cs, ending = e\<rparr>)"
  by (simp add: read_exact_def)

lemma write_all_sound:
  "sound w \<Longrightarrow> write_all bs w = (Inr (), w\<lparr>sent := sent w @ bs\<rparr>)"
  by (simp add: write_all_def sound_def)

lemma flush_sound: "sound w \<Longrightarrow> flush w = (Inr (), w)"
  by (simp add: flush_def sound_def)

lemma sound_sent [simp]: "sound (w\<lparr>sent := bs\<rparr>) = sound w"
  by (simp add: sound_def)

lemma write_all_prefix:
  "write_all bs w = (r, w') \<Longrightarrow> \<exists>n. sent w' = sent w @ take n bs"
  by (auto simp: write_all_def split: option.splits if_splits)
    (metis take_all order_refl | blast)+

end
