(* ===== verification/Wire.thy ===== *)
theory Wire
  imports Reference Rust_Io
begin

unbundle bit_operations_syntax

text \<open>
  \<^verbatim>\<open>src/wire.rs\<close>: packets and the messages they carry, and the counted UCS-2 text
  fields. \<open>message\<close> is the framing as a grammar; \<open>read_message\<close> is shown to accept
  exactly its messages, and \<open>packets\<close> to write them.
\<close>

subsection \<open>Constants\<close>

definition SQL_BATCH :: byte where [simp]: "SQL_BATCH = 0x01"
definition TABULAR_RESULT :: byte where [simp]: "TABULAR_RESULT = 0x04"
definition LOGIN7 :: byte where [simp]: "LOGIN7 = 0x10"
definition PRELOGIN :: byte where [simp]: "PRELOGIN = 0x12"
definition END_OF_MESSAGE :: byte where [simp]: "END_OF_MESSAGE = 0x01"
definition HEADER_LENGTH :: nat where [simp]: "HEADER_LENGTH = 8"
definition DEFAULT_PACKET_SIZE :: "16 word" where [simp]: "DEFAULT_PACKET_SIZE = 4096"
definition MIN_PACKET_SIZE :: "16 word" where [simp]: "MIN_PACKET_SIZE = 512"
definition MAX_PACKET_SIZE :: "16 word" where [simp]: "MAX_PACKET_SIZE = 32767"

subsection \<open>Writing\<close>

definition packet :: "'z externals_scheme \<Rightarrow> byte \<Rightarrow> byte \<Rightarrow> byte list \<Rightarrow> byte \<Rightarrow> byte list" where
  "packet K kind status payload packet_id =
     (let len = fits_or (- 1) (HEADER_LENGTH + length payload);
          out = put_byte K [] kind;
          out = put_byte K out status;
          out = put_u16_be K out len;
          out = put_u16_be K out 0;
          out = put_byte K out packet_id;
          out = put_byte K out 0
      in put_bytes K out payload)"

text \<open>\<open>packet_size.clamp(MIN_PACKET_SIZE, MAX_PACKET_SIZE)\<close>\<close>

definition clamp_size :: "16 word \<Rightarrow> 16 word" where
  "clamp_size n = max MIN_PACKET_SIZE (min MAX_PACKET_SIZE n)"

definition packets :: "'z externals_scheme \<Rightarrow> byte \<Rightarrow> byte list \<Rightarrow> 16 word \<Rightarrow> byte list" where
  "packets K kind payload packet_size =
     (let room = unat (clamp_size packet_size) - HEADER_LENGTH;
          chs = (if payload = [] then [[]] else chunks room payload);
          final = length chs - 1
      in concat (map (\<lambda>(index, chunk).
           let status = (if index = final then END_OF_MESSAGE else 0);
               packet_id = fits_or 0 (index mod 256)
           in packet K kind status chunk packet_id) (enumerate 0 chs)))"

definition write_message ::
    "'z externals_scheme \<Rightarrow> byte \<Rightarrow> byte list \<Rightarrow> 16 word \<Rightarrow> writer \<Rightarrow> (terror + unit) \<times> writer" where
  "write_message K kind payload packet_size w =
     (case write_all (packets K kind payload packet_size) w of
        (Inl e, w) \<Rightarrow> (Inl (Classified (lit ''writing a message'') e), w)
      | (Inr _, w) \<Rightarrow>
          (case flush w of
             (Inl e, w) \<Rightarrow> (Inl (Classified (lit ''flushing a message'') e), w)
           | (Inr _, w) \<Rightarrow> (Inr (), w)))"

subsection \<open>Reading\<close>

definition is_packet_type :: "byte \<Rightarrow> bool" where
  "is_packet_type kind \<longleftrightarrow>
     kind \<in> {0x01, 0x02, 0x03, 0x04, 0x06, 0x07, 0x08, 0x0E, 0x10, 0x11, 0x12}"

text \<open>
  The loop of \<^verbatim>\<open>read_message\<close>, its variables \<open>payload\<close> and \<open>kind\<close>. Every round
  that goes on has read a header, so the loop ends with the reader's bytes.
\<close>

function (sequential) read_packets ::
    "'z externals_scheme \<Rightarrow> byte list \<Rightarrow> byte option \<Rightarrow> reader \<Rightarrow>
       (terror + (byte \<times> byte list) option) \<times> reader" where
  "read_packets K payload kind r =
     (case read1 r of
        (Inl e, r) \<Rightarrow> (Inl (Classified (lit ''reading a packet header'') e), r)
      | (Inr None, r) \<Rightarrow>
          (case kind of
             None \<Rightarrow> (Inr None, r)
           | Some _ \<Rightarrow> (Inl (Protocol (lit ''the peer closed mid-message'')), r))
      | (Inr (Some h), r) \<Rightarrow>
      (case read_exact (HEADER_LENGTH - 1) r of
        (Inl e, r) \<Rightarrow> (Inl (Classified (lit ''reading a packet header'') e), r)
      | (Inr hs, r) \<Rightarrow>
        let header = h # hs in
        if kind = None \<and> \<not> is_packet_type (header ! 0) then
          (Inl (Protocol (hex04 (header ! 0)
             @ lit '' is not a packet type; this is not the protocol'')), r)
        else if kind \<noteq> None \<and> kind \<noteq> Some (header ! 0) then
          (Inl (Protocol (lit ''a packet of another type mid-message'')), r)
        else
        let len = unat (of_be [header ! 2, header ! 3] :: 16 word) in
        if len > unat MAX_PACKET_SIZE then
          (Inl (Protocol (lit ''a packet longer than the protocol allows'')), r)
        else if len < HEADER_LENGTH then
          (Inl (Protocol (lit ''a packet shorter than its header'')), r)
        else
        let body = len - HEADER_LENGTH in
        case within_ceiling K (length payload + body) (max_body K)
               (lit ''Xmip reads in one message'') of
          Inl e \<Rightarrow> (Inl e, r)
        | Inr _ \<Rightarrow>
          (case read_exact body r of
             (Inl e, r) \<Rightarrow> (Inl (Classified (lit ''reading a packet body'') e), r)
           | (Inr bytes, r) \<Rightarrow>
               if (header ! 1) AND END_OF_MESSAGE \<noteq> 0 then
                 (Inr (Some (header ! 0, payload @ bytes)), r)
               else read_packets K (payload @ bytes) (Some (header ! 0)) r)))"
  by pat_completeness auto
termination
proof (relation "measure (\<lambda>(K, payload, kind, r). length (incoming r))", goal_cases)
  case 2
  then show ?case by (auto dest!: read1_step [OF sym] read_exact_step [OF sym])
qed simp

declare read_packets.simps [simp del]

definition read_message ::
    "'z externals_scheme \<Rightarrow> reader \<Rightarrow> (terror + (byte \<times> byte list) option) \<times> reader" where
  "read_message K r = read_packets K [] None r"

subsection \<open>The framing as a grammar\<close>

text \<open>
  The framing as a grammar: \<open>message most kind bs payload\<close> says that \<open>bs\<close> are the
  packets of one message, each at most \<open>most\<close> bytes and an eight-byte header with the
  length of the whole packet, the last and only the last marked end-of-message.
\<close>

inductive message :: "nat \<Rightarrow> byte \<Rightarrow> byte list \<Rightarrow> byte list \<Rightarrow> bool" for most kind where
  last_packet:
    "unat (of_be [hi, lo] :: 16 word) = HEADER_LENGTH + length body \<Longrightarrow>
     HEADER_LENGTH + length body \<le> most \<Longrightarrow>
     status AND END_OF_MESSAGE \<noteq> 0 \<Longrightarrow> length tail = 4 \<Longrightarrow>
     message most kind (kind # status # hi # lo # tail @ body) body"
| more_packets:
    "unat (of_be [hi, lo] :: 16 word) = HEADER_LENGTH + length body \<Longrightarrow>
     HEADER_LENGTH + length body \<le> most \<Longrightarrow>
     status AND END_OF_MESSAGE = 0 \<Longrightarrow> length tail = 4 \<Longrightarrow>
     message most kind bs payload \<Longrightarrow>
     message most kind (kind # status # hi # lo # tail @ body @ bs) (body @ payload)"

lemma message_length: "message most kind bs payload \<Longrightarrow> 8 + length payload \<le> length bs"
  by (induction rule: message.induct) auto

lemma message_mono: "message most kind bs payload \<Longrightarrow> most \<le> most' \<Longrightarrow> message most' kind bs payload"
  by (induction rule: message.induct) (auto intro: message.intros)

text \<open>One round of the loop on a well-formed packet.\<close>

lemma read_one_packet:
  assumes len: "unat (of_be [hi, lo] :: 16 word) = HEADER_LENGTH + length body"
      "HEADER_LENGTH + length body \<le> unat MAX_PACKET_SIZE"
    and tail: "length tail = 4"
    and kind: "k = None \<and> is_packet_type h \<or> k = Some h"
    and room: "within_ceiling K (length pl + length body) (max_body K)
      (lit ''Xmip reads in one message'') = Inr ()"
  shows "read_packets K pl k \<lparr>incoming = h # status # hi # lo # tail @ body @ rest, ending = e\<rparr> =
    (if status AND END_OF_MESSAGE \<noteq> 0
     then (Inr (Some (h, pl @ body)), \<lparr>incoming = rest, ending = e\<rparr>)
     else read_packets K (pl @ body) (Some h) \<lparr>incoming = rest, ending = e\<rparr>)"
proof -
  have hs: "read_exact 7 \<lparr>incoming = (status # hi # lo # tail) @ body @ rest, ending = e\<rparr>
      = (Inr (status # hi # lo # tail), \<lparr>incoming = body @ rest, ending = e\<rparr>)"
    using tail by (intro read_exact_prefix) simp
  have bd: "read_exact (length body) \<lparr>incoming = body @ rest, ending = e\<rparr>
      = (Inr body, \<lparr>incoming = rest, ending = e\<rparr>)"
    by (rule read_exact_prefix) simp
  show ?thesis
    using len kind hs bd room
    by (subst read_packets.simps) auto
qed

context body_ceiling
begin

text \<open>Completeness: what the grammar calls a message is read, and no byte after it.\<close>

lemma read_packets_complete:
  assumes "message (unat MAX_PACKET_SIZE) kind bs payload" and "k = None \<and> is_packet_type kind \<or> k = Some kind"
    and "length pl + length payload \<le> max_body K"
  shows "read_packets K pl k \<lparr>incoming = bs @ rest, ending = e\<rparr> =
    (Inr (Some (kind, pl @ payload)), \<lparr>incoming = rest, ending = e\<rparr>)"
  using assms
proof (induction arbitrary: pl k rule: message.induct)
  case (last_packet hi lo body status tail)
  then show ?case
    using read_one_packet [of hi lo body tail k kind K pl status rest e]
    by (simp add: within_law)
next
  case (more_packets hi lo body status tail bs payload)
  then show ?case
    using read_one_packet [of hi lo body tail k kind K pl status "bs @ rest" e]
    by (simp add: within_law)
qed

end

text \<open>Soundness: what is read is a message of the grammar.\<close>

lemma read_packets_round:
  assumes res: "read_packets K pl k r = (Inr v, r')" and more: "incoming r \<noteq> []"
  obtains h status hi lo tail body r2 where
    "incoming r = h # status # hi # lo # tail @ body @ incoming r2" "ending r2 = ending r"
    "length tail = 4" "unat (of_be [hi, lo] :: 16 word) = HEADER_LENGTH + length body"
    "HEADER_LENGTH + length body \<le> unat MAX_PACKET_SIZE"
    "k = None \<and> is_packet_type h \<or> k = Some h"
    "within_ceiling K (length pl + length body) (max_body K)
       (lit ''Xmip reads in one message'') = Inr ()"
    "if status AND END_OF_MESSAGE \<noteq> 0 then v = Some (h, pl @ body) \<and> r' = r2
     else read_packets K (pl @ body) (Some h) r2 = (Inr v, r')"
proof -
  note unf = res [unfolded read_packets.simps [of K pl k r]]
  obtain h r1 where h: "read1 r = (Inr (Some h), r1)"
    using more by (cases "incoming r") (auto simp: read1_def)
  obtain hs r0 where hs: "read_exact 7 r1 = (Inr hs, r0)"
    using unf h by (cases "read_exact 7 r1") (auto split: sum.splits)
  from read_exact_step [OF hs] have "length hs = 7" by simp
  then obtain status hi lo tail where hs_eq: "hs = status # hi # lo # tail" "length tail = 4"
    by (auto simp: eval_nat_numeral length_Suc_conv)
  define len where "len = unat (of_be [hi, lo] :: 16 word)"
  have ktype: "k = None \<and> is_packet_type h \<or> k = Some h"
    and len: "len \<le> 32767" "8 \<le> len"
    using unf h hs by (auto simp: hs_eq len_def Let_def split: if_splits)
  have ceil: "within_ceiling K (length pl + (len - 8)) (max_body K)
      (lit ''Xmip reads in one message'') = Inr ()"
    using unf h hs ktype len by (auto simp: hs_eq len_def Let_def split: if_splits sum.splits)
  obtain body r2 where body: "read_exact (len - 8) r0 = (Inr body, r2)"
    using unf h hs ktype len ceil
    by (cases "read_exact (len - 8) r0") (auto simp: hs_eq len_def Let_def split: sum.splits)
  have last: "if status AND END_OF_MESSAGE \<noteq> 0 then v = Some (h, pl @ body) \<and> r' = r2
     else read_packets K (pl @ body) (Some h) r2 = (Inr v, r')"
    using unf h hs ktype len ceil body by (auto simp: hs_eq len_def Let_def split: if_splits)
  show thesis
  proof (rule that)
    show "incoming r = h # status # hi # lo # tail @ body @ incoming r2"
      and "ending r2 = ending r"
      using read1_step [OF h] read_exact_step [OF hs] read_exact_step [OF body]
      by (simp_all add: hs_eq)
    show "unat (of_be [hi, lo] :: 16 word) = HEADER_LENGTH + length body"
      "HEADER_LENGTH + length body \<le> unat MAX_PACKET_SIZE"
      using read_exact_step [OF body] len by (simp_all add: len_def)
    show "within_ceiling K (length pl + length body) (max_body K)
       (lit ''Xmip reads in one message'') = Inr ()"
      using ceil read_exact_step [OF body] by simp
  qed (use hs_eq ktype last in auto)
qed

lemma read_packets_sound:
  "read_packets K pl k r = (Inr (Some (kind, whole)), r') \<Longrightarrow>
     \<exists>bs payload. message (unat MAX_PACKET_SIZE) kind bs payload \<and> whole = pl @ payload \<and>
       incoming r = bs @ incoming r' \<and> ending r' = ending r \<and>
       within_ceiling K (length whole) (max_body K) (lit ''Xmip reads in one message'') = Inr () \<and>
       (k = None \<and> is_packet_type kind \<or> k = Some kind)"
proof (induction "length (incoming r)" arbitrary: pl k r rule: less_induct)
  case less
  have "incoming r \<noteq> []"
    using less.prems
    by (auto simp: read_packets.simps [of K pl k r] read1_def split: option.splits ending.splits)
  with less.prems obtain h status hi lo tail body r2 where
    inc: "incoming r = h # status # hi # lo # tail @ body @ incoming r2" "ending r2 = ending r"
    and hdr: "length tail = 4" "unat (of_be [hi, lo] :: 16 word) = HEADER_LENGTH + length body"
      "HEADER_LENGTH + length body \<le> unat MAX_PACKET_SIZE"
    and ktype: "k = None \<and> is_packet_type h \<or> k = Some h"
    and ceil: "within_ceiling K (length pl + length body) (max_body K)
       (lit ''Xmip reads in one message'') = Inr ()"
    and step: "if status AND END_OF_MESSAGE \<noteq> 0 then Some (kind, whole) = Some (h, pl @ body) \<and> r' = r2
     else read_packets K (pl @ body) (Some h) r2 = (Inr (Some (kind, whole)), r')"
    by (rule read_packets_round)
  show ?case
  proof (cases "status AND END_OF_MESSAGE = 0")
    case False
    with step have "kind = h" "whole = pl @ body" "r' = r2" by auto
    with inc ktype ceil message.last_packet [OF hdr(2,3) False hdr(1), of kind]
    show ?thesis by (intro exI conjI) auto
  next
    case True
    have "length (incoming r2) < length (incoming r)" by (simp add: inc)
    moreover from step True
    have "read_packets K (pl @ body) (Some h) r2 = (Inr (Some (kind, whole)), r')" by simp
    ultimately obtain bs payload where
      more: "message (unat MAX_PACKET_SIZE) kind bs payload" "whole = (pl @ body) @ payload" "kind = h"
      "incoming r2 = bs @ incoming r'" "ending r' = ending r2"
      "within_ceiling K (length whole) (max_body K) (lit ''Xmip reads in one message'') = Inr ()"
      using less.hyps by blast
    with message.more_packets [OF hdr(2,3) True hdr(1) more(1)] inc ktype
    show ?thesis by (intro exI conjI) auto
  qed
qed

lemma read_packets_None:
  "read_packets K pl k r = (Inr None, r') \<Longrightarrow>
     k = None \<and> incoming r = [] \<and> ending r = Closed \<and> r' = r"
proof (induction "length (incoming r)" arbitrary: pl k r rule: less_induct)
  case less
  show ?case
  proof (cases "incoming r = []")
    case True
    with less.prems show ?thesis
      by (auto simp: read_packets.simps [of K pl k r] read1_def split: option.splits ending.splits)
  next
    case False
    with less.prems obtain h status hi lo tail body r2 where
      inc: "incoming r = h # status # hi # lo # tail @ body @ incoming r2"
      and step: "if status AND END_OF_MESSAGE \<noteq> 0 then None = Some (h, pl @ body) \<and> r' = r2
        else read_packets K (pl @ body) (Some h) r2 = (Inr None, r')"
      by (rule read_packets_round)
    then have "read_packets K (pl @ body) (Some h) r2 = (Inr None, r')"
      by (simp split: if_splits)
    with less.hyps [of r2] inc show ?thesis by auto
  qed
qed


subsection \<open>The packets of a message\<close>

context byte_writer
begin

lemma packet_bytes:
  "packet K kind status payload i =
     kind # status # be_bytes 2 (fits_or (- 1) (8 + length payload) :: 16 word)
       @ [0, 0, i, 0] @ payload"
  by (simp add: packet_def Let_def wr_simps be_bytes_def numeral_2_eq_2)

lemma be_bytes_2: obtains hi lo where "be_bytes 2 (w :: 16 word) = [hi, lo]" "of_be [hi, lo] = w"
proof -
  obtain hi lo where "be_bytes 2 w = [hi, lo]"
    by (auto simp: be_bytes_def numeral_2_eq_2)
  moreover from this have "of_be [hi, lo] = w" by (metis of_be_inverse(1))
  ultimately show thesis by (rule that)
qed

lemma packet_shape:
  assumes "8 + length payload \<le> 32767"
  obtains hi lo where
    "packet K kind status payload i = kind # status # hi # lo # [0, 0, i, 0] @ payload"
    "unat (of_be [hi, lo] :: 16 word) = HEADER_LENGTH + length payload"
proof -
  obtain hi lo where w: "be_bytes 2 (fits_or (- 1) (8 + length payload) :: 16 word) = [hi, lo]"
    "of_be [hi, lo] = (fits_or (- 1) (8 + length payload) :: 16 word)"
    by (rule be_bytes_2)
  from w(1) have "packet K kind status payload i = kind # status # hi # lo # [0, 0, i, 0] @ payload"
    by (simp add: packet_bytes)
  moreover have "unat (of_be [hi, lo] :: 16 word) = HEADER_LENGTH + length payload"
    using assms w(2) by (simp add: unat_fits_or)
  ultimately show thesis by (rule that)
qed

lemma packets_message_chunks:
  assumes "chs \<noteq> []" and "\<And>c. c \<in> set chs \<Longrightarrow> 8 + length c \<le> most" and "most \<le> 32767"
  shows "message most kind
    (concat (map (\<lambda>(i, c). packet K kind (if i = n + length chs - 1 then 1 else 0) c (f i))
       (enumerate n chs))) (concat chs)"
  using assms
proof (induction chs arbitrary: n rule: list_nonempty_induct)
  case (single c)
  have "8 + length c \<le> 32767" using single.prems(1) [of c] single.prems(2) by simp
  then obtain hi lo where
    "packet K kind 1 c (f n) = kind # 1 # hi # lo # [0, 0, f n, 0] @ c"
    "unat (of_be [hi, lo] :: 16 word) = HEADER_LENGTH + length c"
    by (rule packet_shape)
  with single message.last_packet [of hi lo c most 1 "[0, 0, f n, 0]" kind] show ?case by simp
next
  case (cons c chs)
  have "8 + length c \<le> 32767" using cons.prems(1) [of c] cons.prems(2) by simp
  then obtain hi lo where
    "packet K kind 0 c (f n) = kind # 0 # hi # lo # [0, 0, f n, 0] @ c"
    "unat (of_be [hi, lo] :: 16 word) = HEADER_LENGTH + length c"
    by (rule packet_shape)
  moreover have "message most kind
    (concat (map (\<lambda>(i, c). packet K kind (if i = n + length chs then 1 else 0) c (f i))
       (enumerate (Suc n) chs))) (concat chs)"
    using cons.IH [of "Suc n"] cons.prems by simp
  ultimately show ?case
    using message.more_packets [of hi lo c most 0 "[0, 0, f n, 0]" kind] cons.hyps
      cons.prems(1) [of c]
    by simp
qed

lemma clamp_size_bounds: "512 \<le> unat (clamp_size n)" "unat (clamp_size n) \<le> 32767"
proof -
  have "512 \<le> clamp_size n" "clamp_size n \<le> 32767"
    by (simp_all add: clamp_size_def)
  then show "512 \<le> unat (clamp_size n)" "unat (clamp_size n) \<le> 32767"
    by (simp_all add: word_le_nat_alt)
qed

lemma packets_message: "message (unat (clamp_size n)) kind (packets K kind payload n) payload"
proof -
  define room where "room = unat (clamp_size n) - 8"
  define chs where "chs = (if payload = [] then [[]] else chunks room payload)"
  have room: "0 < room" "room + 8 = unat (clamp_size n)"
    using clamp_size_bounds [of n] by (simp_all add: room_def)
  then have "chs \<noteq> []" "concat chs = payload" by (auto simp: chs_def)
  note \<open>chs \<noteq> []\<close>
  moreover have "8 + length c \<le> unat (clamp_size n)" if "c \<in> set chs" for c
    using that chunks_bounds [OF room(1)] room(2) by (fastforce simp: chs_def split: if_splits)
  ultimately have "message (unat (clamp_size n)) kind
    (concat (map (\<lambda>(i, c). packet K kind (if i = 0 + length chs - 1 then 1 else 0) c
        (fits_or 0 (i mod 256))) (enumerate 0 chs))) (concat chs)"
    by (intro packets_message_chunks clamp_size_bounds(2))
  then show ?thesis
    using \<open>concat chs = payload\<close>
    by (cases "payload = []")
      (simp_all add: packets_def Let_def room_def chs_def split_def cong del: if_weak_cong)
qed

end


subsection \<open>Counted text\<close>

text \<open>A reader that sees no further than what it takes: what it reads of some bytes, it reads of them
  when more follow.\<close>

definition extends :: "'a rd \<Rightarrow> bool" where
  "extends p \<longleftrightarrow> (\<forall>c x c' d. p c = Inr (x, c') \<longrightarrow> p (c @ d) = Inr (x, c' @ d))"

lemma extends_return: "extends (rd_return x)"
  by (simp add: extends_def rd_return_def)

lemma extends_bind: "extends m \<Longrightarrow> (\<And>x. extends (f x)) \<Longrightarrow> extends (rd_bind m f)"
  unfolding extends_def rd_bind_eq_Inr by metis

lemma extends_cut:
  assumes "extends p" and "p bs = Inr (x, [])" and "n < length bs"
  shows "\<exists>e. p (take n bs) = Inl e"
proof (cases "p (take n bs)")
  case (Inr y)
  moreover obtain x c where "y = (x, c)" by fastforce
  ultimately have "p (take n bs @ drop n bs) = Inr (x, c @ drop n bs)"
    using assms(1) unfolding extends_def by blast
  with assms(2,3) show ?thesis by simp
qed blast

definition ucs2 :: "'z externals_scheme \<Rightarrow> nat \<Rightarrow> str rd" where
  "ucs2 K chars =
     rd_bind (cur_take K (chars * 2)) (\<lambda>bs. rd_return (utf16_decode_lossy K bs))"

definition read_b_varchar :: "'z externals_scheme \<Rightarrow> str rd" where
  "read_b_varchar K = rd_bind (cur_byte K) (\<lambda>chars. ucs2 K (unat chars))"

definition read_us_varchar :: "'z externals_scheme \<Rightarrow> str rd" where
  "read_us_varchar K = rd_bind (cur_u16_le K) (\<lambda>chars. ucs2 K (unat chars))"

text \<open>\<open>units.truncate(most * 2)\<close> keeps the front.\<close>

definition counted :: "'z externals_scheme \<Rightarrow> str \<Rightarrow> nat \<Rightarrow> byte list" where
  "counted K s most = take (most * 2) (utf16_encode K s)"

definition write_b_varchar :: "'z externals_scheme \<Rightarrow> byte list \<Rightarrow> str \<Rightarrow> byte list" where
  "write_b_varchar K out s =
     (let units = counted K s 255;
          out = put_byte K out (fits_or (- 1) (length units div 2))
      in put_bytes K out units)"

definition write_us_varchar :: "'z externals_scheme \<Rightarrow> byte list \<Rightarrow> str \<Rightarrow> byte list" where
  "write_us_varchar K out s =
     (let units = counted K s 65535;
          out = put_u16_le K out (fits_or (- 1) (length units div 2))
      in put_bytes K out units)"

context codec
begin

lemma length_counted: "length (counted K s most) = 2 * min most (utf16_units s)"
  by (simp add: counted_def utf16_length)

lemma counted_whole: "utf16_units s \<le> most \<Longrightarrow> counted K s most = utf16_encode K s"
  by (simp add: counted_def utf16_length)

lemma ucs2_append:
  "length bs = 2 * n \<Longrightarrow> ucs2 K n (bs @ c) = Inr (utf16_decode_lossy K bs, c)"
  by (simp add: ucs2_def rd_simps mult.commute)

lemma b_varchar_bytes:
  "write_b_varchar K out s =
     out @ of_nat (min 255 (utf16_units s)) # counted K s 255"
  by (simp add: write_b_varchar_def Let_def wr_simps length_counted fits_or_def)

lemma us_varchar_bytes:
  "write_us_varchar K out s =
     out @ le_bytes 2 (of_nat (min 65535 (utf16_units s)) :: 16 word) @ counted K s 65535"
proof -
  have "min 65535 (utf16_units s) < 65536" by linarith
  then show ?thesis
    by (simp add: write_us_varchar_def Let_def wr_simps length_counted fits_or_def)
qed

text \<open>
  Whatever its length, a text field is read to its own end: what is cut is the text,
  never the framing.
\<close>

lemma b_varchar_framed:
  "read_b_varchar K (write_b_varchar K [] s @ c) =
     Inr (utf16_decode_lossy K (counted K s 255), c)"
  by (simp add: b_varchar_bytes read_b_varchar_def rd_simps ucs2_append length_counted unat_of_nat)

lemma us_varchar_framed:
  "read_us_varchar K (write_us_varchar K [] s @ c) =
     Inr (utf16_decode_lossy K (counted K s 65535), c)"
  by (simp add: us_varchar_bytes read_us_varchar_def rd_simps ucs2_append length_counted unat_of_nat)

lemma b_varchar_round:
  "is_str s \<Longrightarrow> utf16_units s \<le> 255 \<Longrightarrow>
     read_b_varchar K (write_b_varchar K [] s @ c) = Inr (s, c)"
  by (simp add: b_varchar_framed counted_whole utf16_lossy_round)

lemma us_varchar_round:
  "is_str s \<Longrightarrow> utf16_units s \<le> 65535 \<Longrightarrow>
     read_us_varchar K (write_us_varchar K [] s @ c) = Inr (s, c)"
  by (simp add: us_varchar_framed counted_whole utf16_lossy_round)

lemma shrinks_ucs2 [simp, intro, progress_intros]: "shrinks (ucs2 K n)"
  by (auto simp: ucs2_def)

lemma varchar_consumes [simp, intro, progress_intros]:
  "consumes (read_b_varchar K)" "consumes (read_us_varchar K)"
  by (auto simp: read_b_varchar_def read_us_varchar_def)

lemmas varchar_shrinks [progress_intros] = varchar_consumes [THEN consumes_shrinks]

lemma extends_cursor:
  "extends (cur_byte K)" "extends (cur_u16_le K)" "extends (cur_u32_le K)" "extends (cur_i32_le K)"
  "extends (cur_take K n)"
  by (auto simp: extends_def cursor_laws split: list.splits if_splits)

lemma extends_varchar: "extends (read_b_varchar K)" "extends (read_us_varchar K)"
  unfolding read_b_varchar_def read_us_varchar_def ucs2_def
  by (intro extends_bind extends_return extends_cursor)+

end

sublocale codec \<subseteq> b_varchar: wire_format
  "write_b_varchar K" "read_b_varchar K" "\<lambda>s. is_str s \<and> utf16_units s \<le> 255"
proof
  show "write_b_varchar K out s = out @ write_b_varchar K [] s" for out s
    by (simp add: b_varchar_bytes)
  show "read_b_varchar K (write_b_varchar K [] s @ c) = Inr (s, c)"
    if "is_str s \<and> utf16_units s \<le> 255" for s c
    using that by (simp add: b_varchar_round)
qed

sublocale codec \<subseteq> us_varchar: wire_format
  "write_us_varchar K" "read_us_varchar K" "\<lambda>s. is_str s \<and> utf16_units s \<le> 65535"
proof
  show "write_us_varchar K out s = out @ write_us_varchar K [] s" for out s
    by (simp add: us_varchar_bytes)
  show "read_us_varchar K (write_us_varchar K [] s @ c) = Inr (s, c)"
    if "is_str s \<and> utf16_units s \<le> 65535" for s c
    using that by (simp add: us_varchar_round)
qed

subsection \<open>What the framing promises\<close>

lemma write_message_sound:
  "sound w \<Longrightarrow> write_message K kind payload n w =
     (Inr (), w\<lparr>sent := sent w @ packets K kind payload n\<rparr>)"
  by (simp add: write_message_def write_all_sound flush_sound)

lemma read_message_exact:
  assumes "body_ceiling K"
  shows "read_message K r = (Inr (Some (kind, payload)), r') \<longleftrightarrow>
    is_packet_type kind \<and> length payload \<le> max_body K \<and> ending r' = ending r \<and>
    (\<exists>bs. message (unat MAX_PACKET_SIZE) kind bs payload \<and> incoming r = bs @ incoming r')"
    (is "?L = ?R")
proof
  assume ?L
  then show ?R
    using read_packets_sound [of K "[]" None r kind payload r'] body_ceiling.within_law [OF assms]
    by (auto simp: read_message_def)
next
  assume ?R
  then obtain bs where
    "message (unat MAX_PACKET_SIZE) kind bs payload" "incoming r = bs @ incoming r'"
    "is_packet_type kind" "length payload \<le> max_body K" "ending r' = ending r" by blast
  with body_ceiling.read_packets_complete [OF assms this(1), of None "[]" "incoming r'" "ending r"]
  show ?L by (cases r; cases r') (auto simp: read_message_def)
qed

lemma packets_read_back:
  assumes "byte_writer K" and "body_ceiling K"
    and "is_packet_type kind" and "length payload \<le> max_body K"
  shows "read_message K \<lparr>incoming = packets K kind payload n @ rest, ending = e\<rparr> =
    (Inr (Some (kind, payload)), \<lparr>incoming = rest, ending = e\<rparr>)"
proof -
  have "message (unat MAX_PACKET_SIZE) kind (packets K kind payload n) payload"
    using message_mono [OF byte_writer.packets_message [OF assms(1)]
        byte_writer.clamp_size_bounds(2) [OF assms(1)]] by simp
  with assms show ?thesis by (auto simp: read_message_exact)
qed

text \<open>C13: A message is read exactly when the bytes at hand begin with the packets of one:
  its type is one the protocol has, its payload is under the ceiling, and nothing past its
  last packet is taken. \<open>message\<close> is the framing as a grammar.\<close>

theorem read_message_iff:
  assumes "body_ceiling K"
  shows "read_message K r = (Inr (Some (kind, payload)), r') \<longleftrightarrow>
    is_packet_type kind \<and> length payload \<le> max_body K \<and> ending r' = ending r \<and>
    (\<exists>bs. message (unat MAX_PACKET_SIZE) kind bs payload \<and> incoming r = bs @ incoming r')"
  using assms by (rule read_message_exact)

text \<open>C14: A payload written as packets of any size, at any place in a stream, is read back
  whole with its type, and what follows it is left.\<close>

theorem packets_round_trip:
  assumes "byte_writer K" and "body_ceiling K"
    and "is_packet_type kind" and "length payload \<le> max_body K"
  shows "read_message K \<lparr>incoming = packets K kind payload n @ rest, ending = e\<rparr> =
    (Inr (Some (kind, payload)), \<lparr>incoming = rest, ending = e\<rparr>)"
  using assms by (rule packets_read_back)

theorem packets_round_trip_witness:
  "read_message reference
     \<lparr>incoming = packets reference SQL_BATCH [7, 8, 9] 512 @ [1, 2], ending = Closed\<rparr> =
   (Inr (Some (SQL_BATCH, [7, 8, 9])), \<lparr>incoming = [1, 2], ending = Closed\<rparr>)"
  by (rule packets_round_trip) (simp_all add: reference_laws is_packet_type_def)

lemma bare_packet:
  "message 32767 0x04 [0x04, 1, 0, 9, 0, 0, 0, 0, 42] [42]"
  using message.last_packet [of 0 9 "[42]" 32767 1 "[0, 0, 0, 0]" "0x04"]
  by (simp add: of_be_def)

theorem read_message_iff_witness:
  "read_message reference
     \<lparr>incoming = [0x04, 1, 0, 9, 0, 0, 0, 0, 42, 5], ending = Closed\<rparr> =
   (Inr (Some (0x04, [42])), \<lparr>incoming = [5], ending = Closed\<rparr>)"
  using bare_packet
  by (subst read_message_iff)
    (auto simp: reference_laws is_packet_type_def
      intro!: exI [of _ "[0x04, 1, 0, 9, 0, 0, 0, 0, 42]"])

text \<open>C24: A message that breaks off anywhere inside, whether the peer closed or reading
  failed, is an error, never a message and never a clean end.\<close>

theorem truncated_message_refused:
  assumes "byte_writer K" and "body_ceiling K"
    and "is_packet_type kind" and "length payload \<le> max_body K"
    and "packets K kind payload n = p @ q" and "p \<noteq> []" and "q \<noteq> []"
  shows "\<exists>e r'. read_message K \<lparr>incoming = p, ending = x\<rparr> = (Inl e, r')"
proof -
  obtain res r' where res: "read_message K \<lparr>incoming = p, ending = x\<rparr> = (res, r')"
    by fastforce
  have False if "res = Inr None"
    using read_packets_None [of K "[]" None "\<lparr>incoming = p, ending = x\<rparr>" r'] res that \<open>p \<noteq> []\<close> by (auto simp: read_message_def)
  moreover have False if "res = Inr (Some (kind', payload'))" for kind' payload'
  proof -
    from res that obtain bs where "message (unat MAX_PACKET_SIZE) kind' bs payload'"
      and p: "p = bs @ incoming r'" and ok: "is_packet_type kind'" "length payload' \<le> max_body K"
      by (auto simp: read_message_exact [OF assms(2)])
    then have "read_message K \<lparr>incoming = bs @ (incoming r' @ q), ending = x\<rparr> =
        (Inr (Some (kind', payload')), \<lparr>incoming = incoming r' @ q, ending = x\<rparr>)"
      by (auto simp: read_message_exact [OF assms(2)])
    moreover have "read_message K \<lparr>incoming = bs @ (incoming r' @ q), ending = x\<rparr> =
        (Inr (Some (kind, payload)), \<lparr>incoming = [], ending = x\<rparr>)"
      using packets_read_back [OF assms(1-4), of n "[]" x] assms(5) p by simp
    ultimately show False using \<open>q \<noteq> []\<close> by simp
  qed
  ultimately have "res \<noteq> Inr b" for b by (cases b) auto
  with res show ?thesis by (cases res) auto
qed


lemma reference_packet: "packets reference 0x04 [42] 512 = [0x04, 1, 0, 9, 0, 0, 0, 0, 42]"
  by (simp add: packets_def clamp_size_def chunks_short fits_or_def be_bytes_def
      byte_writer.packet_bytes [OF reference_laws(2)] le_bytes_expand)

theorem truncated_message_refused_witness:
  "\<exists>e r'. read_message reference \<lparr>incoming = [0x04, 1, 0, 9, 0], ending = Closed\<rparr> = (Inl e, r')"
  by (rule truncated_message_refused [where kind = "0x04" and payload = "[42]" and n = 512
        and q = "[0, 0, 0, 42]"])
    (simp_all add: reference_laws is_packet_type_def reference_packet)

text \<open>C35: Reading ends cleanly, with no message and no error, exactly when the peer closed
  before the first byte of a header.\<close>

theorem read_message_closed_iff:
  "read_message K r = (Inr None, r') \<longleftrightarrow> incoming r = [] \<and> ending r = Closed \<and> r' = r"
proof
  assume "read_message K r = (Inr None, r')"
  then show "incoming r = [] \<and> ending r = Closed \<and> r' = r"
    using read_packets_None [of K "[]" None r r'] by (simp add: read_message_def)
next
  assume "incoming r = [] \<and> ending r = Closed \<and> r' = r"
  then show "read_message K r = (Inr None, r')"
    by (simp add: read_message_def read_packets.simps [of K "[]" None r] read1_def)
qed

text \<open>A first header whose type byte the protocol does not have is refused by that byte.\<close>

lemma stray_type_refused:
  assumes "\<not> is_packet_type h" and "length hs = 7"
  shows "read_message K \<lparr>incoming = h # hs @ rest, ending = e\<rparr> =
    (Inl (Protocol (hex04 h @ lit '' is not a packet type; this is not the protocol'')),
     \<lparr>incoming = rest, ending = e\<rparr>)"
  using assms read_exact_prefix [of hs 7 rest e]
  by (simp add: read_message_def read_packets.simps [of K "[]" None] read1_def)

text \<open>What the packets of a message come to.\<close>

lemma packets_length:
  assumes "byte_writer K"
  shows "length (packets K kind payload n) = length payload +
    8 * max 1 ((length payload + (unat (clamp_size n) - 9)) div (unat (clamp_size n) - 8))"
proof -
  define room where "room = unat (clamp_size n) - 8"
  define chs where "chs = (if payload = [] then [[]] else chunks room payload)"
  have room: "0 < room" "unat (clamp_size n) - 9 = room - 1"
    using byte_writer.clamp_size_bounds [OF assms, of n] by (simp_all add: room_def)
  have one: "length (packet K k s c i) = 8 + length c" for k s c i
    by (simp add: byte_writer.packet_bytes [OF assms])
  have all: "length (concat (map (\<lambda>(i, c). packet K kind (f i) c (g i)) (enumerate m cs))) =
      length (concat cs) + 8 * length cs" for f g m cs
    by (induction cs arbitrary: m) (simp_all add: one)
  have "packets K kind payload n = concat (map (\<lambda>(i, c). packet K kind
      (if i = length chs - 1 then END_OF_MESSAGE else 0) c (fits_or 0 (i mod 256)))
      (enumerate 0 chs))"
    by (simp only: packets_def Let_def room_def chs_def HEADER_LENGTH_def)
  then have "length (packets K kind payload n) = length (concat chs) + 8 * length chs"
    by (simp only: all)
  moreover have "length (concat chs) = length payload"
    using room(1) by (simp add: chs_def)
  moreover have "length chs = max 1 ((length payload + (room - 1)) div room)"
  proof (cases "payload = []")
    case False
    then have "1 \<le> length (chunks room payload)" using room(1) by (simp add: Suc_le_eq)
    with False room(1) show ?thesis by (simp add: chs_def length_chunks)
  qed (use room(1) in \<open>simp add: chs_def\<close>)
  ultimately show ?thesis
    by (simp add: room_def [symmetric] room(2))
qed

text \<open>C29: However large a payload is, every packet it is split into keeps to the negotiated
  size clamped to what the protocol allows, and the message costs one header of eight bytes
  a packet and nothing else.\<close>

theorem packets_size:
  assumes "byte_writer K"
  shows "message (unat (clamp_size n)) kind (packets K kind payload n) payload \<and>
    length (packets K kind payload n) = length payload +
      8 * max 1 ((length payload + (unat (clamp_size n) - 9)) div (unat (clamp_size n) - 8))"
  using byte_writer.packets_message [OF assms] packets_length [OF assms] by blast

theorem packets_size_witness:
  "message 512 SQL_BATCH (packets reference SQL_BATCH (replicate 1500 0) 512) (replicate 1500 0)
   \<and> length (packets reference SQL_BATCH (replicate 1500 0) 512) = 1500 + 8 * 3"
  using packets_size [OF reference_laws(2), of 512 SQL_BATCH "replicate 1500 0"]
  by (simp add: clamp_size_def)

end
