(* ===== verification/Column.thy ===== *)
theory Column
  imports Wire
begin

text \<open>
  \<^verbatim>\<open>src/column.rs\<close>: the column types and one value of each on the wire. A value is text or
  null on both sides; \<open>shown\<close> says what text comes back for the text that was written, and
  \<open>type_info\<close> and \<open>plp\<close> are the grammars of a type and of a partially length-prefixed value.
\<close>

definition INTN :: byte where [simp]: "INTN = 0x26"
definition INT4 :: byte where [simp]: "INT4 = 0x38"
definition INT8 :: byte where [simp]: "INT8 = 0x7F"
definition BIT_TYPE :: byte where [simp]: "BIT_TYPE = 0x32"
definition BITN :: byte where [simp]: "BITN = 0x68"
definition NVARCHAR :: byte where [simp]: "NVARCHAR = 0xE7"
definition BIGVARCHAR :: byte where [simp]: "BIGVARCHAR = 0xA7"
definition BIGVARBINARY :: byte where [simp]: "BIGVARBINARY = 0xA5"
definition MAX_LENGTH :: "16 word" where [simp]: "MAX_LENGTH = 0xFFFF"
definition PLP_NULL :: "64 word" where [simp]: "PLP_NULL = 0xFFFFFFFFFFFFFFFF"
definition PLP_UNKNOWN :: "64 word" where [simp]: "PLP_UNKNOWN = 0xFFFFFFFFFFFFFFFE"

datatype column_type =
    IntN byte
  | IntT
  | BigInt
  | Bit
  | BitN
  | NVarChar "16 word"
  | VarChar "16 word"
  | VarBinary "16 word"

record column =
  col_name :: str
  col_kind :: column_type

definition new_column :: "str \<Rightarrow> column_type \<Rightarrow> column" where
  "new_column name kind = \<lparr>col_name = name, col_kind = kind\<rparr>"

definition text_column :: "str \<Rightarrow> column" where
  "text_column name = new_column name (NVarChar MAX_LENGTH)"

subsection \<open>A type on the wire\<close>

definition write_type_info :: "byte list \<Rightarrow> column_type \<Rightarrow> byte list" where
  "write_type_info out kind = (case kind of
       IntN width \<Rightarrow> out @ [INTN, width]
     | IntT \<Rightarrow> out @ [INT4]
     | BigInt \<Rightarrow> out @ [INT8]
     | Bit \<Rightarrow> out @ [BIT_TYPE]
     | BitN \<Rightarrow> out @ [BITN, 1]
     | NVarChar m \<Rightarrow> out @ [NVARCHAR] @ le_bytes 2 m @ replicate 5 0
     | VarChar m \<Rightarrow> out @ [BIGVARCHAR] @ le_bytes 2 m @ replicate 5 0
     | VarBinary m \<Rightarrow> out @ [BIGVARBINARY] @ le_bytes 2 m)"

definition read_type_info :: "'z externals_scheme \<Rightarrow> column_type rd" where
  "read_type_info K =
     rd_bind (cur_byte K) (\<lambda>b.
       if b = INTN then rd_bind (cur_byte K) (\<lambda>width. rd_return (IntN width))
       else if b = INT4 then rd_return IntT
       else if b = INT8 then rd_return BigInt
       else if b = BIT_TYPE then rd_return Bit
       else if b = BITN then rd_bind (cur_skip K 1) (\<lambda>_. rd_return BitN)
       else if b = NVARCHAR then
         rd_bind (cur_u16_le K) (\<lambda>m. rd_bind (cur_skip K 5) (\<lambda>_. rd_return (NVarChar m)))
       else if b = BIGVARCHAR then
         rd_bind (cur_u16_le K) (\<lambda>m. rd_bind (cur_skip K 5) (\<lambda>_. rd_return (VarChar m)))
       else if b = BIGVARBINARY then
         rd_bind (cur_u16_le K) (\<lambda>m. rd_return (VarBinary m))
       else
         rd_fail (Protocol (lit ''column type '' @ hex04 b
           @ lit '' is not one this crate reads; cast it in the query'')))"

subsection \<open>Bytes of variable length\<close>

definition write_plp :: "byte list \<Rightarrow> byte list option \<Rightarrow> byte list" where
  "write_plp out bytes = (case bytes of
       None \<Rightarrow> out @ le_bytes 8 PLP_NULL
     | Some bytes \<Rightarrow>
         (let out = out @ le_bytes 8 (of_nat (length bytes) :: 64 word);
              out = foldl (\<lambda>out chunk.
                out @ le_bytes 4 (fits_or (- 1) (length chunk) :: 32 word) @ chunk)
                out (chunks 65535 bytes)
          in out @ le_bytes 4 (0 :: 32 word)))"

definition plp_round :: "'z externals_scheme \<Rightarrow> byte list \<Rightarrow> (byte list + byte list) rd" where
  "plp_round K out =
     rd_bind (cur_u32_le K) (\<lambda>chunk.
       if chunk = 0 then leave out
       else rd_bind (cur_take K (unat chunk)) (\<lambda>bytes. go_on (out @ bytes)))"

definition read_plp :: "'z externals_scheme \<Rightarrow> byte list option rd" where
  "read_plp K =
     rd_bind (cur_u64_le K) (\<lambda>total.
       if total = PLP_NULL then rd_return None
       else
         rd_bind (rd_loop (plp_round K) []) (\<lambda>out.
           if total \<noteq> PLP_UNKNOWN \<and> total \<noteq> of_nat (length out) then
             rd_fail (Protocol (lit ''chunks that do not add up to their total''))
           else rd_return (Some out)))"

definition write_bytes :: "byte list \<Rightarrow> 16 word \<Rightarrow> byte list option \<Rightarrow> byte list" where
  "write_bytes out m bytes =
     (if m = MAX_LENGTH then write_plp out bytes
      else case bytes of
        None \<Rightarrow> out @ le_bytes 2 MAX_LENGTH
      | Some bytes \<Rightarrow>
          (let len = fits_or (MAX_LENGTH - 1) (length bytes) :: 16 word
           in out @ le_bytes 2 len @ take (unat len) bytes))"

definition read_bytes :: "'z externals_scheme \<Rightarrow> 16 word \<Rightarrow> byte list option rd" where
  "read_bytes K m =
     (if m = MAX_LENGTH then read_plp K
      else
        rd_bind (cur_u16_le K) (\<lambda>len.
          if len = MAX_LENGTH then rd_return None
          else rd_bind (cur_take K (unat len)) (\<lambda>bytes. rd_return (Some bytes))))"

subsection \<open>A value on the wire\<close>

text \<open>\<^verbatim>\<open>i64\<close> and \<^verbatim>\<open>i32\<close> are their bits, read as signed.\<close>

definition integer :: "str \<Rightarrow> 64 word" where
  "integer s = (case parse_i64 (trim s) of None \<Rightarrow> 0 | Some i \<Rightarrow> of_int i)"

definition truthy :: "str option \<Rightarrow> bool" where
  "truthy v = (case v of
       None \<Rightarrow> False
     | Some t \<Rightarrow> trim t \<in> {lit ''1'', lit ''true'', lit ''True'', lit ''TRUE''})"

definition write_value ::
    "'z externals_scheme \<Rightarrow> byte list \<Rightarrow> column_type \<Rightarrow> str option \<Rightarrow> byte list" where
  "write_value K out kind value = (case kind of
       IntN width \<Rightarrow> (case value of
           None \<Rightarrow> out @ [0]
         | Some s \<Rightarrow> out @ [width] @ take (min (unat width) 8) (le_bytes 8 (integer s)))
     | IntT \<Rightarrow>
         (let i = (case value of None \<Rightarrow> 0 | Some s \<Rightarrow> integer s);
              v = (if - (2 ^ 31) \<le> sint i \<and> sint i < 2 ^ 31 then of_int (sint i) else 0 :: 32 word)
          in out @ le_bytes 4 v)
     | BigInt \<Rightarrow> out @ le_bytes 8 (case value of None \<Rightarrow> 0 | Some s \<Rightarrow> integer s)
     | Bit \<Rightarrow> out @ [if truthy value then 1 else 0]
     | BitN \<Rightarrow> (case value of
           None \<Rightarrow> out @ [0]
         | Some _ \<Rightarrow> out @ [1, if truthy value then 1 else 0])
     | NVarChar m \<Rightarrow> write_bytes out m (map_option (utf16_encode K) value)
     | VarChar m \<Rightarrow> write_bytes out m (map_option as_bytes value)
     | VarBinary m \<Rightarrow>
         write_bytes out m (map_option (\<lambda>s. case bytes_of K s of
             Some bytes \<Rightarrow> bytes | None \<Rightarrow> as_bytes s) value))"

definition decoded :: "(byte list \<Rightarrow> terror + str) \<Rightarrow> byte list option \<Rightarrow> terror + str option" where
  "decoded f v = (case v of None \<Rightarrow> Inr None | Some bs \<Rightarrow> and_then (f bs) (\<lambda>s. Inr (Some s)))"

definition read_value :: "'z externals_scheme \<Rightarrow> column_type \<Rightarrow> str option rd" where
  "read_value K kind = (case kind of
       IntN _ \<Rightarrow>
         rd_bind (cur_byte K) (\<lambda>width.
         rd_bind (cur_take K (unat width)) (\<lambda>bytes.
           if width = 0 then rd_return None
           else if width = 1 then rd_return (Some (dec_int (sint (of_le bytes :: 8 word))))
           else if width = 2 then rd_return (Some (dec_int (sint (of_le bytes :: 16 word))))
           else if width = 4 then rd_return (Some (dec_int (sint (of_le bytes :: 32 word))))
           else if width = 8 then rd_return (Some (dec_int (sint (of_le bytes :: 64 word))))
           else rd_fail (Protocol (lit ''an integer '' @ dec_nat (unat width) @ lit '' bytes wide''))))
     | IntT \<Rightarrow> rd_bind (cur_i32_le K) (\<lambda>i. rd_return (Some (dec_int (sint i))))
     | BigInt \<Rightarrow>
         rd_bind (cur_take K 8) (\<lambda>eight.
           rd_return (Some (dec_int (sint (of_le eight :: 64 word)))))
     | Bit \<Rightarrow>
         rd_bind (cur_byte K) (\<lambda>b. rd_return (Some (if b \<noteq> 0 then lit ''1'' else lit ''0'')))
     | BitN \<Rightarrow>
         rd_bind (cur_byte K) (\<lambda>n.
           if n = 0 then rd_return None
           else rd_bind (cur_byte K) (\<lambda>b.
             rd_return (Some (if b \<noteq> 0 then lit ''1'' else lit ''0''))))
     | NVarChar m \<Rightarrow>
         rd_bind (read_bytes K m) (\<lambda>v. rd_lift (decoded (utf16_decode K) v))
     | VarChar m \<Rightarrow>
         rd_bind (read_bytes K m) (\<lambda>v. rd_lift (decoded (utf8_decode K) v))
     | VarBinary m \<Rightarrow>
         rd_bind (read_bytes K m) (\<lambda>v. rd_return (map_option (quote_bytes K) v)))"

subsection \<open>Reading makes progress\<close>

context cursor
begin

lemma consumes_type_info [simp, intro, progress_intros]: "consumes (read_type_info K)"
  unfolding read_type_info_def by (intro progress_intros)

lemma consumes_plp_round: "consumes (plp_round K out)"
  unfolding plp_round_def by (intro progress_intros)

end

sublocale cursor \<subseteq> plp_loop: progressing "plp_round K"
  by (intro progressingI consumes_plp_round)

context cursor
begin

lemma shrinks_plp_loop [progress_intros]: "shrinks (rd_loop (plp_round K) out)"
  by (intro plp_loop.loop_shrinks consumes_shrinks consumes_plp_round)

lemma consumes_read_bytes [progress_intros]: "consumes (read_bytes K m)"
  unfolding read_bytes_def read_plp_def by (intro progress_intros)

lemma consumes_read_value [progress_intros]: "consumes (read_value K kind)"
  by (cases kind) (simp add: read_value_def, intro progress_intros consumes_take zero_less_numeral)+

lemmas column_shrinks [progress_intros] =
  consumes_type_info [THEN consumes_shrinks] consumes_read_value [THEN consumes_shrinks]

end

subsection \<open>The grammar of a type\<close>

text \<open>What declares a type: the byte of \<open>BITN\<close>'s width and the five of a collation are any.\<close>

inductive type_info :: "column_type \<Rightarrow> byte list \<Rightarrow> bool" where
  "type_info (IntN width) [INTN, width]"
| "type_info IntT [INT4]"
| "type_info BigInt [INT8]"
| "type_info Bit [BIT_TYPE]"
| "type_info BitN [BITN, width]"
| "length collation = 5 \<Longrightarrow> type_info (NVarChar m) (NVARCHAR # le_bytes 2 m @ collation)"
| "length collation = 5 \<Longrightarrow> type_info (VarChar m) (BIGVARCHAR # le_bytes 2 m @ collation)"
| "type_info (VarBinary m) (BIGVARBINARY # le_bytes 2 m)"

inductive_simps type_info_simps:
  "type_info (IntN width) bs" "type_info IntT bs" "type_info BigInt bs" "type_info Bit bs"
  "type_info BitN bs" "type_info (NVarChar m) bs" "type_info (VarChar m) bs"
  "type_info (VarBinary m) bs"

lemma write_type_info_grammar:
  "\<exists>bs. write_type_info out kind = out @ bs \<and> type_info kind bs"
  by (cases kind) (auto simp: write_type_info_def type_info_simps)

context cursor
begin

lemma type_info_read: "type_info kind bs \<Longrightarrow> read_type_info K (bs @ c) = Inr (kind, c)"
  by (induction rule: type_info.induct)
    (simp_all add: read_type_info_def rd_simps skip_append [of "[_]" 1, simplified])

lemma type_info_exact:
  "read_type_info K c = Inr (kind, c') \<longleftrightarrow> (\<exists>bs. type_info kind bs \<and> c = bs @ c')"
proof
  assume "read_type_info K c = Inr (kind, c')"
  then show "\<exists>bs. type_info kind bs \<and> c = bs @ c'"
    by (fastforce simp: read_type_info_def rd_bind_eq_Inr words_reads byte_reads skip_reads
        type_info_simps rd_return_def rd_fail_def length_Suc_conv split: if_splits)
qed (auto simp: type_info_read)

end

subsection \<open>The grammar of a partially length-prefixed value\<close>

definition plp_chunks :: "byte list list \<Rightarrow> byte list" where
  "plp_chunks cs =
     concat (map (\<lambda>c. le_bytes 4 (of_nat (length c) :: 32 word) @ c) cs) @ le_bytes 4 (0 :: 32 word)"

definition chunk_ok :: "byte list \<Rightarrow> bool" where
  "chunk_ok c \<longleftrightarrow> c \<noteq> [] \<and> length c < 2 ^ 32"

lemma write_plp_chunks:
  "write_plp out (Some bs) =
     out @ le_bytes 8 (of_nat (length bs) :: 64 word) @ plp_chunks (chunks 65535 bs)"
proof -
  have "map (\<lambda>c. le_bytes 4 (fits_or (- 1) (length c) :: 32 word) @ c) (chunks 65535 bs) =
      map (\<lambda>c. le_bytes 4 (of_nat (length c) :: 32 word) @ c) (chunks 65535 bs)"
    by (intro map_cong refl) (auto simp: fits_or_def dest!: chunks_bounds [rotated])
  then show ?thesis
    by (simp only: write_plp_def plp_chunks_def foldl_appends option.case Let_def append_assoc)
qed

lemma length_plp_chunks: "length (plp_chunks cs) = length (concat cs) + 4 * length cs + 4"
  by (induction cs) (simp_all add: plp_chunks_def)

lemma chunks_chunk_ok: "list_all chunk_ok (chunks 65535 bs)"
  by (fastforce simp: list_all_iff chunk_ok_def dest: chunks_bounds [rotated])

context cursor
begin

lemma plp_round_chunk:
  assumes "chunk_ok x"
  shows "plp_round K out (le_bytes 4 (of_nat (length x) :: 32 word) @ x @ c) =
    Inr (Inl (out @ x), c)"
proof -
  have "unat (of_nat (length x) :: 32 word) = length x" "length x \<noteq> 0"
    using assms by (simp_all add: chunk_ok_def unat_of_nat)
  then have "(of_nat (length x) :: 32 word) \<noteq> 0" by (metis unat_0)
  with \<open>unat _ = _\<close> show ?thesis by (simp add: plp_round_def rd_simps)
qed

lemma read_chunks:
  "list_all chunk_ok cs \<Longrightarrow>
     rd_loop (plp_round K) out (plp_chunks cs @ c) = Inr (out @ concat cs, c)"
proof (induction cs arbitrary: out)
  case Nil
  have "plp_round K out (plp_chunks [] @ c) = Inr (Inr out, c)"
    by (simp add: plp_round_def plp_chunks_def rd_simps)
  then show ?case by (simp add: plp_loop.loop_leave)
next
  case (Cons x cs)
  have "plp_round K out (plp_chunks (x # cs) @ c) = Inr (Inl (out @ x), plp_chunks cs @ c)"
    using plp_round_chunk [of x out "plp_chunks cs @ c"] Cons.prems by (simp add: plp_chunks_def)
  with Cons show ?case by (simp add: plp_loop.loop_go_on)
qed

lemma read_plp_chunks:
  assumes "list_all chunk_ok cs" and "sum8 \<noteq> PLP_NULL"
  shows "read_plp K (le_bytes 8 sum8 @ plp_chunks cs @ c) =
    (if sum8 = PLP_UNKNOWN \<or> sum8 = of_nat (length (concat cs)) then Inr (Some (concat cs), c)
     else Inl (Protocol (lit ''chunks that do not add up to their total'')))"
  using assms read_chunks [of cs "[]" c] by (simp add: read_plp_def rd_simps)

lemma read_plp_null: "read_plp K (le_bytes 8 PLP_NULL @ c) = Inr (None, c)"
  by (simp add: read_plp_def rd_simps del: PLP_NULL_def) 

end

subsection \<open>Bytes come back\<close>

text \<open>A value under the null marks: what the length of a short value and of a chunked one can say.\<close>

definition bytes_fit :: "16 word \<Rightarrow> byte list option \<Rightarrow> bool" where
  "bytes_fit m v = (case v of
       None \<Rightarrow> True
     | Some bs \<Rightarrow> length bs < (if m = MAX_LENGTH then 2 ^ 64 - 1 else 2 ^ 16 - 1))"

context cursor
begin

lemma bytes_round:
  assumes "bytes_fit m v"
  shows "read_bytes K m (write_bytes [] m v @ c) = Inr (v, c)"
proof (cases "m = MAX_LENGTH")
  case True
  show ?thesis
  proof (cases v)
    case None
    with True show ?thesis using read_plp_null by (simp add: read_bytes_def write_bytes_def write_plp_def)
  next
    case (Some bs)
    then have "length bs < 2 ^ 64 - 1" using assms True by (simp add: bytes_fit_def)
    then have "unat (of_nat (length bs) :: 64 word) \<noteq> unat PLP_NULL"
      by (simp add: unat_of_nat)
    then have "of_nat (length bs) \<noteq> PLP_NULL" by metis
    with read_plp_chunks [OF chunks_chunk_ok [of bs] this, of c] True Some show ?thesis
      by (simp add: read_bytes_def write_bytes_def write_plp_chunks)
  qed
next
  case False
  show ?thesis
  proof (cases v)
    case None
    with False show ?thesis by (simp add: read_bytes_def write_bytes_def rd_simps)
  next
    case (Some bs)
    then have len: "length bs < 65535" using assms False by (simp add: bytes_fit_def)
    then have "unat (of_nat (length bs) :: 16 word) = length bs" by (simp add: unat_of_nat)
    moreover from this len have "of_nat (length bs) \<noteq> MAX_LENGTH" by auto
    ultimately show ?thesis
      using False Some len by (simp add: read_bytes_def write_bytes_def rd_simps fits_or_def)
  qed
qed

end

lemma write_bytes_appends: "write_bytes out m v = out @ write_bytes [] m v"
  by (cases v) (simp_all add: write_bytes_def write_plp_def Let_def foldl_appends)

sublocale cursor \<subseteq> var_bytes: wire_format
  "\<lambda>out. write_bytes out m" "read_bytes K m" "bytes_fit m" for m
  by unfold_locales (fact write_bytes_appends, rule bytes_round)

subsection \<open>Values come back\<close>

definition value_int :: "str option \<Rightarrow> int" where
  "value_int v = (case v of None \<Rightarrow> 0 | Some s \<Rightarrow> sint (integer s))"

definition binary_of :: "'z externals_scheme \<Rightarrow> str \<Rightarrow> byte list" where
  "binary_of K s = (case bytes_of K s of Some bs \<Rightarrow> bs | None \<Rightarrow> as_bytes s)"

text \<open>The text a cell comes back as for the text it was written from.\<close>

definition shown :: "'z externals_scheme \<Rightarrow> column_type \<Rightarrow> str option \<Rightarrow> str option" where
  "shown K kind v = (case kind of
       IntN w \<Rightarrow> map_option (\<lambda>s. dec_int (signed_take_bit (8 * unat w - 1) (sint (integer s)))) v
     | IntT \<Rightarrow> Some (dec_int (if - (2 ^ 31) \<le> value_int v \<and> value_int v < 2 ^ 31
                           then value_int v else 0))
     | BigInt \<Rightarrow> Some (dec_int (value_int v))
     | Bit \<Rightarrow> Some (if truthy v then lit ''1'' else lit ''0'')
     | BitN \<Rightarrow> map_option (\<lambda>_. if truthy v then lit ''1'' else lit ''0'') v
     | NVarChar _ \<Rightarrow> v
     | VarChar _ \<Rightarrow> v
     | VarBinary _ \<Rightarrow> map_option (\<lambda>s. quote_bytes K (binary_of K s)) v)"

definition value_fits :: "'z externals_scheme \<Rightarrow> column_type \<Rightarrow> str option \<Rightarrow> bool" where
  "value_fits K kind v = (case kind of
       IntN w \<Rightarrow> v = None \<or> w \<in> {1, 2, 4, 8}
     | NVarChar m \<Rightarrow> pred_option is_str v \<and> bytes_fit m (map_option (utf16_encode K) v)
     | VarChar m \<Rightarrow> pred_option is_str v \<and> bytes_fit m (map_option as_bytes v)
     | VarBinary m \<Rightarrow> bytes_fit m (map_option (binary_of K) v)
     | _ \<Rightarrow> True)"

lemma write_value_appends: "write_value K out kind v = out @ write_value K [] kind v"
proof -
  have wb: "write_bytes out m u = out @ write_bytes [] m u" for m u
    by (rule write_bytes_appends)
  show ?thesis
    by (cases kind; cases v) (simp_all add: write_value_def Let_def wb)
qed

context codec
begin

lemma intN_round:
  assumes "w \<in> {1, 2, 4, 8}"
  shows "read_value K (IntN w) (w # take (min (unat w) 8) (le_bytes 8 (i :: 64 word)) @ c) =
    Inr (Some (dec_int (signed_take_bit (8 * unat w - 1) (sint i))), c)"
proof -
  define bs where "bs = take (min (unat w) 8) (le_bytes 8 i)"
  have bs: "bs = le_bytes (unat w) i" "length bs = unat w"
    using assms by (auto simp: bs_def take_le_bytes)
  have "cur_take K (unat w) (bs @ c) = Inr (bs, c)"
    by (rule take_append) (simp add: bs)
  moreover have "signed_take_bit 63 (sint i) = sint i"
    by (rule bit_eqI) (simp add: bit_simps min_def)
  ultimately show ?thesis
    using assms bs(1) unfolding bs_def [symmetric]
    by (auto simp: read_value_def rd_simps of_le_le_bytes_ucast sint_narrow take_bit_word_eq_self
        signed_take_bit_int_eq_self sint_ge sint_less)
qed

lemma value_round:
  assumes "value_fits K kind v"
  shows "read_value K kind (write_value K [] kind v @ c) = Inr (shown K kind v, c)"
proof (cases kind)
  case (IntN w)
  then show ?thesis
    using assms intN_round [of w _ c] take_append [of "[]" 0 c]
    by (cases v) (auto simp: write_value_def shown_def value_fits_def read_value_def rd_simps)
next
  case IntT
  define i where "i = value_int v"
  have "write_value K [] IntT v =
      le_bytes 4 (if - (2 ^ 31) \<le> i \<and> i < 2 ^ 31 then of_int i else 0 :: 32 word)"
    by (cases v) (simp_all add: write_value_def i_def value_int_def Let_def of_int_sint)
  moreover have "sint (of_int i :: 32 word) = i" if "- (2 ^ 31) \<le> i" "i < 2 ^ 31"
    using that by (simp add: signed_of_int signed_take_bit_int_eq_self)
  ultimately show ?thesis
    using IntT by (simp add: shown_def read_value_def rd_simps i_def [symmetric])
next
  case BigInt
  have "cur_take K 8 (le_bytes 8 i @ c) = Inr (le_bytes 8 i, c)" for i :: "64 word"
    by (rule take_append) simp
  with BigInt show ?thesis
    by (cases v) (simp_all add: write_value_def shown_def read_value_def rd_simps value_int_def)
next
  case (NVarChar m)
  with assms bytes_round [of m "map_option (utf16_encode K) v" c] show ?thesis
    by (cases v) (simp_all add: write_value_def shown_def value_fits_def read_value_def rd_simps
        decoded_def utf16_round)
next
  case (VarChar m)
  with assms bytes_round [of m "map_option as_bytes v" c] show ?thesis
    by (cases v) (simp_all add: write_value_def shown_def value_fits_def read_value_def rd_simps
        decoded_def utf8_round)
next
  case (VarBinary m)
  with assms bytes_round [of m "map_option (binary_of K) v" c] show ?thesis
    by (cases v) (simp_all add: write_value_def shown_def value_fits_def read_value_def rd_simps
        binary_of_def)
qed (simp_all add: write_value_def shown_def read_value_def rd_simps split: option.split)

end

sublocale codec \<subseteq> cell: wire_format
  "\<lambda>out. write_value K out kind" "read_value K kind"
  "\<lambda>v. value_fits K kind v \<and> shown K kind v = v" for kind
  by unfold_locales (fact write_value_appends, simp add: value_round)

lemma integer_dec_int:
  "- (2 ^ 63) \<le> i \<Longrightarrow> i < 2 ^ 63 \<Longrightarrow> sint (integer (dec_int i)) = i"
  by (simp add: integer_def parse_i64_dec_int signed_of_int signed_take_bit_int_eq_self)

lemma write_short_bytes:
  assumes "m \<noteq> MAX_LENGTH" and "length bs \<noteq> 65535"
  shows "write_bytes [] m (Some bs) = le_bytes 2 (of_nat (min 65534 (length bs)) :: 16 word) @ take 65534 bs"
proof (cases "length bs < 65536")
  case True
  then show ?thesis using assms by (simp add: write_bytes_def fits_or_def unat_of_nat)
qed (use assms(1) in \<open>simp add: write_bytes_def fits_or_def\<close>)

context cursor
begin

lemma read_short_bytes:
  assumes "m \<noteq> MAX_LENGTH"
  shows "read_bytes K m (write_bytes [] m (Some bs) @ c) =
    (if length bs = 65535 then Inr (None, bs @ c) else Inr (Some (take 65534 bs), c))"
proof (cases "length bs = 65535")
  case True
  then show ?thesis using assms by (simp add: write_bytes_def read_bytes_def fits_or_def rd_simps)
next
  case False
  define n where "n = (of_nat (min 65534 (length bs)) :: 16 word)"
  have n: "unat n = length (take 65534 bs)" by (simp add: n_def unat_of_nat)
  then have "n \<noteq> MAX_LENGTH" by auto
  with n False show ?thesis
    using assms write_short_bytes [OF assms False] by (simp add: read_bytes_def rd_simps take_append flip: n_def)
qed

end

subsection \<open>Properties\<close>

text \<open>C30: A type is read exactly when its metadata is at hand and whole: its byte, the width or
  length it declares, and for text the five bytes of the collation, which may be any. Nothing
  after it is taken, and every type this crate writes is of that grammar.\<close>

theorem read_type_info_iff:
  assumes "cursor K"
  shows "(read_type_info K c = Inr (kind, c') \<longleftrightarrow> (\<exists>bs. type_info kind bs \<and> c = bs @ c'))
    \<and> type_info kind (write_type_info [] kind)"
  using cursor.type_info_exact [OF assms] write_type_info_grammar [of "[]" kind] by auto

theorem read_type_info_iff_witness:
  "read_type_info reference [0xE7, 80, 0, 9, 4, 0xD0, 0, 0x34, 7] = Inr (NVarChar 80, [7])"
  by (rule read_type_info_iff [OF reference_laws(1), THEN conjunct1, THEN iffD2])
    (auto simp: type_info_simps le_bytes_expand
      intro!: exI [of _ "[0xE7, 80, 0, 9, 4, 0xD0, 0, 0x34]"] exI [of _ "[9, 4, 0xD0, 0, 0x34]"])

text \<open>C23: A value written as a cell of any type is read back as the text the type makes of it,
  null where the type has one, and the bytes after the cell are left.\<close>

theorem value_round_trip:
  assumes "codec K" and "value_fits K kind v"
  shows "read_value K kind (write_value K [] kind v @ c) = Inr (shown K kind v, c)"
  using assms by (rule codec.value_round)

theorem value_round_trip_witness:
  "read_value reference IntT (write_value reference [] IntT (Some (lit '' 41 '')) @ [9]) =
     Inr (shown reference IntT (Some (lit '' 41 '')), [9])"
  by (rule value_round_trip) (simp_all add: reference_laws value_fits_def)

text \<open>An integer that fits its column's width comes back digit for digit, at every width
  and at both ends of its range.\<close>

lemma integer_kept:
  assumes "codec K" and "w \<in> {1, 2, 4, 8}"
    and "- (2 ^ (8 * unat w - 1)) \<le> i" and "i < 2 ^ (8 * unat w - 1)"
  shows "read_value K (IntN w) (write_value K [] (IntN w) (Some (dec_int i)) @ c) =
    Inr (Some (dec_int i), c)"
proof -
  have "- (2 ^ 63) \<le> i" "i < 2 ^ 63" using assms(2-4) by auto
  then have "sint (integer (dec_int i)) = i" by (rule integer_dec_int)
  moreover have "signed_take_bit (8 * unat w - 1) i = i"
    using assms(3,4) by (rule signed_take_bit_int_eq_self)
  ultimately have "shown K (IntN w) (Some (dec_int i)) = Some (dec_int i)"
    by (simp add: shown_def)
  with codec.value_round [OF assms(1), of "IntN w" "Some (dec_int i)" c] assms(2)
  show ?thesis by (simp add: value_fits_def)
qed

text \<open>C25: A partially length-prefixed value is the bytes of its chunks, however the sender cut
  them, when the total says their length or says it was not known; any other total is
  refused.\<close>

theorem read_plp_any_chunking:
  assumes "cursor K" and "list_all chunk_ok cs" and "n \<noteq> PLP_NULL"
  shows "read_plp K (le_bytes 8 n @ plp_chunks cs @ c) =
    (if n = PLP_UNKNOWN \<or> n = of_nat (length (concat cs)) then Inr (Some (concat cs), c)
     else Inl (Protocol (lit ''chunks that do not add up to their total'')))"
  using assms by (rule cursor.read_plp_chunks)

theorem read_plp_any_chunking_witness:
  "read_plp reference (le_bytes 8 (5 :: 64 word) @ plp_chunks [[97, 98], [99]] @ [1]) =
     Inl (Protocol (lit ''chunks that do not add up to their total''))"
  by (subst read_plp_any_chunking) (simp_all add: reference_laws chunk_ok_def)

text \<open>C39: An integer of one byte is read as signed, so every value of a TINYINT from 128 up,
  which SQL Server counts from 0 to 255, comes out as a negative number.\<close>

theorem tinyint_read_signed:
  assumes "cursor K" and "128 \<le> n" and "n < 256"
  shows "read_value K (IntN w) (1 # of_nat n # c) = Inr (Some (dec_int (int n - 256)), c)"
proof -
  have "(int n + 128) mod 256 = int n - 128" 
    using mod_add_self2 [of "int n - 128" 256] assms(2,3) by (simp add: add.commute)
  then have "sint (of_nat n :: byte) = int n - 256"
    by (simp add: signed_of_nat signed_take_bit_eq_take_bit_shift take_bit_eq_mod)
  then show ?thesis
    by (simp add: read_value_def rd_simps cursor.byte_Cons [OF assms(1)]
        cursor.take_append [OF assms(1), of "[_]" 1, simplified])
qed

theorem tinyint_read_signed_witness:
  "read_value reference (IntN 1) (1 # of_nat 200 # [9]) = Inr (Some (dec_int (int 200 - 256)), [9])"
  by (rule tinyint_read_signed) (simp_all add: reference_laws)

text \<open>C37: A value of exactly 65535 bytes in a VARCHAR or VARBINARY column that is not \<open>(MAX)\<close> is
  written behind the length that means null, so it reads back as null and its bytes are left on
  the stream for whatever is read next. No other value of such a column does, nor any of an
  NVARCHAR column: of what is longer the first 65534 bytes are written, and what is read
  is a value or an error.\<close>

theorem short_value_taken_for_null:
  assumes "codec K" and "m \<noteq> MAX_LENGTH"
    and "(kind, bytes) \<in> {(VarChar m, as_bytes s), (VarBinary m, binary_of K s), (NVarChar m, utf16_encode K s)}"
  shows "(if length bytes = 65535
      then read_value K kind (write_value K [] kind (Some s) @ c) = Inr (None, bytes @ c)
      else write_value K [] kind (Some s) = le_bytes 2 (of_nat (min 65534 (length bytes)) :: 16 word) @ take 65534 bytes \<and>
        (\<forall>c'. read_value K kind (write_value K [] kind (Some s) @ c) \<noteq> Inr (None, c'))) \<and>
    (kind = NVarChar m \<longrightarrow> length bytes \<noteq> 65535)"
proof -
  note cursor = codec.axioms(1) [OF assms(1)]
  note read = cursor.read_short_bytes [OF cursor assms(2)]
  have even: "length (utf16_encode K s) \<noteq> 65535"
    using text_forms.utf16_length [OF codec.axioms(3) [OF assms(1)], of s] by presburger
  have written: "write_value K [] kind (Some s) = write_bytes [] m (Some bytes)"
    using assms(3) by (auto simp: write_value_def binary_of_def)
  have "read_value K kind (write_bytes [] m (Some bytes) @ c) = Inr (None, bytes @ c)"
    if "length bytes = 65535"
    using assms(3) read [of bytes c] that
    by (auto simp: read_value_def rd_bind_apply decoded_def rd_lift_def rd_return_def)
  moreover have "read_value K kind (write_bytes [] m (Some bytes) @ c) \<noteq> Inr (None, c')"
    if "length bytes \<noteq> 65535" for c'
    using assms(3) read [of bytes c] that
    by (auto simp: read_value_def rd_bind_apply decoded_def rd_lift_def rd_return_def and_then_eq_Inr)
  ultimately show ?thesis
    using even assms(3) write_short_bytes [OF assms(2), of bytes] by (auto simp: written)
qed

theorem short_value_taken_for_null_witness:
  "read_value reference (VarChar 8000)
     (write_value reference [] (VarChar 8000) (Some (replicate 65535 120)) @ [0xFD]) =
   Inr (None, as_bytes (replicate 65535 120) @ [0xFD]) \<and>
   read_value reference (VarBinary 8000)
     (write_value reference [] (VarBinary 8000) (Some (quote_bytes reference (replicate 65535 7))) @ [0xFD]) =
   Inr (None, replicate 65535 7 @ [0xFD])"
proof -
  have text_bytes: "length (as_bytes (replicate 65535 120)) = 65535"
    by (simp add: as_bytes_def utf8_char_def map_replicate)
  have binary: "binary_of reference (quote_bytes reference (replicate 65535 7)) = replicate 65535 7"
    by (simp add: binary_of_def binary_literal.bytes_of_quote reference_laws)
  show ?thesis
    using short_value_taken_for_null [OF reference_laws(4), of 8000 "VarChar 8000"
        "as_bytes (replicate 65535 120)" "replicate 65535 120" "[0xFD]"]
      short_value_taken_for_null [OF reference_laws(4), of 8000 "VarBinary 8000"
        "replicate 65535 7" "quote_bytes reference (replicate 65535 7)" "[0xFD]"]
    by (simp add: text_bytes binary)
qed

end
