(* ===== verification/Token.thy ===== *)
theory Token
  imports Column
begin

text \<open>
  \<^verbatim>\<open>src/token.rs\<close>: the token stream a server answers with. A writer folds tokens into one
  payload, a row written by the metadata before it; a reader takes one token at a time and
  keeps the columns the last metadata declared. \<open>each_token\<close> is the loop every user of the
  stream runs, and what it does on a written payload is a fold over the tokens.
\<close>

definition ENVCHANGE :: byte where [simp]: "ENVCHANGE = 0xE3"
definition ERROR :: byte where [simp]: "ERROR = 0xAA"
definition INFO :: byte where [simp]: "INFO = 0xAB"
definition LOGINACK :: byte where [simp]: "LOGINACK = 0xAD"
definition COLMETADATA :: byte where [simp]: "COLMETADATA = 0x81"
definition ROW :: byte where [simp]: "ROW = 0xD1"
definition NBCROW :: byte where [simp]: "NBCROW = 0xD2"
definition DONE :: byte where [simp]: "DONE = 0xFD"
definition DONEPROC :: byte where [simp]: "DONEPROC = 0xFE"
definition DONEINPROC :: byte where [simp]: "DONEINPROC = 0xFF"
definition RETURNSTATUS :: byte where [simp]: "RETURNSTATUS = 0x79"
definition ORDER :: byte where [simp]: "ORDER = 0xA9"
definition DONE_ERROR :: "16 word" where [simp]: "DONE_ERROR = 0x0002"
definition DONE_COUNT :: "16 word" where [simp]: "DONE_COUNT = 0x0010"
definition NO_COLUMNS :: "16 word" where [simp]: "NO_COLUMNS = 0xFFFF"
definition ENV_DATABASE :: byte where [simp]: "ENV_DATABASE = 1"
definition ENV_PACKET_SIZE :: byte where [simp]: "ENV_PACKET_SIZE = 4"

record sql_message =
  msg_number :: "32 word"
  msg_state :: byte
  msg_class :: byte
  msg_text :: str
  msg_server :: str
  msg_procedure :: str
  msg_line :: "32 word"

definition new_message :: "32 word \<Rightarrow> byte \<Rightarrow> str \<Rightarrow> sql_message" where
  "new_message n severity s = \<lparr>
     msg_number = n, msg_state = 1, msg_class = severity, msg_text = s,
     msg_server = [], msg_procedure = [], msg_line = 1\<rparr>"

datatype token =
    EnvChange byte str str
  | Info sql_message
  | Error sql_message
  | LoginAck "32 word" str
  | ColMetadata "column list"
  | Row "str option list"
  | Done "16 word" "64 word"
  | DoneProc "16 word" "64 word"
  | DoneInProc "16 word" "64 word"
  | ReturnStatus "32 word"
  | Order "16 word list"

subsection \<open>Writing\<close>

definition push_with_length ::
    "'z externals_scheme \<Rightarrow> byte list \<Rightarrow> byte \<Rightarrow> byte list \<Rightarrow> byte list" where
  "push_with_length K out token body =
     put_bytes K (put_u16_le K (put_byte K out token) (fits_or (- 1) (length body))) body"

definition push_done ::
    "'z externals_scheme \<Rightarrow> byte list \<Rightarrow> byte \<Rightarrow> 16 word \<Rightarrow> 64 word \<Rightarrow> byte list" where
  "push_done K out token status rows =
     put_u64_le K (put_u16_le K (put_u16_le K (put_byte K out token) status) 0) rows"

definition message_body :: "'z externals_scheme \<Rightarrow> sql_message \<Rightarrow> byte list" where
  "message_body K m =
     (let body = put_i32_le K [] (msg_number m);
          body = put_byte K body (msg_state m);
          body = put_byte K body (msg_class m);
          body = write_us_varchar K body (msg_text m);
          body = write_b_varchar K body (msg_server m);
          body = write_b_varchar K body (msg_procedure m)
      in put_u32_le K body (msg_line m))"

definition push_column :: "'z externals_scheme \<Rightarrow> byte list \<Rightarrow> column \<Rightarrow> byte list" where
  "push_column K out column =
     (let out = put_u32_le K out 0;
          out = put_u16_le K out 1;
          out = write_type_info out (col_kind column)
      in write_b_varchar K out (col_name column))"

definition encode_token ::
    "'z externals_scheme \<Rightarrow> byte list \<times> column list \<Rightarrow> token \<Rightarrow> byte list \<times> column list" where
  "encode_token K = (\<lambda>(out, columns) token. case token of
       EnvChange kind new old \<Rightarrow>
         (let body = write_b_varchar K (write_b_varchar K [kind] new) old
          in (push_with_length K out ENVCHANGE body, columns))
     | Info m \<Rightarrow> (push_with_length K out INFO (message_body K m), columns)
     | Error m \<Rightarrow> (push_with_length K out ERROR (message_body K m), columns)
     | LoginAck version program \<Rightarrow>
         (let body = put_bytes K (write_b_varchar K (put_u32_be K [1] version) program) [16, 0, 0, 0]
          in (push_with_length K out LOGINACK body, columns))
     | ColMetadata declared \<Rightarrow>
         (let out = put_byte K out COLMETADATA;
              out = (if declared = [] then put_u16_le K out NO_COLUMNS
                     else foldl (push_column K)
                       (put_u16_le K out (fits_or (- 1 - 1) (length declared))) declared)
          in (out, declared))
     | Row values \<Rightarrow>
         (foldl (\<lambda>out (column, value). write_value K out (col_kind column) value)
            (put_byte K out ROW) (zip columns values), columns)
     | Done status rows \<Rightarrow> (push_done K out DONE status rows, columns)
     | DoneProc status rows \<Rightarrow> (push_done K out DONEPROC status rows, columns)
     | DoneInProc status rows \<Rightarrow> (push_done K out DONEINPROC status rows, columns)
     | ReturnStatus status \<Rightarrow> (put_i32_le K (put_byte K out RETURNSTATUS) status, columns)
     | Order numbers \<Rightarrow>
         (push_with_length K out ORDER (concat (map (le_bytes 2) numbers)), columns))"

definition encode_tokens :: "'z externals_scheme \<Rightarrow> token list \<Rightarrow> byte list" where
  "encode_tokens K tokens = fst (foldl (encode_token K) ([], []) tokens)"

subsection \<open>Reading\<close>

text \<open>A reader run on a message of its own.\<close>

definition rd_run :: "'a rd \<Rightarrow> byte list \<Rightarrow> terror + 'a" where
  "rd_run p c = and_then (p c) (\<lambda>(x, _). Inr x)"

definition read_sql_message :: "'z externals_scheme \<Rightarrow> byte list \<Rightarrow> terror + sql_message" where
  "read_sql_message K =
     rd_run (
       rd_bind (cur_i32_le K) (\<lambda>n.
       rd_bind (cur_byte K) (\<lambda>st.
       rd_bind (cur_byte K) (\<lambda>cl.
       rd_bind (read_us_varchar K) (\<lambda>tx.
       rd_bind (read_b_varchar K) (\<lambda>sv.
       rd_bind (read_b_varchar K) (\<lambda>pr.
       rd_bind (cur_u32_le K) (\<lambda>ln.
         rd_return \<lparr>msg_number = n, msg_state = st, msg_class = cl, msg_text = tx,
           msg_server = sv, msg_procedure = pr, msg_line = ln\<rparr>))))))))"

text \<open>\<open>body\<close>: a cursor over the body of a token that carries its length.\<close>

definition token_body :: "'z externals_scheme \<Rightarrow> byte list rd" where
  "token_body K = rd_bind (cur_u16_le K) (\<lambda>len. cur_take K (unat len))"

definition read_env_change :: "'z externals_scheme \<Rightarrow> token rd" where
  "read_env_change K =
     rd_bind (cur_byte K) (\<lambda>kind.
       if 1 \<le> kind \<and> kind \<le> 6 then
         rd_bind (read_b_varchar K) (\<lambda>new.
         rd_bind (read_b_varchar K) (\<lambda>old. rd_return (EnvChange kind new old)))
       else rd_return (EnvChange kind [] []))"

definition read_login_ack :: "'z externals_scheme \<Rightarrow> token rd" where
  "read_login_ack K =
     rd_bind (cur_skip K 1) (\<lambda>_.
     rd_bind (cur_u32_be K) (\<lambda>version.
     rd_bind (read_b_varchar K) (\<lambda>program. rd_return (LoginAck version program))))"

definition read_column :: "'z externals_scheme \<Rightarrow> column rd" where
  "read_column K =
     rd_bind (cur_skip K 6) (\<lambda>_.
     rd_bind (read_type_info K) (\<lambda>kind.
     rd_bind (read_b_varchar K) (\<lambda>name. rd_return (new_column name kind))))"

definition order_round ::
    "'z externals_scheme \<Rightarrow> 16 word list \<Rightarrow> (16 word list + 16 word list) rd" where
  "order_round K numbers = (\<lambda>c.
     if c = [] then leave numbers c
     else rd_bind (cur_u16_le K) (\<lambda>n. go_on (numbers @ [n])) c)"

text \<open>
  \<open>next_token\<close> past the test for the end: the token, and the columns as it leaves them.
\<close>

definition read_token :: "'z externals_scheme \<Rightarrow> column list \<Rightarrow> (token \<times> column list) rd" where
  "read_token K columns =
     rd_bind (cur_byte K) (\<lambda>token.
       if token = ENVCHANGE then
         rd_bind (token_body K) (\<lambda>inner.
         rd_bind (rd_lift (rd_run (read_env_change K) inner)) (\<lambda>t. rd_return (t, columns)))
       else if token = INFO then
         rd_bind (token_body K) (\<lambda>inner.
         rd_bind (rd_lift (read_sql_message K inner)) (\<lambda>m. rd_return (Info m, columns)))
       else if token = ERROR then
         rd_bind (token_body K) (\<lambda>inner.
         rd_bind (rd_lift (read_sql_message K inner)) (\<lambda>m. rd_return (Error m, columns)))
       else if token = LOGINACK then
         rd_bind (token_body K) (\<lambda>inner.
         rd_bind (rd_lift (rd_run (read_login_ack K) inner)) (\<lambda>t. rd_return (t, columns)))
       else if token = COLMETADATA then
         rd_bind (cur_u16_le K) (\<lambda>count.
         rd_bind (if count \<noteq> NO_COLUMNS then rd_map (\<lambda>_. read_column K) [0..<unat count]
                  else rd_return [])
           (\<lambda>columns. rd_return (ColMetadata columns, columns)))
       else if token = ROW then
         rd_bind (rd_map (\<lambda>column. read_value K (col_kind column)) columns)
           (\<lambda>values. rd_return (Row values, columns))
       else if token = NBCROW then
         rd_bind (cur_take K ((length columns + 7) div 8)) (\<lambda>bitmap.
         rd_bind (rd_map (\<lambda>(index, column).
             if (bitmap ! (index div 8)) AND push_bit (index mod 8) 1 \<noteq> 0 then rd_return None
             else read_value K (col_kind column)) (enumerate 0 columns))
           (\<lambda>values. rd_return (Row values, columns)))
       else if token = DONE \<or> token = DONEPROC \<or> token = DONEINPROC then
         rd_bind (cur_u16_le K) (\<lambda>status.
         rd_bind (cur_skip K 2) (\<lambda>_.
         rd_bind (cur_u64_le K) (\<lambda>rows.
           rd_return
             (if token = DONE then Done status rows
              else if token = DONEPROC then DoneProc status rows
              else DoneInProc status rows, columns))))
       else if token = RETURNSTATUS then
         rd_bind (cur_i32_le K) (\<lambda>status. rd_return (ReturnStatus status, columns))
       else if token = ORDER then
         rd_bind (token_body K) (\<lambda>inner.
         rd_bind (rd_lift (rd_run (rd_loop (order_round K) []) inner))
           (\<lambda>numbers. rd_return (Order numbers, columns)))
       else
         rd_fail (Protocol (lit ''token '' @ hex04 token @ lit '' is not one this crate reads'')))"

record token_stream =
  ts_cursor :: "byte list"
  ts_columns :: "column list"

definition new_stream :: "byte list \<Rightarrow> token_stream" where
  "new_stream body = \<lparr>ts_cursor = body, ts_columns = []\<rparr>"

definition next_token ::
    "'z externals_scheme \<Rightarrow> token_stream \<Rightarrow> terror + token option \<times> token_stream" where
  "next_token K s =
     (if ts_cursor s = [] then Inr (None, s)
      else and_then (read_token K (ts_columns s) (ts_cursor s)) (\<lambda>((token, columns), c).
        Inr (Some token, \<lparr>ts_cursor = c, ts_columns = columns\<rparr>)))"

definition stream_columns :: "token_stream \<Rightarrow> column list" where
  "stream_columns s = ts_columns s"

text \<open>
  \<open>while let Some(token) = tokens.next_token()? { .. }\<close>, what a round does with its token as
  \<open>f\<close>, over the loop's variables.
\<close>

definition stream_round ::
    "'z externals_scheme \<Rightarrow> (token \<Rightarrow> 's \<Rightarrow> terror + 's) \<Rightarrow> column list \<times> 's
       \<Rightarrow> ((column list \<times> 's) + 's) rd" where
  "stream_round K f = (\<lambda>(columns, s) c.
     and_then (next_token K \<lparr>ts_cursor = c, ts_columns = columns\<rparr>) (\<lambda>(t, stream).
       case t of
         None \<Rightarrow> leave s (ts_cursor stream)
       | Some t \<Rightarrow> and_then (f t s) (\<lambda>s'. go_on (ts_columns stream, s') (ts_cursor stream))))"

definition each_token ::
    "'z externals_scheme \<Rightarrow> (token \<Rightarrow> 's \<Rightarrow> terror + 's) \<Rightarrow> 's \<Rightarrow> byte list \<Rightarrow> terror + 's" where
  "each_token K f s body = rd_run (rd_loop (stream_round K f) ([], s)) body"

subsection \<open>Every token takes bytes\<close>

lemma rd_run_Inr: "p c = Inr (x, c') \<Longrightarrow> rd_run p c = Inr x"
  by (simp add: rd_run_def)

lemma rd_run_Inl: "p c = Inl e \<Longrightarrow> rd_run p c = Inl e"
  by (simp add: rd_run_def)

context codec
begin

lemma shrinks_read_column [progress_intros]: "shrinks (read_column K)"
  unfolding read_column_def by (intro progress_intros)

lemma shrinks_token_body [progress_intros]: "shrinks (token_body K)"
  unfolding token_body_def by (intro progress_intros)

lemma shrinks_null_bitmap_cell [progress_intros]:
  "shrinks (case ic of (index, column) \<Rightarrow>
     if (bm ! (index div 8)) AND push_bit (index mod 8) 1 \<noteq> 0 then rd_return None
     else read_value K (col_kind column))"
  by (cases ic) (simp, intro conjI impI progress_intros)

lemma consumes_read_token: "consumes (read_token K columns)"
  unfolding read_token_def by (intro progress_intros)

lemma next_token_consumes:
  "next_token K s = Inr (Some t, s') \<Longrightarrow> length (ts_cursor s') < length (ts_cursor s)"
  using consumesD [OF consumes_read_token]
  by (auto simp: next_token_def and_then_eq_Inr split: if_splits)

end

sublocale cursor \<subseteq> order_loop: progressing "order_round K"
proof
  fix s c s' c'
  assume "order_round K s c = Inr (Inl s', c')"
  then show "length c' < length c"
    using consumesD [of "cur_u16_le K"]
    by (auto simp: order_round_def rd_bind_eq_Inr go_on_def leave_def rd_return_def split: if_splits)
qed

sublocale codec \<subseteq> stream: progressing "stream_round K f" for f
proof
  fix s c s' c'
  assume "stream_round K f s c = Inr (Inl s', c')"
  then show "length c' < length c"
    using next_token_consumes [of "\<lparr>ts_cursor = c, ts_columns = fst s\<rparr>"]
    by (cases s) (auto simp: stream_round_def and_then_eq_Inr leave_def go_on_def rd_return_def
        split: option.splits)
qed

subsection \<open>What a written token is\<close>

definition token_bytes :: "'z externals_scheme \<Rightarrow> column list \<Rightarrow> token \<Rightarrow> byte list" where
  "token_bytes K columns t = fst (encode_token K ([], columns) t)"

definition columns_after :: "column list \<Rightarrow> token \<Rightarrow> column list" where
  "columns_after columns t = (case t of ColMetadata declared \<Rightarrow> declared | _ \<Rightarrow> columns)"

fun tokens_bytes :: "'z externals_scheme \<Rightarrow> column list \<Rightarrow> token list \<Rightarrow> byte list" where
  "tokens_bytes K columns [] = []"
| "tokens_bytes K columns (t # ts) =
     token_bytes K columns t @ tokens_bytes K (columns_after columns t) ts"

definition column_bytes :: "'z externals_scheme \<Rightarrow> column \<Rightarrow> byte list" where
  "column_bytes K column = push_column K [] column"

definition sized :: "byte \<Rightarrow> byte list \<Rightarrow> byte list" where
  "sized token body = token # le_bytes 2 (fits_or (- 1) (length body) :: 16 word) @ body"

context codec
begin

lemma push_with_length_bytes: "push_with_length K out token body = out @ sized token body"
  by (simp add: push_with_length_def sized_def wr_simps)

lemma push_column_bytes:
  "push_column K out column = out @ le_bytes 4 (0 :: 32 word) @ le_bytes 2 (1 :: 16 word)
     @ write_type_info [] (col_kind column) @ write_b_varchar K [] (col_name column)"
  by (cases "col_kind column")
    (simp_all add: push_column_def Let_def wr_simps b_varchar_bytes write_type_info_def)

lemma foldl_columns: "foldl (push_column K) out cs = out @ concat (map (column_bytes K) cs)"
proof -
  have "push_column K = (\<lambda>out c. out @ column_bytes K c)"
    by (intro ext) (simp add: column_bytes_def push_column_bytes)
  then show ?thesis by (simp add: foldl_appends)
qed

lemma message_body_bytes:
  "message_body K m = le_bytes 4 (msg_number m) @ [msg_state m, msg_class m]
     @ write_us_varchar K [] (msg_text m) @ write_b_varchar K [] (msg_server m)
     @ write_b_varchar K [] (msg_procedure m) @ le_bytes 4 (msg_line m)"
  by (simp add: message_body_def Let_def wr_simps b_varchar_bytes us_varchar_bytes)

lemma foldl_cells:
  "foldl (\<lambda>out (column, value). write_value K out (col_kind column) value) out
     (cvs :: (column \<times> str option) list) =
     out @ concat (map (\<lambda>(column, value). write_value K [] (col_kind column) value) cvs)"
proof -
  have "(\<lambda>out (column :: column, value). write_value K out (col_kind column) value) =
      (\<lambda>out cv. out @ (case cv of (column, value) \<Rightarrow> write_value K [] (col_kind column) value))"
    by (intro ext) (auto intro: write_value_appends)
  then show ?thesis by (simp only: foldl_appends)
qed

lemma encode_token_appends:
  "encode_token K (out, columns) t = (out @ token_bytes K columns t, columns_after columns t)"
  by (cases t) (simp_all add: encode_token_def token_bytes_def columns_after_def Let_def wr_simps
      push_with_length_bytes foldl_columns foldl_cells push_done_def)

lemma encode_tokens_bytes: "encode_tokens K ts = tokens_bytes K [] ts"
proof -
  have "foldl (encode_token K) (out, columns) ts =
      (out @ tokens_bytes K columns ts, foldl columns_after columns ts)" for out columns
    by (induction ts arbitrary: out columns) (simp_all add: encode_token_appends)
  then show ?thesis by (simp add: encode_tokens_def)
qed

end

subsection \<open>What a written token reads as\<close>

definition name_fits :: "str \<Rightarrow> bool" where
  "name_fits s \<longleftrightarrow> is_str s \<and> utf16_units s \<le> 255"

definition message_fits :: "sql_message \<Rightarrow> bool" where
  "message_fits m \<longleftrightarrow> is_str (msg_text m) \<and> name_fits (msg_server m) \<and> name_fits (msg_procedure m) \<and>
     14 + 2 * (utf16_units (msg_text m) + utf16_units (msg_server m)
       + utf16_units (msg_procedure m)) < 65536"

definition token_fits :: "'z externals_scheme \<Rightarrow> column list \<Rightarrow> token \<Rightarrow> bool" where
  "token_fits K columns t = (case t of
       EnvChange _ new old \<Rightarrow> name_fits new \<and> name_fits old
     | Info m \<Rightarrow> message_fits m
     | Error m \<Rightarrow> message_fits m
     | LoginAck _ program \<Rightarrow> name_fits program
     | ColMetadata declared \<Rightarrow>
         length declared < 65535 \<and> list_all (\<lambda>c. name_fits (col_name c)) declared
     | Row values \<Rightarrow> list_all2 (\<lambda>c. value_fits K (col_kind c)) columns values
     | Order numbers \<Rightarrow> 2 * length numbers < 65536
     | _ \<Rightarrow> True)"

definition token_shown :: "'z externals_scheme \<Rightarrow> column list \<Rightarrow> token \<Rightarrow> token" where
  "token_shown K columns t = (case t of
       EnvChange kind new old \<Rightarrow> if 1 \<le> kind \<and> kind \<le> 6 then t else EnvChange kind [] []
     | Row values \<Rightarrow> Row (map2 (\<lambda>c. shown K (col_kind c)) columns values)
     | _ \<Rightarrow> t)"

context codec
begin

lemma token_body_sized [rd_simps]:
  assumes "length body < 65536"
  shows "token_body K (le_bytes 2 (fits_or (- 1) (length body) :: 16 word) @ body @ c) = Inr (body, c)"
  using assms by (simp add: token_body_def rd_simps unat_fits_or)

lemma name_round:
  "name_fits s \<Longrightarrow> read_b_varchar K (write_b_varchar K [] s @ c) = Inr (s, c)"
  by (simp add: name_fits_def b_varchar_round)

lemma b_varchar_length: "name_fits s \<Longrightarrow> length (write_b_varchar K [] s) = 1 + 2 * utf16_units s"
  by (simp add: b_varchar_bytes name_fits_def length_counted)

lemma env_change_body:
  "write_b_varchar K (write_b_varchar K [kind] new) old =
     kind # write_b_varchar K [] new @ write_b_varchar K [] old"
  by (simp add: b_varchar_bytes)

lemma login_ack_body:
  "put_bytes K (write_b_varchar K (put_u32_be K [1] version) program) bs =
     [1] @ be_bytes 4 version @ write_b_varchar K [] program @ bs"
  by (simp add: b_varchar_bytes wr_simps)

lemma read_env_change_round:
  assumes "name_fits new" and "name_fits old"
  shows "rd_run (read_env_change K) (kind # write_b_varchar K [] new @ write_b_varchar K [] old) =
    Inr (token_shown K columns (EnvChange kind new old))"
  using assms name_round [of old "[]"]
  by (simp add: rd_run_def read_env_change_def rd_simps name_round token_shown_def)

lemma read_login_ack_round:
  assumes "name_fits program"
  shows "rd_run (read_login_ack K) ([1] @ be_bytes 4 version @ write_b_varchar K [] program @ bs) =
    Inr (LoginAck version program)"
proof -
  have "cur_skip K 1 ([1] @ c) = Inr ((), c)" for c
    by (rule skip_append) simp
  then show ?thesis
    by (simp add: rd_run_def read_login_ack_def rd_simps name_round [OF assms] del: append.simps)
qed

lemma message_body_length:
  "message_fits m \<Longrightarrow> length (message_body K m) < 65536"
  by (simp add: message_fits_def message_body_bytes b_varchar_length us_varchar_bytes length_counted)

lemma read_sql_message_round:
  assumes "message_fits m"
  shows "read_sql_message K (message_body K m) = Inr m"
proof -
  have "read_us_varchar K (write_us_varchar K [] (msg_text m) @ c) = Inr (msg_text m, c)" for c
    using assms by (intro us_varchar_round) (auto simp: message_fits_def)
  moreover have "name_fits (msg_server m)" "name_fits (msg_procedure m)"
    using assms by (simp_all add: message_fits_def)
  moreover have "cur_u32_le K (le_bytes 4 w) = Inr (w, [])" for w
    using words_append(3) [of w "[]"] by simp
  ultimately show ?thesis
    by (simp add: read_sql_message_def message_body_bytes rd_run_def rd_simps name_round)
qed

lemma read_column_round:
  assumes "name_fits (col_name column)"
  shows "read_column K (column_bytes K column @ c) = Inr (column, c)"
proof -
  obtain ti where ti: "write_type_info [] (col_kind column) = ti" "type_info (col_kind column) ti"
    using write_type_info_grammar [of "[]" "col_kind column"] by auto
  have "cur_skip K 6 ((le_bytes 4 (0 :: 32 word) @ le_bytes 2 (1 :: 16 word)) @ x) = Inr ((), x)" for x
    by (rule skip_append) simp
  then show ?thesis
    using type_info_read [OF ti(2)]
    by (simp add: read_column_def column_bytes_def push_column_bytes rd_simps ti(1)
        name_round [OF assms] new_column_def)
qed

lemma read_columns_round:
  assumes "list_all (\<lambda>c. name_fits (col_name c)) cs" and "length ks = length cs"
  shows "rd_map (\<lambda>_. read_column K) ks (concat (map (column_bytes K) cs) @ c) = Inr (cs, c)"
proof -
  have "list_all2 (\<lambda>k (bs, v). \<forall>c. read_column K (bs @ c) = Inr (v, c))
      ks (map (\<lambda>c. (column_bytes K c, c)) cs)"
    using assms(2,1) by (induction ks cs rule: list_induct2) (simp_all add: read_column_round)
  from rd_map_round [OF this] show ?thesis by (simp add: comp_def)
qed

lemma read_row_round:
  assumes "list_all2 (\<lambda>c. value_fits K (col_kind c)) columns vs"
  shows "rd_map (\<lambda>column. read_value K (col_kind column)) columns
      (concat (map (\<lambda>(column, value). write_value K [] (col_kind column) value) (zip columns vs))
       @ c) = Inr (map2 (\<lambda>c. shown K (col_kind c)) columns vs, c)"
  using assms
  by (induction columns vs rule: list_all2_induct) (simp_all add: rd_simps value_round)

lemma read_order_round:
  "rd_loop (order_round K) acc (concat (map (le_bytes 2) ns)) = Inr (acc @ ns, [])"
proof (induction ns arbitrary: acc)
  case Nil
  then show ?case by (intro order_loop.loop_leave) (simp_all add: order_round_def rd_simps)
next
  case (Cons n ns)
  have "order_round K acc (concat (map (le_bytes 2) (n # ns))) =
      Inr (Inl (acc @ [n]), concat (map (le_bytes 2) ns))"
    by (simp add: order_round_def rd_simps)
  then show ?case using Cons by (simp add: order_loop.loop_go_on)
qed

text \<open>A written token, and the reader on each kind of token.\<close>

lemma token_bytes_simps [wr_simps]:
  "token_bytes K columns (EnvChange kind new old) =
     sized ENVCHANGE (kind # write_b_varchar K [] new @ write_b_varchar K [] old)"
  "token_bytes K columns (Info m) = sized INFO (message_body K m)"
  "token_bytes K columns (Error m) = sized ERROR (message_body K m)"
  "token_bytes K columns (LoginAck version program) =
     sized LOGINACK ([1] @ be_bytes 4 version @ write_b_varchar K [] program @ [16, 0, 0, 0])"
  "token_bytes K columns (ColMetadata cs) =
     COLMETADATA # le_bytes 2 (if cs = [] then NO_COLUMNS else fits_or (- 1 - 1) (length cs))
       @ concat (map (column_bytes K) cs)"
  "token_bytes K columns (Row vs) = ROW # concat (map (\<lambda>(column, value).
     write_value K [] (col_kind column) value) (zip columns vs))"
  "token_bytes K columns (Done status rows) =
     DONE # le_bytes 2 status @ le_bytes 2 (0 :: 16 word) @ le_bytes 8 rows"
  "token_bytes K columns (DoneProc status rows) =
     DONEPROC # le_bytes 2 status @ le_bytes 2 (0 :: 16 word) @ le_bytes 8 rows"
  "token_bytes K columns (DoneInProc status rows) =
     DONEINPROC # le_bytes 2 status @ le_bytes 2 (0 :: 16 word) @ le_bytes 8 rows"
  "token_bytes K columns (ReturnStatus i) = RETURNSTATUS # le_bytes 4 i"
  "token_bytes K columns (Order ns) = sized ORDER (concat (map (le_bytes 2) ns))"
  by (simp_all only: token_bytes_def encode_token_def prod.case token.case Let_def fst_conv
      put_laws push_with_length_bytes env_change_body login_ack_body foldl_columns foldl_cells
      push_done_def append_Nil append_Cons append_assoc if_cancel)
    (simp_all add: b_varchar_bytes)

lemma sized_body:
  assumes "length body < 65536"
  shows "rd_bind (token_body K) f (le_bytes 2 (fits_or (- 1) (length body) :: 16 word) @ body @ c) =
    f body c"
  using token_body_sized [OF assms] by (simp add: rd_simps)

lemma read_token_sized:
  assumes "length body < 65536"
  shows
    "read_token K columns (sized ENVCHANGE body @ c) =
       and_then (rd_run (read_env_change K) body) (\<lambda>t. Inr ((t, columns), c))"
    "read_token K columns (sized INFO body @ c) =
       and_then (read_sql_message K body) (\<lambda>m. Inr ((Info m, columns), c))"
    "read_token K columns (sized ERROR body @ c) =
       and_then (read_sql_message K body) (\<lambda>m. Inr ((Error m, columns), c))"
    "read_token K columns (sized LOGINACK body @ c) =
       and_then (rd_run (read_login_ack K) body) (\<lambda>t. Inr ((t, columns), c))"
    "read_token K columns (sized ORDER body @ c) =
       and_then (rd_run (rd_loop (order_round K) []) body) (\<lambda>ns. Inr ((Order ns, columns), c))"
  using assms
  by (simp_all add: read_token_def sized_def rd_bind_apply [of "cur_byte K"] byte_Cons sized_body
      rd_bind_apply [of "rd_lift _"] rd_lift_def rd_return_def)
    (simp_all add: and_then_def rd_bind_def split: sum.split)

lemma read_token_plain:
  "read_token K columns (COLMETADATA # c) =
     rd_bind (cur_u16_le K) (\<lambda>count.
       rd_bind (if count \<noteq> NO_COLUMNS then rd_map (\<lambda>_. read_column K) [0..<unat count]
                else rd_return [])
         (\<lambda>columns. rd_return (ColMetadata columns, columns))) c"
  "read_token K columns (ROW # c) =
     rd_bind (rd_map (\<lambda>column. read_value K (col_kind column)) columns)
       (\<lambda>vs. rd_return (Row vs, columns)) c"
  "read_token K columns (DONE # le_bytes 2 status @ le_bytes 2 (n :: 16 word) @ le_bytes 8 rows @ c) =
     Inr ((Done status rows, columns), c)"
  "read_token K columns (DONEPROC # le_bytes 2 status @ le_bytes 2 (n :: 16 word) @ le_bytes 8 rows @ c) =
     Inr ((DoneProc status rows, columns), c)"
  "read_token K columns (DONEINPROC # le_bytes 2 status @ le_bytes 2 (n :: 16 word) @ le_bytes 8 rows @ c) =
     Inr ((DoneInProc status rows, columns), c)"
  "read_token K columns (RETURNSTATUS # le_bytes 4 i @ c) = Inr ((ReturnStatus i, columns), c)"
  by (simp_all add: read_token_def rd_simps skip_append)

lemma order_body: "length (concat (map (le_bytes 2) (ns :: 16 word list))) = 2 * length ns"
  by (induction ns) simp_all

lemma read_token_round:
  assumes "token_fits K columns t"
  shows "read_token K columns (token_bytes K columns t @ c) =
    Inr ((token_shown K columns t, columns_after columns t), c)"
proof (cases t)
  case (EnvChange kind new old)
  then have "name_fits new" "name_fits old" using assms by (simp_all add: token_fits_def)
  moreover from this
  have "length (kind # write_b_varchar K [] new @ write_b_varchar K [] old) < 65536"
    by (simp add: b_varchar_length) (simp add: name_fits_def)
  ultimately show ?thesis
    by (simp add: EnvChange token_bytes_simps read_token_sized columns_after_def
        read_env_change_round [where columns = columns] del: ENVCHANGE_def)
next
  case (LoginAck version program)
  then have "name_fits program" using assms by (simp add: token_fits_def)
  moreover from this
  have "length ([1] @ be_bytes 4 version @ write_b_varchar K [] program @ [16, 0, 0, 0]) < 65536"
    by (simp add: b_varchar_length) (simp add: name_fits_def)
  ultimately show ?thesis
    by (simp add: LoginAck token_bytes_simps read_token_sized columns_after_def token_shown_def
        read_login_ack_round del: LOGINACK_def append.simps)
next
  case (ColMetadata cs)
  then have cs: "length cs < 65535" "list_all (\<lambda>c. name_fits (col_name c)) cs"
    using assms by (simp_all add: token_fits_def)
  then have "unat (of_nat (length cs) :: 16 word) = length cs" by (simp add: unat_of_nat)
  moreover from this cs have "of_nat (length cs) \<noteq> NO_COLUMNS" by auto
  ultimately show ?thesis
    using cs read_columns_round [of cs "[0..<length cs]" c]
    by (cases "cs = []") (simp_all add: ColMetadata token_bytes_simps read_token_plain rd_simps
        columns_after_def token_shown_def fits_or_def del: COLMETADATA_def)
qed (use assms in \<open>simp_all add: token_fits_def token_bytes_simps read_token_sized read_token_plain
    token_shown_def columns_after_def message_body_length read_sql_message_round rd_simps
    read_row_round order_body rd_run_def read_order_round
    del: INFO_def ERROR_def ROW_def DONE_def DONEPROC_def DONEINPROC_def RETURNSTATUS_def ORDER_def\<close>)

end

subsection \<open>The loop over a written payload\<close>

fun fold_tokens :: "(token \<Rightarrow> 's \<Rightarrow> terror + 's) \<Rightarrow> token list \<Rightarrow> 's \<Rightarrow> terror + 's" where
  "fold_tokens f [] s = Inr s"
| "fold_tokens f (t # ts) s = and_then (f t s) (fold_tokens f ts)"

fun tokens_fit :: "'z externals_scheme \<Rightarrow> column list \<Rightarrow> token list \<Rightarrow> bool" where
  "tokens_fit K columns [] \<longleftrightarrow> True"
| "tokens_fit K columns (t # ts) \<longleftrightarrow>
     token_fits K columns t \<and> tokens_fit K (columns_after columns t) ts"

fun tokens_shown :: "'z externals_scheme \<Rightarrow> column list \<Rightarrow> token list \<Rightarrow> token list" where
  "tokens_shown K columns [] = []"
| "tokens_shown K columns (t # ts) =
     token_shown K columns t # tokens_shown K (columns_after columns t) ts"

lemma fold_tokens_append:
  "fold_tokens f (ts @ us) s = and_then (fold_tokens f ts s) (fold_tokens f us)"
proof (induction ts arbitrary: s)
  case (Cons t ts)
  then show ?case by (cases "f t s") simp_all
qed simp

subsection \<open>The tokens of a stream\<close>

text \<open>The tokens that are read one after the other, \<open>columns\<close> declared, until no byte is left.\<close>

inductive tokens_of :: "'z externals_scheme \<Rightarrow> column list \<Rightarrow> byte list \<Rightarrow> token list \<Rightarrow> bool" for K where
  no_token: "tokens_of K columns [] []"
| a_token: "c \<noteq> [] \<Longrightarrow> read_token K columns c = Inr ((t, columns'), c') \<Longrightarrow>
    tokens_of K columns' c' ts \<Longrightarrow> tokens_of K columns c (t # ts)"

inductive_simps tokens_of_simps:
  "tokens_of K columns [] ts" "tokens_of K columns c []" "tokens_of K columns c (t # ts)"

context codec
begin

lemma token_bytes_not_Nil: "token_bytes K columns t \<noteq> []"
  by (cases t) (simp_all add: token_bytes_simps sized_def)

lemma stream_round_written:
  assumes "token_fits K columns t"
  shows "stream_round K f (columns, s) (token_bytes K columns t @ c) =
    and_then (f (token_shown K columns t) s) (\<lambda>s'. Inr (Inl (columns_after columns t, s'), c))"
  using assms token_bytes_not_Nil
  by (simp add: stream_round_def next_token_def read_token_round go_on_def rd_return_def)

lemma loop_written:
  assumes "tokens_fit K columns ts"
  shows "rd_run (rd_loop (stream_round K f) (columns, s)) (tokens_bytes K columns ts) =
    fold_tokens f (tokens_shown K columns ts) s"
  using assms
proof (induction ts arbitrary: columns s)
  case Nil
  have "stream_round K f (columns, s) [] = Inr (Inr s, [])"
    by (simp add: stream_round_def next_token_def leave_def rd_return_def)
  then show ?case by (simp add: rd_run_def stream.loop_leave)
next
  case (Cons t ts)
  note round = stream_round_written [of columns t f s "tokens_bytes K (columns_after columns t) ts"]
  show ?case
  proof (cases "f (token_shown K columns t) s")
    case (Inl e)
    with round Cons.prems show ?thesis by (simp add: rd_run_def stream.loop_fails)
  next
    case (Inr s')
    with round Cons.prems
    have "rd_loop (stream_round K f) (columns, s) (tokens_bytes K columns (t # ts)) =
        rd_loop (stream_round K f) (columns_after columns t, s')
          (tokens_bytes K (columns_after columns t) ts)"
      by (intro stream.loop_go_on) simp
    with Cons Inr show ?thesis by (simp add: rd_run_def)
  qed
qed

lemma each_token_written:
  "tokens_fit K [] ts \<Longrightarrow> each_token K f s (encode_tokens K ts) = fold_tokens f (tokens_shown K [] ts) s"
  by (simp add: each_token_def encode_tokens_bytes loop_written)

text \<open>The loop folds over just these tokens, whatever the bytes and whatever is made of a token.\<close>

lemma each_token_folds:
  assumes "each_token K f s body = Inr s'"
  shows "\<exists>ts. tokens_of K [] body ts \<and> fold_tokens f ts s = Inr s'"
proof -
  have "rd_loop (stream_round K f) cs c = Inr (r, d) \<Longrightarrow>
      \<exists>ts. tokens_of K (fst cs) c ts \<and> fold_tokens f ts (snd cs) = Inr r" for cs c r d
  proof (induction cs c rule: stream.loop_induct [of f])
    case (round cs c)
    obtain columns s where cs: "cs = (columns, s)" by fastforce
    show ?case
    proof (cases "c = []")
      case True
      then have "stream_round K f cs c = Inr (Inr s, c)"
        by (simp add: cs stream_round_def next_token_def leave_def rd_return_def)
      with round.prems True show ?thesis
        by (auto simp: cs stream.loop_leave intro: tokens_of.no_token)
    next
      case False
      obtain q where "stream_round K f cs c = Inr q"
        using round.prems by (cases "stream_round K f cs c") (simp_all add: stream.loop_fails)
      then obtain t columns' c' s' where t: "read_token K columns c = Inr ((t, columns'), c')" "f t s = Inr s'"
        using False by (auto simp: cs stream_round_def next_token_def and_then_eq_Inr)
      then have "stream_round K f cs c = Inr (Inl (columns', s'), c')"
        using False by (simp add: cs stream_round_def next_token_def go_on_def rd_return_def)
      with round.IH [OF this] round.prems t False show ?thesis
        by (fastforce simp: cs stream.loop_go_on intro: tokens_of.a_token)
    qed
  qed
  from this [of "([], s)" body s'] assms show ?thesis
    by (auto simp: each_token_def rd_run_def and_then_eq_Inr)
qed

lemma tokens_of_unique: "tokens_of K columns c ts \<Longrightarrow> tokens_of K columns c us \<Longrightarrow> us = ts"
proof (induction arbitrary: us rule: tokens_of.induct)
  case no_token
  then show ?case by (simp add: tokens_of_simps)
next
  case (a_token c columns t columns' c' ts)
  obtain us' where "us = t # us'" "tokens_of K columns' c' us'"
    using a_token.prems a_token.hyps(1,2) by (cases us) (auto simp: tokens_of_simps)
  with a_token.IH show ?case by blast
qed

lemma tokens_of_written:
  assumes "tokens_fit K [] ts"
  shows "tokens_of K [] (encode_tokens K ts) (tokens_shown K [] ts)"
proof -
  have collect: "fold_tokens (\<lambda>t us. Inr (us @ [t])) ts us = Inr (us @ ts)" for ts us
    by (induction ts arbitrary: us) simp_all
  have "each_token K (\<lambda>t us. Inr (us @ [t])) [] (encode_tokens K ts) = Inr (tokens_shown K [] ts)"
    by (simp add: each_token_written [OF assms] collect)
  from each_token_folds [OF this] show ?thesis by (auto simp: collect)
qed

text \<open>What holds of the loop's variables through every round holds at its end, on any bytes.\<close>

lemma each_token_invariant:
  assumes "each_token K f s body = Inr s'" and "P s"
    and step: "\<And>t s s'. P s \<Longrightarrow> f t s = Inr s' \<Longrightarrow> P s'"
  shows "P s'"
proof -
  have "fold_tokens f ts s = Inr s' \<Longrightarrow> P s \<Longrightarrow> P s'" for ts s
    by (induction ts arbitrary: s) (auto simp: and_then_eq_Inr dest: step)
  with each_token_folds [OF assms(1)] assms(2) show ?thesis by blast
qed

end

subsection \<open>Rows behind a null bitmap\<close>

definition null_bitmap :: "byte list \<Rightarrow> nat \<Rightarrow> str option list \<Rightarrow> bool" where
  "null_bitmap bm m vs \<longleftrightarrow>
     (\<forall>i < length vs. bit (bm ! ((m + i) div 8)) ((m + i) mod 8) \<longleftrightarrow> vs ! i = None)"

definition nbc_cells :: "'z externals_scheme \<Rightarrow> (column \<times> str option) list \<Rightarrow> byte list" where
  "nbc_cells K cvs = concat (map (\<lambda>(c, v).
     case v of None \<Rightarrow> [] | Some _ \<Rightarrow> write_value K [] (col_kind c) v) cvs)"

lemma null_bitmap_Cons:
  "null_bitmap bm m (v # vs) \<longleftrightarrow>
     (bit (bm ! (m div 8)) (m mod 8) \<longleftrightarrow> v = None) \<and> null_bitmap bm (Suc m) vs"
  by (simp add: null_bitmap_def All_less_Suc2)

lemma mask_bit: "x AND 2 ^ j = 0 \<longleftrightarrow> \<not> bit x j" for x :: byte
  using bit_iff_and_push_bit_not_eq_0 [of x j] by simp

context codec
begin

lemma read_nbc_cells:
  assumes "list_all2 (\<lambda>c. value_fits K (col_kind c)) columns vs" and "null_bitmap bm m vs"
  shows "rd_map (\<lambda>(index, column).
      if (bm ! (index div 8)) AND push_bit (index mod 8) 1 \<noteq> 0 then rd_return None
      else read_value K (col_kind column)) (enumerate m columns)
      (nbc_cells K (zip columns vs) @ c) =
    Inr (map2 (\<lambda>c v. Option.bind v (\<lambda>_. shown K (col_kind c) v)) columns vs, c)"
  using assms
proof (induction columns vs arbitrary: m rule: list_all2_induct)
  case (Cons col columns v vs)
  then show ?case
    by (cases v) (auto simp: null_bitmap_Cons nbc_cells_def rd_simps value_round mask_bit)
qed (simp add: nbc_cells_def rd_simps)

end

context codec
begin

lemma read_null_bitmap_row:
  assumes "list_all2 (\<lambda>c. value_fits K (col_kind c)) columns vs"
    and "length bm = (length columns + 7) div 8" and "null_bitmap bm 0 vs"
  shows "read_token K columns (NBCROW # bm @ nbc_cells K (zip columns vs) @ c) =
    Inr ((Row (map2 (\<lambda>c v. Option.bind v (\<lambda>_. shown K (col_kind c) v)) columns vs), columns), c)"
proof -
  note cells = read_nbc_cells [OF assms(1,3), of c]
  have "cur_take K ((length columns + 7) div 8) (bm @ x) = Inr (bm, x)" for x
    by (rule take_append) (rule assms(2))
  then show ?thesis
    unfolding read_token_def
    by (simp only: rd_bind_apply byte_Cons and_then_simps prod.case NBCROW_def ENVCHANGE_def
        INFO_def ERROR_def LOGINACK_def COLMETADATA_def ROW_def) (simp add: rd_bind_apply cells rd_return_def del: push_bit_of_1)
qed

lemma cut_message_refused:
  assumes "n < length (message_body K m)"
  shows "\<exists>e. read_sql_message K (take n (message_body K m)) = Inl e"
proof -
  obtain p where p: "read_sql_message K = rd_run p" "extends p"
    "\<exists>x. p (message_body K m) = Inr (x, [])"
    by (rule that [OF read_sql_message_def])
      ((intro extends_bind extends_return extends_cursor extends_varchar)?;
        simp add: message_body_bytes rd_simps b_varchar_framed us_varchar_framed words_append [where c = "[]", simplified])+
  then show ?thesis using extends_cut [OF p(2) _ assms] by (auto simp: rd_run_def)
qed

lemma cut_text_refused:
  assumes "length x < 2 * unat u"
  shows "read_sql_message K (le_bytes 4 (n :: 32 word) @ [st, cl] @ le_bytes 2 (u :: 16 word) @ x) =
    Inl (overrun K (2 * unat u) x)"
proof -
  have "cur_take K (unat u * 2) x = Inl (overrun K (2 * unat u) x)"
    using assms by (simp add: take_law mult.commute)
  then show ?thesis
    by (simp add: read_sql_message_def rd_run_def rd_simps read_us_varchar_def ucs2_def)
qed

text \<open>A message longer than its length can say.\<close>

lemma long_message_read:
  assumes "65535 < length (message_body K m)"
  shows "token_bytes K columns (Error m) = ERROR # 255 # 255 # message_body K m"
    and "read_sql_message K (take 65535 (message_body K m)) = Inl e \<Longrightarrow>
      read_token K columns (token_bytes K columns (Error m) @ c) = Inl e"
proof -
  have len: "fits_or (- 1) (length (message_body K m)) = (- 1 :: 16 word)"
    using assms by (simp add: fits_or_def)
  have saturated: "le_bytes 2 (- 1 :: 16 word) = [255, 255]"
    by code_simp
  from len show "token_bytes K columns (Error m) = ERROR # 255 # 255 # message_body K m"
    using saturated by (simp add: token_bytes_simps sized_def)
  have "cur_take K 65535 (message_body K m @ c) =
      Inr (take 65535 (message_body K m), drop 65535 (message_body K m @ c))"
    using assms by (simp add: take_law)
  moreover have "unat (- 1 :: 16 word) = 65535" by (simp add: unsigned_minus_1_eq_mask mask_eq_exp_minus_1)
  ultimately show "read_token K columns (token_bytes K columns (Error m) @ c) = Inl e"
    if "read_sql_message K (take 65535 (message_body K m)) = Inl e"
    using that len by (simp add: token_bytes_simps sized_def read_token_def token_body_def rd_simps)
qed

lemma long_text_cut:
  assumes "32764 \<le> utf16_units (msg_text m)"
  shows "read_sql_message K (take 65535 (message_body K m)) =
    Inl (overrun K (2 * min 65535 (utf16_units (msg_text m))) (take 65527 (counted K (msg_text m) 65535)))"
proof -
  define u where "u = (of_nat (min 65535 (utf16_units (msg_text m))) :: 16 word)"
  have u: "unat u = min 65535 (utf16_units (msg_text m))" by (simp add: u_def unat_of_nat)
  have "take 65535 (message_body K m) = le_bytes 4 (msg_number m) @ [msg_state m, msg_class m]
      @ le_bytes 2 u @ take 65527 (counted K (msg_text m) 65535)"
    using assms by (simp add: message_body_bytes us_varchar_bytes u_def length_counted)
  then show ?thesis
    using cut_text_refused [of "take 65527 (counted K (msg_text m) 65535)" u] assms
    by (simp add: u length_counted)
qed

lemma message_body_size:
  "length (message_body K m) = 14 + 2 * min 65535 (utf16_units (msg_text m))
     + 2 * min 255 (utf16_units (msg_server m)) + 2 * min 255 (utf16_units (msg_procedure m))"
  by (simp add: message_body_bytes us_varchar_bytes b_varchar_bytes length_counted)

lemma stream_loop_unfold:
  "rd_loop (stream_round K f) (columns, x) c =
     and_then (next_token K \<lparr>ts_cursor = c, ts_columns = columns\<rparr>) (\<lambda>(t, s).
       case t of
         None \<Rightarrow> Inr (x, ts_cursor s)
       | Some t \<Rightarrow> and_then (f t x) (\<lambda>y. rd_loop (stream_round K f) (ts_columns s, y) (ts_cursor s)))"
  by (subst stream.loop_unfold)
    (auto simp: stream_round_def and_then_def go_on_def leave_def rd_return_def
      split: sum.split option.split)

end

subsection \<open>Properties\<close>

text \<open>C15: A payload of tokens is read back token by token, in order, to its last byte: the loop
  every reader runs does on it what a fold over the tokens does, rows read by the metadata
  before them and every cell as the text its column makes of it.\<close>

theorem tokens_read_back:
  assumes "codec K" and "tokens_fit K [] ts"
  shows "each_token K f s (encode_tokens K ts) = fold_tokens f (tokens_shown K [] ts) s"
  using assms by (rule codec.each_token_written)

theorem tokens_read_back_witness:
  "each_token reference (\<lambda>t ts. Inr (ts @ [t])) []
     (encode_tokens reference [ColMetadata [new_column (lit ''id'') IntT, text_column (lit ''v'')],
        Row [Some (lit ''7''), None], Order [1], Done DONE_COUNT 1]) =
   Inr [ColMetadata [new_column (lit ''id'') IntT, text_column (lit ''v'')],
        Row [Some (lit ''7''), None], Order [1], Done DONE_COUNT 1]"
proof -
  have "value_int (Some (lit ''7'')) = 7" "dec_int 7 = lit ''7''"
    by code_simp+
  then show ?thesis
    by (subst tokens_read_back)
      (simp_all add: reference_laws token_fits_def columns_after_def name_fits_def new_column_def
        text_column_def value_fits_def bytes_fit_def token_shown_def shown_def)
qed

text \<open>C26: A row behind a null bitmap reads as the row it stands for: a column whose bit is set is
  null and has no bytes, whatever its type, and the others are read by their types.\<close>

theorem null_bitmap_row_read:
  assumes "codec K" and "list_all2 (\<lambda>c. value_fits K (col_kind c)) columns vs"
    and "length bm = (length columns + 7) div 8" and "null_bitmap bm 0 vs"
  shows "next_token K \<lparr>ts_cursor = NBCROW # bm @ nbc_cells K (zip columns vs) @ c,
      ts_columns = columns\<rparr> =
    Inr (Some (Row (map2 (\<lambda>c v. Option.bind v (\<lambda>_. shown K (col_kind c) v)) columns vs)),
      \<lparr>ts_cursor = c, ts_columns = columns\<rparr>)"
  using codec.read_null_bitmap_row [OF assms] by (simp add: next_token_def)

theorem null_bitmap_row_read_witness:
  "next_token reference \<lparr>ts_cursor = NBCROW # [2] @ nbc_cells reference
       (zip [new_column [] BigInt, new_column [] BigInt] [Some (lit ''7''), None]) @ [9],
     ts_columns = [new_column [] BigInt, new_column [] BigInt]\<rparr> =
   Inr (Some (Row (map2 (\<lambda>c v. Option.bind v (\<lambda>_. shown reference (col_kind c) v))
       [new_column [] BigInt, new_column [] BigInt] [Some (lit ''7''), None])),
     \<lparr>ts_cursor = [9], ts_columns = [new_column [] BigInt, new_column [] BigInt]\<rparr>)"
  by (rule null_bitmap_row_read)
    (simp_all add: reference_laws value_fits_def new_column_def null_bitmap_def less_Suc_eq all_conj_distrib
      numeral_2_eq_2)

text \<open>A byte that starts no token this crate reads is refused, by name, wherever it stands.\<close>

lemma unknown_token_refused:
  assumes "cursor K"
    and "b \<notin> {ENVCHANGE, INFO, ERROR, LOGINACK, COLMETADATA, ROW, NBCROW, DONE, DONEPROC,
      DONEINPROC, RETURNSTATUS, ORDER}"
  shows "next_token K \<lparr>ts_cursor = b # c, ts_columns = columns\<rparr> =
    Inl (Protocol (lit ''token '' @ hex04 b @ lit '' is not one this crate reads''))"
  using assms(2)
  by (simp add: next_token_def read_token_def rd_simps cursor.byte_Cons [OF assms(1)])

text \<open>C33: Every token takes at least one byte, so the loop over a payload ends on any bytes
  whatever; its equation needs no fuel.\<close>

theorem token_loop_ends:
  assumes "codec K"
  shows "(\<forall>s t s'. next_token K s = Inr (Some t, s') \<longrightarrow> length (ts_cursor s') < length (ts_cursor s))
    \<and> rd_loop (stream_round K f) (columns, x) c =
      and_then (next_token K \<lparr>ts_cursor = c, ts_columns = columns\<rparr>) (\<lambda>(t, s).
        case t of
          None \<Rightarrow> Inr (x, ts_cursor s)
        | Some t \<Rightarrow> and_then (f t x) (\<lambda>y. rd_loop (stream_round K f) (ts_columns s, y) (ts_cursor s)))"
  by (intro conjI allI impI codec.next_token_consumes [OF assms] codec.stream_loop_unfold [OF assms])

theorem token_loop_ends_witness:
  "rd_loop (stream_round reference (\<lambda>t n. Inr (n + (1 :: nat)))) ([], 0) [] = Inr (0, [])"
  by (subst token_loop_ends [OF reference_laws(4), THEN conjunct2]) (simp add: next_token_def)

text \<open>C36: An error whose text, cut at 65535 units, and names, cut at 255 each, come with the other fields
  to more than 65535 bytes, is written whole behind a length that saturates at 65535, and does
  not read back: the reader is given its first 65535 bytes and fails. Every error of more than
  32763 units of text is one; there the reader fails in the text, which breaks off.\<close>

theorem long_message_lost:
  assumes "codec K"
    and "65535 < 14 + 2 * min 65535 (utf16_units (msg_text m)) + 2 * min 255 (utf16_units (msg_server m))
      + 2 * min 255 (utf16_units (msg_procedure m)) \<or> 32764 \<le> utf16_units (msg_text m)"
  shows "encode_tokens K (Error m # ts) = ERROR # 255 # 255 # message_body K m @ encode_tokens K ts \<and>
    65535 < length (message_body K m) \<and>
    (\<exists>e. next_token K (new_stream (encode_tokens K (Error m # ts))) = Inl e) \<and>
    (32764 \<le> utf16_units (msg_text m) \<longrightarrow>
      next_token K (new_stream (encode_tokens K (Error m # ts))) =
        Inl (overrun K (2 * min 65535 (utf16_units (msg_text m))) (take 65527 (counted K (msg_text m) 65535))))"
proof -
  have long: "65535 < length (message_body K m)"
    using assms(2) by (auto simp: codec.message_body_size [OF assms(1)])
  note read = codec.long_message_read [OF assms(1) long]
  have written: "encode_tokens K (Error m # ts) = token_bytes K [] (Error m) @ encode_tokens K ts"
    by (simp add: codec.encode_tokens_bytes [OF assms(1)] columns_after_def)
  have fails: "next_token K (new_stream (encode_tokens K (Error m # ts))) = Inl e"
    if "read_sql_message K (take 65535 (message_body K m)) = Inl e" for e
    using read(2) [OF that, of "[]" "encode_tokens K ts"]
    by (simp add: written next_token_def new_stream_def codec.token_bytes_not_Nil [OF assms(1)])
  show ?thesis
    using long written read(1) fails codec.cut_message_refused [OF assms(1) long]
      fails [OF codec.long_text_cut [OF assms(1)]]
    by auto
qed

theorem long_message_lost_witness:
  "(\<exists>bs. encode_tokens reference (Error (new_message 50000 16 (replicate 70000 120)) # []) =
      ERROR # 255 # 255 # bs \<and> 65535 < length bs) \<and>
    (\<exists>e. next_token reference (new_stream (encode_tokens reference
      (Error (new_message 50000 16 (replicate 70000 120)) # []))) = Inl e)"
proof -
  have "32764 \<le> utf16_units (msg_text (new_message 50000 16 (replicate 70000 120)))"
    by (simp add: new_message_def utf16_units_def sum_list_replicate)
  from long_message_lost [OF reference_laws(4) disjI2 [OF this], of "[]"] show ?thesis
    by auto
qed

end
