(* ===== verification/Prelogin.thy ===== *)
theory Prelogin
  imports Reference
begin

text \<open>
  \<^verbatim>\<open>src/prelogin.rs\<close>: the option table both sides open a connection with. What a
  table means is given by \<open>prelogin_of\<close>, field by field, and \<open>entry_wrong\<close>; the reader is shown
  to compute it, and the writer's table to read back as the options it was written from.
\<close>

definition VERSION :: byte where [simp]: "VERSION = 0x00"
definition ENCRYPTION :: byte where [simp]: "ENCRYPTION = 0x01"
definition INSTOPT :: byte where [simp]: "INSTOPT = 0x02"
definition THREADID :: byte where [simp]: "THREADID = 0x03"
definition MARS :: byte where [simp]: "MARS = 0x04"
definition TERMINATOR :: byte where [simp]: "TERMINATOR = 0xFF"
definition ENCRYPT_OFF :: byte where [simp]: "ENCRYPT_OFF = 0x00"
definition ENCRYPT_NOT_SUP :: byte where [simp]: "ENCRYPT_NOT_SUP = 0x02"
definition ENCRYPT_REQ :: byte where [simp]: "ENCRYPT_REQ = 0x03"

text \<open>\<open>pl_version\<close> is an array of six bytes.\<close>

record prelogin =
  pl_version :: "byte list"
  pl_encryption :: byte
  pl_instance :: str
  pl_thread_id :: "32 word"
  pl_mars :: bool

definition default_prelogin :: prelogin where
  "default_prelogin = \<lparr>
     pl_version = [0, 0, 0, 1, 0, 0],
     pl_encryption = ENCRYPT_NOT_SUP,
     pl_instance = [],
     pl_thread_id = 0,
     pl_mars = False\<rparr>"

subsection \<open>Writing\<close>

definition prelogin_options :: "prelogin \<Rightarrow> (byte \<times> byte list) list" where
  "prelogin_options p =
     [(VERSION, pl_version p),
      (ENCRYPTION, [pl_encryption p]),
      (INSTOPT, as_bytes (pl_instance p) @ [0]),
      (THREADID, le_bytes 4 (pl_thread_id p)),
      (MARS, [if pl_mars p then 1 else 0])]"

definition encode_prelogin :: "prelogin \<Rightarrow> byte list" where
  "encode_prelogin p =
     (let options = prelogin_options p;
          base = length options * 5 + 1;
          (table, data) = foldl (\<lambda>(table, data) (token, bytes).
            let offset = fits_or (- 1) (base + length data) :: 16 word;
                len = fits_or (- 1) (length bytes) :: 16 word
            in (table @ [token] @ be_bytes 2 offset @ be_bytes 2 len, data @ bytes))
            ([], []) options
      in table @ [TERMINATOR] @ data)"

subsection \<open>Reading\<close>

definition set_option :: "byte \<Rightarrow> byte list \<Rightarrow> prelogin \<Rightarrow> terror + prelogin" where
  "set_option token bytes p =
     (if token = VERSION then
        Inr (p\<lparr>pl_version := take (length (pl_version p)) bytes
                 @ drop (length bytes) (pl_version p)\<rparr>)
      else if token = ENCRYPTION then
        (case bytes of
           [] \<Rightarrow> Inl (Protocol (lit ''an empty encryption option''))
         | b # _ \<Rightarrow> Inr (p\<lparr>pl_encryption := b\<rparr>))
      else if token = INSTOPT then
        Inr (p\<lparr>pl_instance := from_utf8_lossy (takeWhile (\<lambda>b. b \<noteq> 0) bytes)\<rparr>)
      else if token = THREADID then
        Inr (if length bytes = 4 then p\<lparr>pl_thread_id := of_le bytes\<rparr> else p)
      else if token = MARS then
        Inr (p\<lparr>pl_mars := (case bytes of b # _ \<Rightarrow> b \<noteq> 0 | [] \<Rightarrow> False)\<rparr>)
      else Inr p)"

definition prelogin_round ::
    "'z externals_scheme \<Rightarrow> byte list \<Rightarrow> prelogin \<Rightarrow> (prelogin + prelogin) rd" where
  "prelogin_round K body p =
     rd_bind (cur_byte K) (\<lambda>token.
       if token = TERMINATOR then leave p
       else
         rd_bind (cur_u16_be K) (\<lambda>offset.
         rd_bind (cur_u16_be K) (\<lambda>len.
           case slice_get body (unat offset) (unat offset + unat len) of
             None \<Rightarrow>
               rd_fail (Protocol (lit ''a pre-login option that points past the message''))
           | Some bytes \<Rightarrow> rd_bind (rd_lift (set_option token bytes p)) go_on)))"

definition read_prelogin :: "'z externals_scheme \<Rightarrow> byte list \<Rightarrow> terror + prelogin" where
  "read_prelogin K body =
     and_then (rd_loop (prelogin_round K body) default_prelogin body) (\<lambda>(p, _). Inr p)"

subsection \<open>What a table means\<close>

type_synonym entry = "byte \<times> 16 word \<times> 16 word"

definition entry_bytes :: "entry \<Rightarrow> byte list" where
  "entry_bytes = (\<lambda>(token, offset, len). token # be_bytes 2 offset @ be_bytes 2 len)"

fun apply_options :: "byte list \<Rightarrow> entry list \<Rightarrow> prelogin \<Rightarrow> terror + prelogin" where
  "apply_options body [] p = Inr p"
| "apply_options body ((token, offset, len) # es) p =
     (case slice_get body (unat offset) (unat offset + unat len) of
        None \<Rightarrow> Inl (Protocol (lit ''a pre-login option that points past the message''))
      | Some bytes \<Rightarrow> and_then (set_option token bytes p) (apply_options body es))"

context cursor
begin

lemma consumes_prelogin_round: "consumes (prelogin_round K body p)"
  unfolding prelogin_round_def
  by (intro progress_intros)

end

sublocale cursor \<subseteq> prelogin_loop: progressing "prelogin_round K body" for body
  by (intro progressingI consumes_prelogin_round)

context cursor
begin

lemma prelogin_round_entry:
  "token \<noteq> TERMINATOR \<Longrightarrow>
   prelogin_round K body p (entry_bytes (token, offset, len) @ c) =
     (case slice_get body (unat offset) (unat offset + unat len) of
        None \<Rightarrow> Inl (Protocol (lit ''a pre-login option that points past the message''))
      | Some bytes \<Rightarrow> and_then (set_option token bytes p) (\<lambda>p'. Inr (Inl p', c)))"
  by (simp add: prelogin_round_def entry_bytes_def rd_simps rd_lift_def split: option.split)
    (auto simp: and_then_def rd_simps split: sum.split)

lemma read_table:
  assumes "list_all (\<lambda>(token, _, _). token \<noteq> TERMINATOR) es"
  shows "rd_loop (prelogin_round K body) p (concat (map entry_bytes es) @ TERMINATOR # c) =
    and_then (apply_options body es p) (\<lambda>p'. Inr (p', c))"
  using assms
proof (induction es arbitrary: p)
  case Nil
  have "prelogin_round K body p (TERMINATOR # c) = Inr (Inr p, c)"
    by (simp add: prelogin_round_def rd_simps)
  then show ?case by (simp add: prelogin_loop.loop_leave)
next
  case (Cons x es)
  obtain token offset len where x: "x = (token, offset, len)" by (cases x)
  have "token \<noteq> TERMINATOR" using Cons.prems x by simp
  note round = prelogin_round_entry [OF this, of body p offset len
      "concat (map entry_bytes es) @ TERMINATOR # c"]
  show ?case
  proof (cases "slice_get body (unat offset) (unat offset + unat len)")
    case None
    with round show ?thesis by (simp add: x prelogin_loop.loop_fails)
  next
    case (Some bytes)
    show ?thesis
    proof (cases "set_option token bytes p")
      case (Inl e)
      with round Some show ?thesis by (simp add: x prelogin_loop.loop_fails)
    next
      case (Inr p')
      with round Some have "rd_loop (prelogin_round K body) p
          (entry_bytes x @ concat (map entry_bytes es) @ TERMINATOR # c) =
        rd_loop (prelogin_round K body) p' (concat (map entry_bytes es) @ TERMINATOR # c)"
        by (intro prelogin_loop.loop_go_on) (simp add: x)
      with Cons Some Inr show ?thesis by (simp add: x)
    qed
  qed
qed

end


subsection \<open>Properties\<close>

lemma read_prelogin_of_table:
  assumes "cursor K" and "list_all (\<lambda>(token, _, _). token \<noteq> TERMINATOR) es"
    and "body = concat (map entry_bytes es) @ TERMINATOR # payload"
  shows "read_prelogin K body = apply_options body es default_prelogin"
proof -
  have "rd_loop (prelogin_round K body) default_prelogin body =
      and_then (apply_options body es default_prelogin) (\<lambda>p. Inr (p, payload))"
    using cursor.read_table [OF assms(1,2), of body] assms(3) by metis
  then show ?thesis
    by (cases "apply_options body es default_prelogin") (simp_all add: read_prelogin_def)
qed

text \<open>
  The meaning of a table without the reader's assignments: the values it gives an option, in
  order, what is wrong with an entry, and each field from the values of its own option.
\<close>

definition entry_value :: "byte list \<Rightarrow> entry \<Rightarrow> byte list" where
  "entry_value body = (\<lambda>(_, offset, len). take (unat len) (drop (unat offset) body))"

definition values_of :: "byte list \<Rightarrow> entry list \<Rightarrow> byte \<Rightarrow> byte list list" where
  "values_of body es option = map (entry_value body) (filter (\<lambda>e. fst e = option) es)"

definition entry_wrong :: "byte list \<Rightarrow> entry \<Rightarrow> string option" where
  "entry_wrong body = (\<lambda>(token, offset, len).
     if length body < unat offset + unat len then Some ''a pre-login option that points past the message''
     else if token = ENCRYPTION \<and> len = 0 then Some ''an empty encryption option''
     else None)"

text \<open>Of the values given, the last, or what holds where there is none.\<close>

definition latest :: "'a \<Rightarrow> 'a list \<Rightarrow> 'a" where
  "latest d vs = last (d # vs)"

definition prelogin_of :: "byte list \<Rightarrow> entry list \<Rightarrow> prelogin \<Rightarrow> prelogin" where
  "prelogin_of body es p = \<lparr>
     pl_version = map (\<lambda>i. latest (pl_version p ! i)
       (map (\<lambda>v. v ! i) (filter (\<lambda>v. i < length v) (values_of body es VERSION)))) [0..<length (pl_version p)],
     pl_encryption = latest (pl_encryption p) (map hd (values_of body es ENCRYPTION)),
     pl_instance = latest (pl_instance p)
       (map (\<lambda>v. from_utf8_lossy (takeWhile (\<lambda>b. b \<noteq> 0) v)) (values_of body es INSTOPT)),
     pl_thread_id = latest (pl_thread_id p) (map of_le (filter (\<lambda>v. length v = 4) (values_of body es THREADID))),
     pl_mars = latest (pl_mars p) (map (\<lambda>v. v \<noteq> [] \<and> hd v \<noteq> 0) (values_of body es MARS))\<rparr>"

lemma latest_simps [simp]: "latest d [] = d" "latest d (v # vs) = latest v vs"
  by (simp_all add: latest_def)

lemma values_of_simps [simp]:
  "values_of body [] option = []"
  "values_of body (e # es) option =
     (if fst e = option then [entry_value body e] else []) @ values_of body es option"
  by (simp_all add: values_of_def)

text \<open>One right entry before the rest is an assignment before them.\<close>

lemma prelogin_of_Cons:
  assumes "entry_wrong body (token, offset, len) = None"
  shows "set_option token (entry_value body (token, offset, len)) p = Inr (prelogin_of body [(token, offset, len)] p)"
    and "prelogin_of body es (prelogin_of body [(token, offset, len)] p) = prelogin_of body ((token, offset, len) # es) p"
proof -
  let ?v = "entry_value body (token, offset, len)"
  have "token = ENCRYPTION \<Longrightarrow> ?v \<noteq> []"
    using assms unat_gt_0 [of len] by (auto simp: entry_wrong_def entry_value_def split: if_splits)
  moreover have "take (length v) ?v @ drop (length ?v) v =
      map (\<lambda>i. latest (v ! i) (map (\<lambda>v. v ! i) (filter (\<lambda>v. i < length v) [?v]))) [0..<length v]" for v
    by (rule nth_equalityI) (auto simp: nth_append)
  ultimately show "set_option token ?v p = Inr (prelogin_of body [(token, offset, len)] p)"
    by (cases p) (auto simp: set_option_def prelogin_of_def map_nth split: list.split)
  show "prelogin_of body es (prelogin_of body [(token, offset, len)] p) = prelogin_of body ((token, offset, len) # es) p"
    by (auto simp: prelogin_of_def)
qed

lemma apply_options_meaning:
  "apply_options body es p =
     (case List.map_filter (entry_wrong body) es of
        wrong # _ \<Rightarrow> Inl (Protocol (lit wrong))
      | [] \<Rightarrow> Inr (prelogin_of body es p))"
proof (induction es arbitrary: p)
  case Nil
  show ?case by (cases p) (simp add: prelogin_of_def List.map_filter_simps map_nth)
next
  case (Cons e es)
  obtain token offset len where e: "e = (token, offset, len)" by (cases e)
  show ?case
  proof (cases "entry_wrong body e")
    case None
    have "slice_get body (unat offset) (unat offset + unat len) = Some (entry_value body e)"
      using None by (auto simp: e entry_wrong_def slice_get_def entry_value_def split: if_splits)
    with prelogin_of_Cons [OF None [unfolded e]] Cons None show ?thesis
      by (simp add: e List.map_filter_simps split: list.split)
  next
    case (Some wrong)
    then show ?thesis
      by (auto simp: e entry_wrong_def slice_get_def set_option_def entry_value_def List.map_filter_simps
          split: if_splits list.split)
  qed
qed

text \<open>C22: Reading a pre-login computes what its table says. The first entry that points past the
  message, or gives an empty encryption, is the error; otherwise every field is that of the last
  value its option was given, or the default where it was given none: the version byte by byte,
  the instance up to its NUL, a thread id only of four bytes. An option this crate does not know
  changes nothing.\<close>

theorem read_prelogin_table:
  assumes "cursor K" and "list_all (\<lambda>(token, _, _). token \<noteq> TERMINATOR) es"
    and "body = concat (map entry_bytes es) @ TERMINATOR # payload"
  shows "read_prelogin K body =
    (case List.map_filter (entry_wrong body) es of
       wrong # _ \<Rightarrow> Inl (Protocol (lit wrong))
     | [] \<Rightarrow> Inr (prelogin_of body es default_prelogin))"
proof -
  have "read_prelogin K body = apply_options body es default_prelogin"
    using assms by (rule read_prelogin_of_table)
  also have "\<dots> = (case List.map_filter (entry_wrong body) es of
       wrong # _ \<Rightarrow> Inl (Protocol (lit wrong))
     | [] \<Rightarrow> Inr (prelogin_of body es default_prelogin))"
    by (rule apply_options_meaning)
  finally show ?thesis .
qed

text \<open>A server's answer: an option of which nothing is known, encryption given twice, and an empty
  thread id.\<close>

theorem read_prelogin_table_witness:
  "read_prelogin reference
     (concat (map entry_bytes [(7, 21, 2), (ENCRYPTION, 21, 1), (ENCRYPTION, 22, 1), (THREADID, 22, 0)])
       @ TERMINATOR # [ENCRYPT_REQ, ENCRYPT_OFF])
   = Inr (default_prelogin\<lparr>pl_encryption := ENCRYPT_OFF\<rparr>)"
  by (subst read_prelogin_table [OF reference_laws(1) _ refl])
    (simp_all add: entry_bytes_def be_bytes_def le_bytes_expand entry_wrong_def List.map_filter_simps
      prelogin_of_def entry_value_def default_prelogin_def upt_rec)

lemma encode_prelogin_bytes:
  assumes "length (pl_version p) = 6" and "length (as_bytes (pl_instance p)) \<le> 65497"
  shows "encode_prelogin p =
    concat (map entry_bytes
      [(VERSION, 26, 6), (ENCRYPTION, 32, 1),
       (INSTOPT, 33, of_nat (length (as_bytes (pl_instance p)) + 1)),
       (THREADID, of_nat (34 + length (as_bytes (pl_instance p))), 4),
       (MARS, of_nat (38 + length (as_bytes (pl_instance p))), 1)])
    @ TERMINATOR # pl_version p @ pl_encryption p # as_bytes (pl_instance p)
      @ 0 # le_bytes 4 (pl_thread_id p) @ [if pl_mars p then 1 else 0]"
  using assms
  by (simp add: encode_prelogin_def prelogin_options_def entry_bytes_def fits_or_def Let_def)

lemma prelogin_reads_back:
  assumes "cursor K" and "length (pl_version p) = 6" and "is_str (pl_instance p)"
    and "0 \<notin> set (pl_instance p)" and "length (as_bytes (pl_instance p)) \<le> 65497"
  shows "read_prelogin K (encode_prelogin p) = Inr p"
proof -
  define i where "i = as_bytes (pl_instance p)"
  define tid where "tid = le_bytes 4 (pl_thread_id p)"
  define m where "m = [if pl_mars p then 1 else 0 :: byte]"
  define es :: "entry list" where "es = [(VERSION, 26, 6), (ENCRYPTION, 32, 1),
    (INSTOPT, 33, of_nat (length i + 1)), (THREADID, of_nat (34 + length i), 4),
    (MARS, of_nat (38 + length i), 1)]"
  define table where "table = concat (map entry_bytes es) @ [TERMINATOR]"
  have body: "encode_prelogin p =
      table @ pl_version p @ [pl_encryption p] @ (i @ [0]) @ tid @ m"
    using encode_prelogin_bytes [OF assms(2,5)]
    by (simp add: table_def es_def i_def tid_def m_def)
  have sizes: "length table = 26" "length (pl_version p) = 6" "length tid = 4" "length m = 1"
    using assms(2) by (simp_all add: table_def es_def entry_bytes_def tid_def m_def)
  have len: "unat (of_nat (length i + 1) :: 16 word) = length i + 1"
    "unat (of_nat (34 + length i) :: 16 word) = 34 + length i"
    "unat (of_nat (38 + length i) :: 16 word) = 38 + length i"
    using assms(5) by (simp_all only: unat_of_nat i_def) simp_all
  have slices: "slice_get (encode_prelogin p) 26 32 = Some (pl_version p)"
    "slice_get (encode_prelogin p) 32 33 = Some [pl_encryption p]"
    "slice_get (encode_prelogin p) 33 (33 + (length i + 1)) = Some (i @ [0])"
    "slice_get (encode_prelogin p) (34 + length i) (34 + length i + 4) = Some tid"
    "slice_get (encode_prelogin p) (38 + length i) (38 + length i + 1) = Some m"
    by (rule slice_get_at [where xs = table]
        slice_get_at [where xs = "table @ pl_version p"]
        slice_get_at [where xs = "table @ pl_version p @ [pl_encryption p]"]
        slice_get_at [where xs = "table @ pl_version p @ [pl_encryption p] @ i @ [0]"]
        slice_get_at [where xs = "table @ pl_version p @ [pl_encryption p] @ i @ [0] @ tid"
          and zs = "[]"]; simp add: body sizes)+
  have "from_utf8_lossy i = pl_instance p" "takeWhile (\<lambda>b. b \<noteq> 0) (i @ [0]) = i"
    using assms(3,4) zero_in_as_bytes [of "pl_instance p"]
    by (simp_all add: i_def takeWhile_append)
  then have "apply_options (encode_prelogin p) es default_prelogin = Inr p"
    using len slices sizes
    by (simp add: es_def set_option_def default_prelogin_def tid_def m_def)
  moreover have "read_prelogin K (encode_prelogin p) =
      apply_options (encode_prelogin p) es default_prelogin"
    by (rule read_prelogin_of_table [OF assms(1)]) (simp_all add: body es_def table_def)
  ultimately show ?thesis by simp
qed

text \<open>C28: A pre-login reads back as it was written, as long as its instance name is a C string
  and the table's sixteen-bit offsets can reach past it.\<close>

theorem prelogin_round_trip:
  assumes "cursor K" and "length (pl_version p) = 6" and "is_str (pl_instance p)"
    and "0 \<notin> set (pl_instance p)" and "length (as_bytes (pl_instance p)) \<le> 65497"
  shows "read_prelogin K (encode_prelogin p) = Inr p"
  using assms by (rule prelogin_reads_back)

theorem prelogin_round_trip_witness:
  "read_prelogin reference (encode_prelogin \<lparr>pl_version = [16, 0, 4, 0, 0, 1],
     pl_encryption = ENCRYPT_REQ, pl_instance = lit ''SQLEXPRESS'', pl_thread_id = 0x1234,
     pl_mars = True\<rparr>) =
   Inr \<lparr>pl_version = [16, 0, 4, 0, 0, 1], pl_encryption = ENCRYPT_REQ,
     pl_instance = lit ''SQLEXPRESS'', pl_thread_id = 0x1234, pl_mars = True\<rparr>"
  by (rule prelogin_round_trip)
    (simp_all add: reference_laws lit_def as_bytes_def utf8_char_def is_scalar_def)

end
