(* ===== verification/Batch.thy ===== *)
theory Batch
  imports Reference
begin

text \<open>
  \<^verbatim>\<open>src/batch.rs\<close>: a SQL batch, its \<open>ALL_HEADERS\<close> and the statement in UTF-16;
  \<open>batch\<close> is what is read as one, as a grammar.
\<close>

definition TRANSACTION_HEADER :: "16 word" where [simp]: "TRANSACTION_HEADER = 0x0002"
definition HEADERS_LENGTH :: "32 word" where [simp]: "HEADERS_LENGTH = 22"

definition encode_batch :: "'z externals_scheme \<Rightarrow> str \<Rightarrow> byte list" where
  "encode_batch K sql =
     le_bytes 4 HEADERS_LENGTH
     @ le_bytes 4 (HEADERS_LENGTH - 4)
     @ le_bytes 2 TRANSACTION_HEADER
     @ le_bytes 8 (0 :: 64 word)
     @ le_bytes 4 (1 :: 32 word)
     @ utf16_encode K sql"

definition read_batch :: "'z externals_scheme \<Rightarrow> byte list \<Rightarrow> terror + str" where
  "read_batch K body =
     and_then (cur_u32_le K body) (\<lambda>(total, c).
       if unat total < 4 then Inl (Protocol (lit ''a headers length under four''))
       else
         case cur_skip K (unat total - 4) c of
           Inl _ \<Rightarrow> Inl (Protocol (lit ''headers that run past the batch''))
         | Inr (_, c) \<Rightarrow> utf16_decode K c)"

context codec
begin

lemma statement_follows_headers:
  "read_batch K (encode_batch K sql) = utf16_decode K (utf16_encode K sql)"
proof -
  have "cur_skip K 18 (le_bytes 4 (18 :: 32 word) @ le_bytes 2 (2 :: 16 word)
      @ le_bytes 8 (0 :: 64 word) @ le_bytes 4 (1 :: 32 word) @ c) = Inr ((), c)" for c
    using skip_append [of "le_bytes 4 (18 :: 32 word) @ le_bytes 2 (2 :: 16 word)
      @ le_bytes 8 (0 :: 64 word) @ le_bytes 4 (1 :: 32 word)" 18 c] by simp
  then show ?thesis by (simp add: read_batch_def encode_batch_def rd_simps)
qed

end

subsection \<open>The message as a grammar\<close>

text \<open>Headers of any kind and number behind the length that counts them and itself, then the
  statement, whatever decodes to it.\<close>

inductive batch :: "'z externals_scheme \<Rightarrow> byte list \<Rightarrow> str \<Rightarrow> bool" for K where
  "utf16_decode K text_bytes = Inr sql \<Longrightarrow> 4 + length headers < 2 ^ 32 \<Longrightarrow>
    batch K (le_bytes 4 (of_nat (4 + length headers) :: 32 word) @ headers @ text_bytes) sql"

context cursor
begin

lemma read_batch_headers:
  assumes "4 + length headers < 2 ^ 32"
  shows "read_batch K (le_bytes 4 (of_nat (4 + length headers) :: 32 word) @ headers @ c) = utf16_decode K c"
proof -
  have "unat (of_nat (4 + length headers) :: 32 word) = 4 + length headers"
    using assms by (simp only: unat_of_nat) simp
  then show ?thesis
    by (simp add: read_batch_def rd_simps words_append skip_append)
qed

lemma read_batch_in_grammar:
  assumes "read_batch K body = Inr sql"
  shows "batch K body sql"
proof -
  obtain total c' where total: "cur_u32_le K body = Inr (total, c')" "4 \<le> unat total"
    and rest: "(case cur_skip K (unat total - 4) c' of
        Inl e \<Rightarrow> Inl (Protocol (lit ''headers that run past the batch''))
      | Inr (u, c) \<Rightarrow> utf16_decode K c) = Inr sql"
    using assms by (auto simp: read_batch_def and_then_eq_Inr split: if_splits)
  obtain c where c: "cur_skip K (unat total - 4) c' = Inr ((), c)" "utf16_decode K c = Inr sql"
    using rest by (auto split: sum.splits)
  obtain headers where headers: "length headers = unat total - 4" "c' = headers @ c"
    using c(1) by (auto simp: skip_reads)
  have body: "body = le_bytes 4 total @ headers @ c"
    using total(1) by (simp add: words_reads(2) headers(2))
  have size: "unat total = 4 + length headers" "unat total < 2 ^ 32"
    using total(2) headers(1) unsigned_less [of total, where 'a = nat] by simp_all
  then have "total = of_nat (4 + length headers)"
    by (metis of_nat_unat ucast_id)
  with batch.intros [OF c(2), of headers] body size show ?thesis by simp
qed

end

lemma batch_reads_back:
  assumes "codec K" and "is_str sql"
  shows "read_batch K (encode_batch K sql) = Inr sql"
  using codec.statement_follows_headers [OF assms(1)] text_forms.utf16_round [OF _ assms(2)]
    codec.axioms(3) [OF assms(1)]
  by simp

text \<open>C27: A payload is read as a statement exactly when it is one: a length that counts itself and
  the headers behind it, whatever they hold, then UTF-16 that strictly decodes to the statement;
  every other payload is an error. What is written for a statement is one, in headers of
  eighteen bytes.\<close>

theorem read_batch_iff:
  assumes "codec K"
  shows "(read_batch K body = Inr sql \<longleftrightarrow> batch K body sql) \<and>
    (is_str s \<longrightarrow> batch K (encode_batch K s) s \<and> length (encode_batch K s) = 22 + 2 * utf16_units s)"
proof (intro conjI impI)
  have cursor: "cursor K" by (rule codec.axioms(1) [OF assms])
  show "read_batch K body = Inr sql \<longleftrightarrow> batch K body sql"
    using cursor.read_batch_headers [OF cursor] cursor.read_batch_in_grammar [OF cursor]
    by (auto elim!: batch.cases)
  assume "is_str s"
  with cursor.read_batch_in_grammar [OF cursor batch_reads_back [OF assms]] show "batch K (encode_batch K s) s" .
  show "length (encode_batch K s) = 22 + 2 * utf16_units s"
    using text_forms.utf16_length [OF codec.axioms(3) [OF assms]] by (simp add: encode_batch_def)
qed

theorem read_batch_iff_witness:
  "batch reference (encode_batch reference (lit ''SELECT 1'')) (lit ''SELECT 1'') \<and>
    length (encode_batch reference (lit ''SELECT 1'')) = 38 \<and>
    read_batch reference ([6, 0, 0, 0, 9, 9] @ utf16_encode reference (lit ''x'')) = Inr (lit ''x'')"
proof -
  have sql: "is_str (lit ''SELECT 1'')" "is_str (lit ''x'')" by (simp_all add: lit_def is_scalar_def)
  have "utf16_decode reference (utf16_encode reference (lit ''x'')) = Inr (lit ''x'')"
    by (rule text_forms.utf16_round [OF reference_laws(3) sql(2)])
  from batch.intros [OF this, of "[9, 9]"]
  have "batch reference ([6, 0, 0, 0, 9, 9] @ utf16_encode reference (lit ''x'')) (lit ''x'')"
    by (simp add: le_bytes_expand)
  with sql(1) show ?thesis
    using read_batch_iff [OF reference_laws(4)] by simp
qed

end
