(* ===== verification/Login.thy ===== *)
theory Login
  imports Reference
begin

unbundle bit_operations_syntax

text \<open>
  \<^verbatim>\<open>src/login.rs\<close>: LOGIN7, its fixed part, its table of offsets and character counts
  and the fields behind it, the password obscured. \<open>login\<close> is the transport capability's
  \<^verbatim>\<open>Login\<close>, the user and password this crate reads off it. \<open>field_of\<close> is what an entry of
  the table names.
\<close>

definition TDS_7_4 :: "32 word" where [simp]: "TDS_7_4 = 0x74000004"
definition FIXED_LENGTH :: nat where [simp]: "FIXED_LENGTH = 94"
definition FIELDS :: nat where [simp]: "FIELDS = 9"

record login =
  login_user :: str
  login_password :: str

record login7 =
  l7_login :: login
  l7_database :: str
  l7_hostname :: str
  l7_app_name :: str
  l7_server_name :: str
  l7_library :: str
  l7_language :: str
  l7_packet_size :: "32 word"

definition new_login7 :: "login \<Rightarrow> str \<Rightarrow> login7" where
  "new_login7 l db = \<lparr>
     l7_login = l,
     l7_database = db,
     l7_hostname = lit ''xmip'',
     l7_app_name = lit ''xmip'',
     l7_server_name = [],
     l7_library = lit ''xmip-core-transport-mssql'',
     l7_language = [],
     l7_packet_size = 4096\<rparr>"

subsection \<open>The password\<close>

definition obscure :: "byte list \<Rightarrow> byte list" where
  "obscure bs = map (\<lambda>b. word_rotl 4 b XOR 0xA5) bs"

definition reveal :: "byte list \<Rightarrow> byte list" where
  "reveal bs = map (\<lambda>b. word_rotl 4 (b XOR 0xA5)) bs"

lemma length_obscure [simp]: "length (obscure bs) = length bs"
  by (simp add: obscure_def)

lemma rotl_twice: "word_rotl 4 (word_rotl 4 b) = (b :: byte)"
proof (rule bit_word_eqI)
  fix n :: nat
  assume "n < LENGTH(8)"
  then have "((n + 4) mod 8 + 4) mod 8 = n" by (simp add: mod_simps)
  then show "bit (word_rotl 4 (word_rotl 4 b)) n \<longleftrightarrow> bit b n"
    using \<open>n < LENGTH(8)\<close> by (simp add: bit_simps)
qed

lemma reveal_obscure [simp]: "reveal (obscure bs) = bs"
  by (simp add: reveal_def obscure_def comp_def xor.assoc rotl_twice)

lemma obscure_reveal [simp]: "obscure (reveal bs) = bs"
  by (simp add: reveal_def obscure_def comp_def xor.assoc rotl_twice)

subsection \<open>Writing\<close>

definition login_fields :: "'z externals_scheme \<Rightarrow> login7 \<Rightarrow> byte list list" where
  "login_fields K l =
     [utf16_encode K (l7_hostname l),
      utf16_encode K (login_user (l7_login l)),
      obscure (utf16_encode K (login_password (l7_login l))),
      utf16_encode K (l7_app_name l),
      utf16_encode K (l7_server_name l),
      [],
      utf16_encode K (l7_library l),
      utf16_encode K (l7_language l),
      utf16_encode K (l7_database l)]"

text \<open>\<open>pid\<close> is \<^verbatim>\<open>std::process::id()\<close>.\<close>

definition encode_login7 :: "'z externals_scheme \<Rightarrow> 32 word \<Rightarrow> login7 \<Rightarrow> byte list" where
  "encode_login7 K pid l =
     (let out = le_bytes 4 (0 :: 32 word) @ le_bytes 4 TDS_7_4 @ le_bytes 4 (l7_packet_size l)
            @ le_bytes 4 (0 :: 32 word) @ le_bytes 4 pid @ le_bytes 4 (0 :: 32 word)
            @ [0xE0, 0x02, 0x00, 0x00]
            @ le_bytes 4 (0 :: 32 word) @ le_bytes 4 (0 :: 32 word);
          (out, tail) = foldl (\<lambda>(out, tail) field.
            let offset = fits_or (- 1) (FIXED_LENGTH + length tail) :: 16 word;
                chars = fits_or (- 1) (length field div 2) :: 16 word
            in (out @ le_bytes 2 offset @ le_bytes 2 chars, tail @ field))
            (out, []) (login_fields K l);
          out = out @ replicate 6 0;
          end_offset = fits_or (- 1) (FIXED_LENGTH + length tail) :: 16 word;
          out = foldl (\<lambda>out _. out @ le_bytes 2 end_offset @ le_bytes 2 (0 :: 16 word)) out [0..<3];
          out = out @ le_bytes 4 (0 :: 32 word);
          out = out @ tail;
          len = fits_or (- 1) (length out) :: 32 word
      in le_bytes 4 len @ drop 4 out)"

subsection \<open>Reading\<close>

definition read_login_field :: "'z externals_scheme \<Rightarrow> byte list \<Rightarrow> byte list rd" where
  "read_login_field K body =
     rd_bind (cur_u16_le K) (\<lambda>offset.
     rd_bind (cur_u16_le K) (\<lambda>chars.
       case slice_get body (unat offset) (unat offset + unat chars * 2) of
         None \<Rightarrow> rd_fail (Protocol (lit ''a login field that points past the message''))
       | Some bytes \<Rightarrow> rd_return bytes))"

definition read_login7 :: "'z externals_scheme \<Rightarrow> byte list \<Rightarrow> terror + login7" where
  "read_login7 K body =
     and_then
       (rd_bind (cur_u32_le K) (\<lambda>_.
        rd_bind (cur_u32_le K) (\<lambda>version.
          if \<not> (0x72 \<le> drop_bit 24 version \<and> drop_bit 24 version \<le> 0x74) then
            rd_fail (Protocol (lit ''TDS '' @ hex010 version @ lit '' is not 7.2 to 7.4''))
          else
            rd_bind (cur_u32_le K) (\<lambda>size.
            rd_bind (cur_skip K 12) (\<lambda>_.
            rd_bind (cur_skip K 4) (\<lambda>_.
            rd_bind (cur_skip K 8) (\<lambda>_.
            rd_bind (rd_map (\<lambda>_. read_login_field K body) [0..<FIELDS]) (\<lambda>fields.
              rd_return \<lparr>
                l7_login = \<lparr>
                  login_user = utf16_decode_lossy K (fields ! 1),
                  login_password = utf16_decode_lossy K (reveal (fields ! 2))\<rparr>,
                l7_database = utf16_decode_lossy K (fields ! 8),
                l7_hostname = utf16_decode_lossy K (fields ! 0),
                l7_app_name = utf16_decode_lossy K (fields ! 3),
                l7_server_name = utf16_decode_lossy K (fields ! 4),
                l7_library = utf16_decode_lossy K (fields ! 6),
                l7_language = utf16_decode_lossy K (fields ! 7),
                l7_packet_size = size\<rparr>)))))))
        body)
       (\<lambda>(l, _). Inr l)"


subsection \<open>The table of fields\<close>

text \<open>The entries of the table for fields that start \<open>off\<close> bytes into the message.\<close>

fun field_entries :: "nat \<Rightarrow> byte list list \<Rightarrow> byte list" where
  "field_entries off [] = []"
| "field_entries off (f # fs) =
     le_bytes 2 (fits_or (- 1) off :: 16 word)
     @ le_bytes 2 (fits_or (- 1) (length f div 2) :: 16 word)
     @ field_entries (off + length f) fs"

lemma length_field_entries [simp]: "length (field_entries off fs) = 4 * length fs"
  by (induction off fs rule: field_entries.induct) simp_all

lemma foldl_fields:
  "foldl (\<lambda>(out, tail) field.
     let offset = fits_or (- 1) (FIXED_LENGTH + length tail) :: 16 word;
         chars = fits_or (- 1) (length field div 2) :: 16 word
     in (out @ le_bytes 2 offset @ le_bytes 2 chars, tail @ field)) (out, tail) fs =
   (out @ field_entries (94 + length tail) fs, tail @ concat fs)"
  by (induction fs arbitrary: out tail) (simp_all add: Let_def add.assoc)

definition login_message :: "32 word \<Rightarrow> 32 word \<Rightarrow> 32 word \<Rightarrow> byte list list \<Rightarrow> byte list \<Rightarrow> byte list" where
  "login_message len psize pid fs rest =
     le_bytes 4 len @ le_bytes 4 TDS_7_4 @ le_bytes 4 psize
     @ (le_bytes 4 (0 :: 32 word) @ le_bytes 4 pid @ le_bytes 4 (0 :: 32 word))
     @ [0xE0, 0x02, 0x00, 0x00] @ (le_bytes 4 (0 :: 32 word) @ le_bytes 4 (0 :: 32 word))
     @ field_entries 94 fs @ rest"

lemma encode_login7_message:
  "\<exists>len tr. encode_login7 K pid l =
      login_message len (l7_packet_size l) pid (login_fields K l) (tr @ concat (login_fields K l))
    \<and> length tr = 22"
proof -
  define fs where "fs = login_fields K l"
  define eo where "eo = (fits_or (- 1) (94 + length (concat fs)) :: 16 word)"
  define tr where "tr = replicate 6 0 @ le_bytes 2 eo @ le_bytes 2 (0 :: 16 word)
    @ le_bytes 2 eo @ le_bytes 2 (0 :: 16 word) @ le_bytes 2 eo @ le_bytes 2 (0 :: 16 word)
    @ le_bytes 4 (0 :: 32 word)"
  have "\<exists>len. encode_login7 K pid l = login_message len (l7_packet_size l) pid fs (tr @ concat fs)"
    by (simp add: encode_login7_def Let_def foldl_fields [unfolded Let_def FIXED_LENGTH_def] fs_def [symmetric]
        login_message_def tr_def eo_def numeral_3_eq_3 upt_rec)
      (rule exI, rule refl)
  moreover have "length tr = 22" by (simp add: tr_def)
  ultimately show ?thesis unfolding fs_def by blast
qed

text \<open>An entry of the table and the field it names: that many characters, from the offset on, where
  they lie within the message.\<close>

definition entry_of :: "16 word \<times> 16 word \<Rightarrow> byte list" where
  "entry_of = (\<lambda>(offset, chars). le_bytes 2 offset @ le_bytes 2 chars)"

definition field_of :: "byte list \<Rightarrow> 16 word \<times> 16 word \<Rightarrow> terror + byte list" where
  "field_of body = (\<lambda>(offset, chars).
     if unat offset + 2 * unat chars \<le> length body then Inr (take (2 * unat chars) (drop (unat offset) body))
     else Inl (Protocol (lit ''a login field that points past the message'')))"

fun fields_of :: "byte list \<Rightarrow> (16 word \<times> 16 word) list \<Rightarrow> terror + byte list list" where
  "fields_of body [] = Inr []"
| "fields_of body (e # es) =
     and_then (field_of body e) (\<lambda>f. and_then (fields_of body es) (\<lambda>fs. Inr (f # fs)))"

text \<open>The login nine fields make.\<close>

definition login_of :: "'z externals_scheme \<Rightarrow> 32 word \<Rightarrow> byte list list \<Rightarrow> login7" where
  "login_of K psize gs = \<lparr>
      l7_login = \<lparr>login_user = utf16_decode_lossy K (gs ! 1),
        login_password = utf16_decode_lossy K (reveal (gs ! 2))\<rparr>,
      l7_database = utf16_decode_lossy K (gs ! 8),
      l7_hostname = utf16_decode_lossy K (gs ! 0),
      l7_app_name = utf16_decode_lossy K (gs ! 3),
      l7_server_name = utf16_decode_lossy K (gs ! 4),
      l7_library = utf16_decode_lossy K (gs ! 6),
      l7_language = utf16_decode_lossy K (gs ! 7),
      l7_packet_size = psize\<rparr>"

lemma fields_of_cases:
  "fields_of body es = (if \<forall>(offset, chars) \<in> set es. unat offset + 2 * unat chars \<le> length body
     then Inr (map (\<lambda>(offset, chars). take (2 * unat chars) (drop (unat offset) body)) es)
     else Inl (Protocol (lit ''a login field that points past the message'')))"
  by (induction es) (auto simp: field_of_def)

context cursor
begin

lemma read_field:
  assumes "body = pre @ f @ post" and "length pre + length f < 65536" and "even (length f)"
  shows "read_login_field K body
      (le_bytes 2 (fits_or (- 1) (length pre) :: 16 word)
       @ le_bytes 2 (fits_or (- 1) (length f div 2) :: 16 word) @ c) = Inr (f, c)"
proof -
  have "unat (fits_or (- 1) (length pre) :: 16 word) = length pre"
    "unat (fits_or (- 1) (length f div 2) :: 16 word) * 2 = length f"
    using assms(2,3) by (simp_all add: unat_fits_or)
  moreover have "slice_get body (length pre) (length pre + length f) = Some f"
    by (rule slice_get_at [OF assms(1)]) simp_all
  ultimately show ?thesis by (simp add: read_login_field_def rd_simps)
qed

lemma read_fields:
  assumes "body = pre @ concat fs @ post" and "length pre + length (concat fs) < 65536"
    and "list_all (\<lambda>f. even (length f)) fs" and "length ks = length fs"
  shows "rd_map (\<lambda>_. read_login_field K body) ks (field_entries (length pre) fs @ c) = Inr (fs, c)"
  using assms
proof (induction fs arbitrary: pre ks)
  case (Cons f fs)
  then obtain k ks' where ks: "ks = k # ks'" "length ks' = length fs"
    by (cases ks) auto
  have "rd_map (\<lambda>_. read_login_field K body) ks' (field_entries (length (pre @ f)) fs @ c) =
      Inr (fs, c)"
    using Cons.prems ks by (intro Cons.IH) auto
  moreover have "read_login_field K body
      (le_bytes 2 (fits_or (- 1) (length pre) :: 16 word)
       @ le_bytes 2 (fits_or (- 1) (length f div 2) :: 16 word)
       @ field_entries (length pre + length f) fs @ c) =
      Inr (f, field_entries (length pre + length f) fs @ c)"
    using Cons.prems by (intro read_field [where post = "concat fs @ post"]) auto
  ultimately show ?case by (simp add: ks rd_simps)
qed (simp add: rd_simps)

lemma read_entry:
  "read_login_field K body (entry_of (offset, chars) @ c) =
     and_then (field_of body (offset, chars)) (\<lambda>f. Inr (f, c))"
  by (simp add: read_login_field_def entry_of_def field_of_def slice_get_def rd_simps mult.commute
      rd_fail_def rd_return_def)

lemma read_table:
  assumes "length ks = length es"
  shows "rd_map (\<lambda>_. read_login_field K body) ks (concat (map entry_of es) @ c) =
    and_then (fields_of body es) (\<lambda>gs. Inr (gs, c))"
  using assms
proof (induction es arbitrary: ks)
  case (Cons e es)
  then obtain k ks' where ks: "ks = k # ks'" "length ks' = length es" by (cases ks) auto
  show ?case
    using read_entry [of body "fst e" "snd e"] Cons.IH [OF ks(2)]
    by (cases "field_of body e"; cases "fields_of body es") (simp_all add: ks(1) rd_simps)
qed (simp add: rd_simps)

lemma table_bytes:
  "rd_map (\<lambda>_. read_login_field K body) ks c = Inr (gs, c') \<Longrightarrow> length c = 4 * length ks + length c'"
proof (induction ks arbitrary: c gs)
  case (Cons k ks)
  then obtain g gs' d where "read_login_field K body c = Inr (g, d)"
    "rd_map (\<lambda>_. read_login_field K body) ks d = Inr (gs', c')"
    by (auto simp: rd_bind_eq_Inr rd_return_def)
  then show ?case
    using Cons.IH by (auto simp: read_login_field_def rd_bind_eq_Inr words_reads rd_return_def rd_fail_def split: option.splits)
qed (simp add: rd_return_def)

text \<open>Any message with the fixed part of a login reads as its table says.\<close>

lemma read_login_message:
  assumes "body = le_bytes 4 (len :: 32 word) @ le_bytes 4 (version :: 32 word) @ le_bytes 4 psize
      @ as @ bs @ cs @ table"
    and "length as = 12" and "length bs = 4" and "length cs = 8"
    and "0x72 \<le> drop_bit 24 version \<and> drop_bit 24 version \<le> 0x74"
  shows "read_login7 K body = and_then (rd_map (\<lambda>_. read_login_field K body) [0..<9] table)
    (\<lambda>(gs, _). Inr (login_of K psize gs))"
proof -
  note skips = assms(2-4) [THEN skip_append]
  show ?thesis
    unfolding read_login7_def login_of_def
    by (subst (2) assms(1))
      (simp only: rd_bind_apply words_append and_then_simps prod.case skips FIELDS_def
        rd_return_def assms(5) not_True_eq_False if_False simp_thms,
        cases "rd_map (\<lambda>_. read_login_field K body) [0..<9] table", auto)
qed

lemma read_login_bytes:
  assumes "read_login7 K body = Inr l"
  shows "72 \<le> length body"
proof -
  obtain c gs c' where "length body = 36 + length c"
    "rd_map (\<lambda>_. read_login_field K body) [0..<9] c = Inr (gs, c')"
    using assms by (auto simp: read_login7_def and_then_eq_Inr rd_bind_eq_Inr rd_fail_def words_reads skip_reads split: if_splits)
  with table_bytes [OF this(2)] show ?thesis by simp
qed

end

subsection \<open>What a login carries across\<close>

definition login_strings :: "login7 \<Rightarrow> str list" where
  "login_strings l =
     [l7_hostname l, login_user (l7_login l), login_password (l7_login l), l7_app_name l,
      l7_server_name l, l7_library l, l7_language l, l7_database l]"

definition login_fits :: "login7 \<Rightarrow> bool" where
  "login_fits l \<longleftrightarrow> list_all is_str (login_strings l) \<and>
     94 + 2 * sum_list (map utf16_units (login_strings l)) < 65536"

context codec
begin

lemma login_reads_back:
  assumes "login_fits l"
  shows "read_login7 K (encode_login7 K pid l) = Inr l"
proof -
  define fs where "fs = login_fields K l"
  obtain len tr where body: "encode_login7 K pid l =
      login_message len (l7_packet_size l) pid fs (tr @ concat fs)" and tr: "length tr = 22"
    using encode_login7_message unfolding fs_def by blast
  define pre where "pre = login_message len (l7_packet_size l) pid fs tr"
  have whole: "encode_login7 K pid l = pre @ concat fs @ []"
    by (simp add: body pre_def login_message_def)
  have fs: "length fs = 9" "list_all (\<lambda>f. even (length f)) fs"
    by (simp_all add: fs_def login_fields_def utf16_length)
  have "length pre = 94" by (simp add: pre_def login_message_def tr fs)
  moreover have "length pre + length (concat fs) < 65536"
    using assms calculation
    by (simp add: fs_def login_fields_def login_fits_def login_strings_def utf16_length)
  ultimately have "rd_map (\<lambda>_. read_login_field K (encode_login7 K pid l)) [0..<9]
      (field_entries 94 fs @ tr @ concat fs) = Inr (fs, tr @ concat fs)"
    using read_fields [OF whole, of "[0..<9]" "tr @ concat fs"] fs by simp
  with read_login_message [OF body [unfolded login_message_def]] show ?thesis
    using assms
    by (simp add: login_of_def fs_def login_fields_def login_fits_def login_strings_def utf16_lossy_round)
qed

end

subsection \<open>Properties\<close>

text \<open>C21: A login reads back as it was written, the password revealed, whatever the process that
  wrote it: every text of the message and the packet size, as long as the texts fit what the
  table's sixteen-bit offsets reach.\<close>

theorem login_round_trip:
  assumes "codec K" and "login_fits l"
  shows "read_login7 K (encode_login7 K pid l) = Inr l"
  using assms by (rule codec.login_reads_back)

theorem login_round_trip_witness:
  "read_login7 reference (encode_login7 reference 4711
     (new_login7 \<lparr>login_user = lit ''xmip'', login_password = lit ''secret''\<rparr> (lit ''orders''))) =
   Inr (new_login7 \<lparr>login_user = lit ''xmip'', login_password = lit ''secret''\<rparr> (lit ''orders''))"
  by (rule login_round_trip)
    (simp_all add: reference_laws login_fits_def login_strings_def new_login7_def)

text \<open>The password is obscured so that the other side can reveal it, byte by byte, and no two
  passwords look the same on the wire; the byte of \<open>a\<close> is the documented \<open>0xB3\<close>.\<close>

lemma password_revealed:
  "reveal (obscure bs) = bs \<and> obscure (reveal bs) = bs
   \<and> (obscure bs = obscure cs \<longleftrightarrow> bs = cs) \<and> obscure [0x61, 0] = [0xB3, 0xA5]"
proof (intro conjI)
  show "obscure bs = obscure cs \<longleftrightarrow> bs = cs" by (metis reveal_obscure)
  show "obscure [0x61, 0] = [0xB3, 0xA5]" by code_simp
qed simp_all

text \<open>A version outside TDS 7.2 to 7.4 is refused, naming it, whatever follows it in the
  message.\<close>

lemma login_version_refused:
  assumes "cursor K" and "\<not> (0x72 \<le> drop_bit 24 version \<and> drop_bit 24 version \<le> 0x74)"
  shows "read_login7 K (le_bytes 4 (len :: 32 word) @ le_bytes 4 version @ rest) =
    Inl (Protocol (lit ''TDS '' @ hex010 version @ lit '' is not 7.2 to 7.4''))"
  using assms(2) by (simp add: read_login7_def rd_simps cursor.words_append [OF assms(1)])

text \<open>C38: A login is read as the nine fields its table names, its packet size and nothing else: of a message of at
  least 72 bytes and a TDS version of 7.2 to 7.4, each field is the bytes at its offset, and the
  login is taken exactly when all nine lie within the message, wherever in it they are. The last
  22 bytes of the fixed part of 94 that the writer emits are not looked for, so a message
  of 72 bytes is taken if its fields lie within it, which the documentation says is refused;
  a shorter one is refused.\<close>

theorem login_is_its_fields:
  assumes "cursor K" and "0x72 \<le> drop_bit 24 version" and "drop_bit 24 version \<le> 0x74"
    and "length skipped = 24" and "length es = 9"
    and "body = le_bytes 4 (len :: 32 word) @ le_bytes 4 (version :: 32 word) @ le_bytes 4 psize @ skipped
      @ concat (map (\<lambda>(offset, chars). le_bytes 2 (offset :: 16 word) @ le_bytes 2 (chars :: 16 word)) es) @ tail"
  shows "length body = 72 + length tail \<and>
    read_login7 K body =
      (if \<forall>(offset, chars) \<in> set es. unat offset + 2 * unat chars \<le> length body then
         let field = (\<lambda>i. take (2 * unat (snd (es ! i))) (drop (unat (fst (es ! i))) body))
         in Inr \<lparr>
           l7_login = \<lparr>login_user = utf16_decode_lossy K (field 1),
             login_password = utf16_decode_lossy K (reveal (field 2))\<rparr>,
           l7_database = utf16_decode_lossy K (field 8),
           l7_hostname = utf16_decode_lossy K (field 0),
           l7_app_name = utf16_decode_lossy K (field 3),
           l7_server_name = utf16_decode_lossy K (field 4),
           l7_library = utf16_decode_lossy K (field 6),
           l7_language = utf16_decode_lossy K (field 7),
           l7_packet_size = psize\<rparr>
       else Inl (Protocol (lit ''a login field that points past the message''))) \<and>
    (length shorter < 72 \<longrightarrow> (\<exists>e. read_login7 K shorter = Inl e))"
proof (intro conjI impI)
  note cursor = assms(1)
  have table: "concat (map (\<lambda>(offset, chars). le_bytes 2 offset @ le_bytes 2 chars) es) = concat (map entry_of es)"
    by (simp add: entry_of_def)
  have "length (concat (map entry_of xs)) = 4 * length xs" for xs
    by (induction xs) (auto simp: entry_of_def)
  then show "length body = 72 + length tail"
    using assms(4,5) by (simp only: assms(6) table) simp
  have "body = le_bytes 4 len @ le_bytes 4 version @ le_bytes 4 psize
      @ take 12 skipped @ take 4 (drop 12 skipped) @ drop 16 skipped @ concat (map entry_of es) @ tail"
    by (simp add: assms(6) table flip: append_assoc take_add)
  from cursor.read_login_message [OF cursor this]
  have "read_login7 K body = and_then (fields_of body es) (\<lambda>gs. Inr (login_of K psize gs))"
    using cursor.read_table [OF cursor, of "[0..<9]" es body tail] assms(2-5)
    by (cases "fields_of body es") simp_all
  then show "read_login7 K body = (if \<forall>(offset, chars) \<in> set es. unat offset + 2 * unat chars \<le> length body then
      let field = (\<lambda>i. take (2 * unat (snd (es ! i))) (drop (unat (fst (es ! i))) body))
      in Inr \<lparr>
           l7_login = \<lparr>login_user = utf16_decode_lossy K (field 1),
             login_password = utf16_decode_lossy K (reveal (field 2))\<rparr>,
           l7_database = utf16_decode_lossy K (field 8),
           l7_hostname = utf16_decode_lossy K (field 0),
           l7_app_name = utf16_decode_lossy K (field 3),
           l7_server_name = utf16_decode_lossy K (field 4),
           l7_library = utf16_decode_lossy K (field 6),
           l7_language = utf16_decode_lossy K (field 7),
           l7_packet_size = psize\<rparr>
       else Inl (Protocol (lit ''a login field that points past the message'')))"
    using assms(5) by (simp add: fields_of_cases login_of_def split_def)
  show "\<exists>e. read_login7 K shorter = Inl e" if "length shorter < 72"
    using cursor.read_login_bytes [OF cursor, of shorter] that by (cases "read_login7 K shorter") auto
qed

text \<open>A message of 72 bytes whose user is its first two bytes, and its other fields empty.\<close>

theorem login_is_its_fields_witness:
  "length (le_bytes 4 (72 :: 32 word) @ le_bytes 4 TDS_7_4 @ le_bytes 4 (4096 :: 32 word) @ replicate 24 0
      @ concat (map (\<lambda>(offset, chars). le_bytes 2 (offset :: 16 word) @ le_bytes 2 (chars :: 16 word))
          ((0, 0) # (0, 1) # replicate 7 (0, 0))) @ []) = 72 \<and>
   (\<exists>l. read_login7 reference (le_bytes 4 (72 :: 32 word) @ le_bytes 4 TDS_7_4 @ le_bytes 4 (4096 :: 32 word)
      @ replicate 24 0 @ concat (map (\<lambda>(offset, chars). le_bytes 2 (offset :: 16 word) @ le_bytes 2 (chars :: 16 word))
          ((0, 0) # (0, 1) # replicate 7 (0, 0))) @ []) = Inr l \<and>
      login_user (l7_login l) = utf16_decode_lossy reference [72, 0] \<and> l7_packet_size l = 4096)"
proof -
  define body where "body = le_bytes 4 (72 :: 32 word) @ le_bytes 4 TDS_7_4 @ le_bytes 4 (4096 :: 32 word)
    @ replicate 24 0 @ concat (map (\<lambda>(offset, chars). le_bytes 2 (offset :: 16 word) @ le_bytes 2 (chars :: 16 word))
        ((0, 0) # (0, 1) # replicate 7 (0, 0))) @ []"
  have front: "take 2 body = [72, 0]"
    by (simp add: body_def le_bytes_expand)
  have version: "0x72 \<le> drop_bit 24 TDS_7_4" "drop_bit 24 TDS_7_4 \<le> 0x74"
    by simp_all
  from login_is_its_fields [OF reference_laws(1) version _ _ body_def]
  show ?thesis unfolding body_def [symmetric] by (simp add: front)
qed

end
