(* ===== verification/Client.thy ===== *)
theory Client
  imports Token Prelogin Batch Login
begin

text \<open>
  \<^verbatim>\<open>src/client.rs\<close>: the client's side of one connection. What the server says is the
  reader's bytes, what the client says is the writer's; opening and closing the socket are the
  operating system's and come in as their results. \<open>answer_columns\<close> and its neighbours say
  what a batch comes back with, from the tokens of its answer, without the loop.
\<close>

record query_result =
  qr_columns :: "str list"
  qr_rows :: "str option list list"
  qr_rows_affected :: "64 word"

definition default_result :: query_result where
  "default_result = \<lparr>qr_columns = [], qr_rows = [], qr_rows_affected = 0\<rparr>"

record client =
  cl_reader :: reader
  cl_writer :: writer
  cl_packet_size :: "16 word"
  cl_program :: str

subsection \<open>Errors of the server\<close>

definition sql_error :: "sql_message \<Rightarrow> terror" where
  "sql_error m =
     (let s = lit ''the server answered '' @ dec_int (sint (msg_number m)) @ lit '': '' @ msg_text m
      in if sint (msg_number m) \<in> {- 2, 233, 1204, 1205, 1222, 8645, 8651, 10053, 10054, 10060,
              40197, 40501, 40613, 49918, 49919, 49920}
         then Retryable s else Permanent s)"

subsection \<open>Messages out and in\<close>

definition client_write ::
    "'z externals_scheme \<Rightarrow> byte \<Rightarrow> byte list \<Rightarrow> (client, unit) act" where
  "client_write K kind payload c =
     (case write_message K kind payload (cl_packet_size c) (cl_writer c) of
        (r, w) \<Rightarrow> (r, c\<lparr>cl_writer := w\<rparr>))"

definition client_read :: "'z externals_scheme \<Rightarrow> (client, byte list) act" where
  "client_read K c =
     (case read_message K (cl_reader c) of
        (Inl e, r) \<Rightarrow> (Inl e, c\<lparr>cl_reader := r\<rparr>)
      | (Inr None, r) \<Rightarrow>
          (Inl (Protocol (lit ''the server closed mid-conversation'')), c\<lparr>cl_reader := r\<rparr>)
      | (Inr (Some (kind, body)), r) \<Rightarrow>
          (if kind = TABULAR_RESULT then Inr body
           else Inl (Protocol (lit ''packet type '' @ hex04 kind @ lit '' is not a server's answer'')),
           c\<lparr>cl_reader := r\<rparr>))"

subsection \<open>Logging in\<close>

text \<open>The loop's variables: the program, the packet size, and whether the login is acknowledged.\<close>

definition login_step ::
    "token \<Rightarrow> str \<times> 16 word \<times> bool \<Rightarrow> terror + str \<times> 16 word \<times> bool" where
  "login_step t = (\<lambda>(program, psize, acknowledged). case t of
       LoginAck _ program \<Rightarrow> Inr (program, psize, True)
     | EnvChange kind new _ \<Rightarrow>
         if kind = ENV_PACKET_SIZE then
           (case parse_u16 new of
              Some n \<Rightarrow> Inr (program, clamp_size (of_nat n), acknowledged)
            | None \<Rightarrow> Inr (program, psize, acknowledged))
         else Inr (program, psize, acknowledged)
     | Error m \<Rightarrow> Inl (sql_error m)
     | _ \<Rightarrow> Inr (program, psize, acknowledged))"

text \<open>\<^verbatim>\<open>Client::connect\<close> once the socket is open; \<open>pid\<close> is the process.\<close>

definition connect_on ::
    "'z externals_scheme \<Rightarrow> 32 word \<Rightarrow> str \<Rightarrow> login \<Rightarrow> (client, unit) act" where
  "connect_on K pid database l =
     act_bind (client_write K PRELOGIN (encode_prelogin default_prelogin)) (\<lambda>_.
     act_bind (client_read K) (\<lambda>body.
     act_bind (act_lift (read_prelogin K body)) (\<lambda>answer.
       if pl_encryption answer \<noteq> ENCRYPT_NOT_SUP \<and> pl_encryption answer \<noteq> ENCRYPT_OFF then
         act_fail (Permanent (lit ''the server requires encryption, and TLS is `xmip-core-library-tls`'s (ADR-0033)''))
       else
         act_bind (client_write K LOGIN7 (encode_login7 K pid (new_login7 l database))) (\<lambda>_.
         act_bind (client_read K) (\<lambda>body.
         act_bind (\<lambda>c. (each_token K login_step (cl_program c, cl_packet_size c, False) body, c))
           (\<lambda>(program, psize, acknowledged).
         act_bind (\<lambda>c. (Inr (), c\<lparr>cl_program := program, cl_packet_size := psize\<rparr>)) (\<lambda>_.
           if \<not> acknowledged then
             act_fail (Protocol (lit ''the server did not acknowledge the login''))
           else act_return ())))))))"

definition new_client :: "reader \<Rightarrow> writer \<Rightarrow> client" where
  "new_client r w = \<lparr>cl_reader = r, cl_writer = w, cl_packet_size = DEFAULT_PACKET_SIZE, cl_program = []\<rparr>"

text \<open>\<open>opened\<close> is what connecting and splitting the socket gave.\<close>

definition connect ::
    "'z externals_scheme \<Rightarrow> 32 word \<Rightarrow> terror + reader \<times> writer \<Rightarrow> str \<Rightarrow> login \<Rightarrow> terror + client" where
  "connect K pid opened database l =
     and_then opened (\<lambda>(r, w).
       case connect_on K pid database l (new_client r w) of
         (Inl e, _) \<Rightarrow> Inl e
       | (Inr _, c) \<Rightarrow> Inr c)"

subsection \<open>Batches\<close>

definition query_step ::
    "token \<Rightarrow> query_result \<times> terror option \<Rightarrow> terror + query_result \<times> terror option" where
  "query_step t = (\<lambda>(result, failed). Inr (case t of
       ColMetadata columns \<Rightarrow> (result\<lparr>qr_columns := map col_name columns\<rparr>, failed)
     | Row vs \<Rightarrow> (result\<lparr>qr_rows := qr_rows result @ [vs]\<rparr>, failed)
     | Error m \<Rightarrow> (result, Some (sql_error m))
     | Done status rows \<Rightarrow>
         (if status AND DONE_COUNT \<noteq> 0 then (result\<lparr>qr_rows_affected := rows\<rparr>, failed)
          else (result, failed))
     | DoneProc status rows \<Rightarrow>
         (if status AND DONE_COUNT \<noteq> 0 then (result\<lparr>qr_rows_affected := rows\<rparr>, failed)
          else (result, failed))
     | DoneInProc status rows \<Rightarrow>
         (if status AND DONE_COUNT \<noteq> 0 then (result\<lparr>qr_rows_affected := rows\<rparr>, failed)
          else (result, failed))
     | _ \<Rightarrow> (result, failed)))"

definition query :: "'z externals_scheme \<Rightarrow> str \<Rightarrow> (client, query_result) act" where
  "query K sql =
     act_bind (client_write K SQL_BATCH (encode_batch K sql)) (\<lambda>_.
     act_bind (client_read K) (\<lambda>body.
     act_bind (act_lift (each_token K query_step (default_result, None) body)) (\<lambda>(result, failed).
       case failed of None \<Rightarrow> act_return result | Some e \<Rightarrow> act_fail e)))"

definition execute :: "'z externals_scheme \<Rightarrow> str \<Rightarrow> (client, 64 word) act" where
  "execute K sql = act_bind (query K sql) (\<lambda>result. act_return (qr_rows_affected result))"

text \<open>\<open>shut\<close> is what shutting the socket down gave.\<close>

text \<open>\<open>alive\<close> is \<^verbatim>\<open>transport::pool::alive\<close>, which asks the socket.\<close>

definition usable :: "(writer \<Rightarrow> bool) \<Rightarrow> client \<Rightarrow> bool" where
  "usable alive c = alive (cl_writer c)"

definition close_client :: "io_error + unit \<Rightarrow> terror + unit" where
  "close_client shut = (case shut of
       Inr _ \<Rightarrow> Inr ()
     | Inl NotConnected \<Rightarrow> Inr ()
     | Inl e \<Rightarrow> Inl (Classified (lit ''closing the connection'') e))"

subsection \<open>What an answer says\<close>

definition declared_of :: "token \<Rightarrow> str list option" where
  "declared_of t = (case t of ColMetadata cs \<Rightarrow> Some (map col_name cs) | _ \<Rightarrow> None)"

definition row_of :: "token \<Rightarrow> str option list option" where
  "row_of t = (case t of Row vs \<Rightarrow> Some vs | _ \<Rightarrow> None)"

definition error_of :: "token \<Rightarrow> terror option" where
  "error_of t = (case t of Error m \<Rightarrow> Some (sql_error m) | _ \<Rightarrow> None)"

definition count_of :: "token \<Rightarrow> 64 word option" where
  "count_of t = (case t of
       Done status rows \<Rightarrow> if status AND DONE_COUNT \<noteq> 0 then Some rows else None
     | DoneProc status rows \<Rightarrow> if status AND DONE_COUNT \<noteq> 0 then Some rows else None
     | DoneInProc status rows \<Rightarrow> if status AND DONE_COUNT \<noteq> 0 then Some rows else None
     | _ \<Rightarrow> None)"

definition program_of :: "token \<Rightarrow> str option" where
  "program_of t = (case t of LoginAck _ program \<Rightarrow> Some program | _ \<Rightarrow> None)"

definition size_of_token :: "token \<Rightarrow> 16 word option" where
  "size_of_token t = (case t of
       EnvChange kind new _ \<Rightarrow>
         if kind = ENV_PACKET_SIZE then map_option (\<lambda>n. clamp_size (of_nat n)) (parse_u16 new)
         else None
     | _ \<Rightarrow> None)"

text \<open>The last of what \<open>f\<close> finds, or \<open>d\<close>.\<close>

definition last_of :: "'a \<Rightarrow> (token \<Rightarrow> 'a option) \<Rightarrow> token list \<Rightarrow> 'a" where
  "last_of d f ts = last (d # List.map_filter f ts)"

definition batch_answer :: "token list \<Rightarrow> terror + query_result" where
  "batch_answer ts = (case last_of None (map_option Some \<circ> error_of) ts of
       Some e \<Rightarrow> Inl e
     | None \<Rightarrow> Inr \<lparr>
         qr_columns = last_of [] declared_of ts,
         qr_rows = List.map_filter row_of ts,
         qr_rows_affected = last_of 0 count_of ts\<rparr>)"

definition login_answer :: "str \<Rightarrow> 16 word \<Rightarrow> token list \<Rightarrow> terror + str \<times> 16 word \<times> bool" where
  "login_answer program psize ts = (case List.map_filter error_of ts of
       e # _ \<Rightarrow> Inl e
     | [] \<Rightarrow> Inr (last_of program program_of ts, last_of psize size_of_token ts,
              List.map_filter program_of ts \<noteq> []))"

lemma last_of_simps [simp]:
  "last_of d f [] = d"
  "last_of d f (t # ts) = last_of (case f t of Some x \<Rightarrow> x | None \<Rightarrow> d) f ts"
  by (simp_all add: last_of_def List.map_filter_simps split: option.split)

lemmas token_views = declared_of_def row_of_def error_of_def count_of_def program_of_def
  size_of_token_def

lemma query_step_views:
  "query_step t (result, failed) = Inr (
     \<lparr>qr_columns = last_of (qr_columns result) declared_of [t],
      qr_rows = qr_rows result @ List.map_filter row_of [t],
      qr_rows_affected = last_of (qr_rows_affected result) count_of [t]\<rparr>,
     last_of failed (map_option Some \<circ> error_of) [t])"
  by (cases t) (simp_all add: query_step_def token_views List.map_filter_simps)

lemma fold_query:
  "fold_tokens query_step ts (result, failed) = Inr (
     \<lparr>qr_columns = last_of (qr_columns result) declared_of ts,
      qr_rows = qr_rows result @ List.map_filter row_of ts,
      qr_rows_affected = last_of (qr_rows_affected result) count_of ts\<rparr>,
     last_of failed (map_option Some \<circ> error_of) ts)"
proof (induction ts arbitrary: result failed)
  case (Cons t ts)
  show ?case
    by (simp add: query_step_views Cons List.map_filter_simps split: option.split)
qed (simp add: List.map_filter_simps)

lemma login_step_views:
  "login_step t (program, psize, acknowledged) = (case error_of t of
       Some e \<Rightarrow> Inl e
     | None \<Rightarrow> Inr (last_of program program_of [t], last_of psize size_of_token [t],
         acknowledged \<or> program_of t \<noteq> None))"
  by (cases t) (simp_all add: login_step_def token_views split: option.split)

lemma fold_login:
  "fold_tokens login_step ts (program, psize, acknowledged) =
     and_then (login_answer program psize ts)
       (\<lambda>(program, psize, a). Inr (program, psize, acknowledged \<or> a))"
proof (induction ts arbitrary: program psize acknowledged)
  case (Cons t ts)
  show ?case
    by (simp add: login_step_views Cons login_answer_def List.map_filter_simps
        split: list.split option.split)
qed (simp add: login_answer_def List.map_filter_simps)

subsection \<open>One message out, one message in\<close>

lemma client_write_sound:
  "sound (cl_writer c) \<Longrightarrow> client_write K kind payload c =
     (Inr (), c\<lparr>cl_writer := (cl_writer c)
       \<lparr>sent := sent (cl_writer c) @ packets K kind payload (cl_packet_size c)\<rparr>\<rparr>)"
  by (simp add: client_write_def write_message_sound)

lemma client_read_message:
  assumes "byte_writer K" and "body_ceiling K" and "length body \<le> max_body K"
    and "incoming (cl_reader c) = packets K TABULAR_RESULT body n @ rest"
  shows "client_read K c = (Inr body, c\<lparr>cl_reader := (cl_reader c)\<lparr>incoming := rest\<rparr>\<rparr>)"
proof -
  have "cl_reader c = \<lparr>incoming = packets K TABULAR_RESULT body n @ rest, ending = ending (cl_reader c)\<rparr>"
    using assms(4) by (cases "cl_reader c") simp
  moreover have "is_packet_type TABULAR_RESULT" by (simp add: is_packet_type_def)
  ultimately show ?thesis
    using packets_read_back [OF assms(1,2), of TABULAR_RESULT body n rest "ending (cl_reader c)"]
      assms(3) by (simp add: client_read_def)
qed

lemma client_read_one:
  assumes "body_ceiling K" and "client_read K c = (Inr body, c')"
  shows "\<exists>bs. message (unat MAX_PACKET_SIZE) TABULAR_RESULT bs body \<and>
    incoming (cl_reader c) = bs @ incoming (cl_reader c') \<and> cl_writer c' = cl_writer c"
proof -
  obtain r where "read_message K (cl_reader c) = (Inr (Some (TABULAR_RESULT, body)), r)"
    and "c' = c\<lparr>cl_reader := r\<rparr>"
    using assms(2) by (auto simp: client_read_def split: prod.splits sum.splits option.splits if_splits)
  then show ?thesis by (auto simp: read_message_exact [OF assms(1)])
qed

lemma client_write_prefix:
  assumes "client_write K kind payload c = (r, c')"
  shows "cl_reader c' = cl_reader c \<and> cl_packet_size c' = cl_packet_size c \<and>
    (\<exists>n. sent (cl_writer c') =
       sent (cl_writer c) @ take n (packets K kind payload (cl_packet_size c)))"
proof -
  obtain w where w: "write_message K kind payload (cl_packet_size c) (cl_writer c) = (r, w)"
    and c': "c' = c\<lparr>cl_writer := w\<rparr>"
    using assms by (auto simp: client_write_def split: prod.splits)
  have "flush v = (q, u) \<Longrightarrow> u = v" for v q u
    by (auto simp: flush_def split: option.splits)
  with w have "\<exists>q. write_all (packets K kind payload (cl_packet_size c)) (cl_writer c) = (q, w)"
    by (auto simp: write_message_def split: prod.splits sum.splits)
  then show ?thesis using write_all_prefix c' by fastforce
qed

lemma client_write_whole:
  assumes "client_write K kind payload c = (Inr (), c')"
  shows "cl_reader c' = cl_reader c \<and>
    sent (cl_writer c') = sent (cl_writer c) @ packets K kind payload (cl_packet_size c)"
  using assms
  by (auto simp: client_write_def write_message_def write_all_def flush_def
      split: prod.splits sum.splits option.splits if_splits)

text \<open>A batch against a server that answers with these tokens.\<close>

lemma query_answered:
  assumes "codec K" and "body_ceiling K" and "sound (cl_writer c)" and "tokens_fit K [] ts"
    and "length (encode_tokens K ts) \<le> max_body K"
    and "incoming (cl_reader c) = packets K TABULAR_RESULT (encode_tokens K ts) n @ rest"
  shows "query K sql c = (batch_answer (tokens_shown K [] ts),
    c\<lparr>cl_reader := (cl_reader c)\<lparr>incoming := rest\<rparr>,
      cl_writer := (cl_writer c)\<lparr>sent := sent (cl_writer c)
        @ packets K SQL_BATCH (encode_batch K sql) (cl_packet_size c)\<rparr>\<rparr>)"
proof -
  define d where "d = c\<lparr>cl_writer := (cl_writer c)\<lparr>sent := sent (cl_writer c)
    @ packets K SQL_BATCH (encode_batch K sql) (cl_packet_size c)\<rparr>\<rparr>"
  have out: "client_write K SQL_BATCH (encode_batch K sql) c = (Inr (), d)"
    unfolding d_def by (rule client_write_sound) (rule assms(3))
  have reply: "client_read K d =
      (Inr (encode_tokens K ts), d\<lparr>cl_reader := (cl_reader d)\<lparr>incoming := rest\<rparr>\<rparr>)"
    using client_read_message [OF codec.axioms(2) [OF assms(1)] assms(2,5)] assms(6)
    by (simp add: d_def)
  have loop: "each_token K query_step (default_result, None) (encode_tokens K ts) =
      fold_tokens query_step (tokens_shown K [] ts) (default_result, None)"
    using assms(1,4) by (rule codec.each_token_written)
  have "query K sql c = (batch_answer (tokens_shown K [] ts),
      d\<lparr>cl_reader := (cl_reader d)\<lparr>incoming := rest\<rparr>\<rparr>)"
    using out reply loop
    by (simp add: query_def act_bind_def fold_query batch_answer_def default_result_def
        split: option.split)
  then show ?thesis by (simp add: d_def)
qed

text \<open>The login against a server that answers with these tokens.\<close>

lemma connect_on_answered:
  assumes "codec K" and "body_ceiling K" and "sound w" and "tokens_fit K [] ts"
    and "length (encode_tokens K ts) \<le> max_body K"
    and "length (encode_prelogin p) \<le> max_body K" and "read_prelogin K (encode_prelogin p) = Inr p"
    and "pl_encryption p \<in> {ENCRYPT_NOT_SUP, ENCRYPT_OFF}"
    and "incoming r = packets K TABULAR_RESULT (encode_prelogin p) n
      @ packets K TABULAR_RESULT (encode_tokens K ts) m @ rest"
  shows "connect_on K pid database l (new_client r w) =
    (let c = new_client (r\<lparr>incoming := rest\<rparr>) (w\<lparr>sent := sent w
              @ packets K PRELOGIN (encode_prelogin default_prelogin) DEFAULT_PACKET_SIZE
              @ packets K LOGIN7 (encode_login7 K pid (new_login7 l database)) DEFAULT_PACKET_SIZE\<rparr>)
     in case login_answer [] DEFAULT_PACKET_SIZE (tokens_shown K [] ts) of
          Inl e \<Rightarrow> (Inl e, c)
        | Inr (program, psize, acknowledged) \<Rightarrow>
            (if acknowledged then Inr ()
             else Inl (Protocol (lit ''the server did not acknowledge the login'')),
             c\<lparr>cl_program := program, cl_packet_size := psize\<rparr>))"
proof -
  note bw = codec.axioms(2) [OF assms(1)]
  define rest1 where "rest1 = packets K TABULAR_RESULT (encode_tokens K ts) m @ rest"
  define w1 where "w1 = w\<lparr>sent := sent w
    @ packets K PRELOGIN (encode_prelogin default_prelogin) DEFAULT_PACKET_SIZE\<rparr>"
  define w2 where "w2 = w1\<lparr>sent := sent w1
    @ packets K LOGIN7 (encode_login7 K pid (new_login7 l database)) DEFAULT_PACKET_SIZE\<rparr>"
  define c1 where "c1 = new_client r w1"
  define c2 where "c2 = new_client (r\<lparr>incoming := rest1\<rparr>) w1"
  define c3 where "c3 = new_client (r\<lparr>incoming := rest1\<rparr>) w2"
  define c4 where "c4 = new_client (r\<lparr>incoming := rest\<rparr>) w2"
  have out1: "client_write K PRELOGIN (encode_prelogin default_prelogin) (new_client r w) = (Inr (), c1)"
    using client_write_sound [of "new_client r w"] assms(3)
    by (simp add: new_client_def c1_def w1_def)
  have in1: "client_read K c1 = (Inr (encode_prelogin p), c2)"
    using client_read_message [OF bw assms(2,6), of c1 n rest1] assms(9)
    by (simp add: c1_def c2_def new_client_def rest1_def)
  have out2: "client_write K LOGIN7 (encode_login7 K pid (new_login7 l database)) c2 = (Inr (), c3)"
    using client_write_sound [of c2] assms(3)
    by (simp add: c2_def c3_def new_client_def w2_def w1_def)
  have in2: "client_read K c3 = (Inr (encode_tokens K ts), c4)"
    using client_read_message [OF bw assms(2,5), of c3 m rest]
    by (simp add: c3_def c4_def new_client_def rest1_def)
  have "each_token K login_step (cl_program c4, cl_packet_size c4, False) (encode_tokens K ts) =
      login_answer [] DEFAULT_PACKET_SIZE (tokens_shown K [] ts)"
    by (simp add: codec.each_token_written [OF assms(1,4)] fold_login c4_def new_client_def)
      (cases "login_answer [] 4096 (tokens_shown K [] ts)", auto)
  then have "connect_on K pid database l (new_client r w) =
      (case login_answer [] DEFAULT_PACKET_SIZE (tokens_shown K [] ts) of
         Inl e \<Rightarrow> (Inl e, c4)
       | Inr (program, psize, acknowledged) \<Rightarrow>
           (if acknowledged then Inr ()
            else Inl (Protocol (lit ''the server did not acknowledge the login'')),
            c4\<lparr>cl_program := program, cl_packet_size := psize\<rparr>))"
    using out1 in1 out2 in2 assms(7,8)
    by (auto simp: connect_on_def act_bind_def split: sum.split)
  moreover have "c4 = new_client (r\<lparr>incoming := rest\<rparr>) (w\<lparr>sent := sent w
      @ packets K PRELOGIN (encode_prelogin default_prelogin) DEFAULT_PACKET_SIZE
      @ packets K LOGIN7 (encode_login7 K pid (new_login7 l database)) DEFAULT_PACKET_SIZE\<rparr>)"
    by (simp add: c4_def w2_def w1_def)
  ultimately show ?thesis by (simp only: Let_def)
qed

lemma connect_answered:
  assumes "codec K" and "body_ceiling K" and "sound w" and "tokens_fit K [] ts"
    and "length (encode_tokens K ts) \<le> max_body K"
    and "length (encode_prelogin p) \<le> max_body K" and "read_prelogin K (encode_prelogin p) = Inr p"
    and "pl_encryption p \<in> {ENCRYPT_NOT_SUP, ENCRYPT_OFF}"
    and "incoming r = packets K TABULAR_RESULT (encode_prelogin p) n
      @ packets K TABULAR_RESULT (encode_tokens K ts) m @ rest"
  shows "connect K pid (Inr (r, w)) database l =
    and_then (login_answer [] DEFAULT_PACKET_SIZE (tokens_shown K [] ts))
      (\<lambda>(program, psize, acknowledged).
        if acknowledged then
          Inr \<lparr>cl_reader = r\<lparr>incoming := rest\<rparr>,
            cl_writer = w\<lparr>sent := sent w
              @ packets K PRELOGIN (encode_prelogin default_prelogin) DEFAULT_PACKET_SIZE
              @ packets K LOGIN7 (encode_login7 K pid (new_login7 l database)) DEFAULT_PACKET_SIZE\<rparr>,
            cl_packet_size = psize, cl_program = program\<rparr>
        else Inl (Protocol (lit ''the server did not acknowledge the login'')))"
  using connect_on_answered [OF assms, of pid database l]
  by (cases "login_answer [] DEFAULT_PACKET_SIZE (tokens_shown K [] ts)")
    (auto simp: connect_def new_client_def Let_def)

lemma login_step_size:
  assumes "512 \<le> unat (fst (snd s))" and "unat (fst (snd s)) \<le> 32767" and "login_step t s = Inr s'"
  shows "512 \<le> unat (fst (snd s')) \<and> unat (fst (snd s')) \<le> 32767"
proof -
  have "512 \<le> unat (clamp_size n)" "unat (clamp_size n) \<le> 32767" for n
    using byte_writer.clamp_size_bounds [OF reference_laws(2), of n] by simp_all
  with assms show ?thesis
    by (cases s) (auto simp: login_step_views size_of_token_def split: option.splits token.splits if_splits)
qed

lemma clamp_size_within: "512 \<le> unat n \<Longrightarrow> unat n \<le> 32767 \<Longrightarrow> clamp_size n = n"
  by (simp add: clamp_size_def min_absorb2 max_absorb2 word_le_nat_alt)

text \<open>What a batch says, whatever becomes of it: its packets, or as much of them as could be
  written. The size of the packets stays.\<close>

lemma batch_says:
  "cl_packet_size (snd (query K sql c)) = cl_packet_size c \<and>
    (\<exists>n. sent (cl_writer (snd (query K sql c))) = sent (cl_writer c)
        @ take n (packets K SQL_BATCH (encode_batch K sql) (cl_packet_size c)) \<and>
      (sound (cl_writer c) \<longrightarrow> length (packets K SQL_BATCH (encode_batch K sql) (cl_packet_size c)) \<le> n))"
proof -
  let ?bs = "packets K SQL_BATCH (encode_batch K sql) (cl_packet_size c)"
  obtain q d where d: "client_write K SQL_BATCH (encode_batch K sql) c = (q, d)" by fastforce
  obtain n where n: "sent (cl_writer d) = sent (cl_writer c) @ take n ?bs" "cl_packet_size d = cl_packet_size c"
    using client_write_prefix [OF d] by blast
  have read: "cl_writer e = cl_writer d \<and> cl_packet_size e = cl_packet_size d" if "client_read K d = (x, e)" for x e
    using that by (auto simp: client_read_def split: prod.splits sum.splits option.splits)
  have "cl_writer (snd (query K sql c)) = cl_writer d \<and> cl_packet_size (snd (query K sql c)) = cl_packet_size d"
    using d read by (cases q; cases "client_read K d")
      (auto simp: query_def act_bind_def act_lift_def act_fail_def act_return_def split: sum.split option.split)
  moreover have "\<exists>m. sent (cl_writer d) = sent (cl_writer c) @ take m ?bs \<and>
      (sound (cl_writer c) \<longrightarrow> length ?bs \<le> m)"
  proof (cases "sound (cl_writer c)")
    case True
    then have "sent (cl_writer d) = sent (cl_writer c) @ take (length ?bs) ?bs"
      using d client_write_sound [OF True, of K SQL_BATCH "encode_batch K sql"] by auto
    then show ?thesis by blast
  qed (use n(1) in blast)
  ultimately show ?thesis using n(2) by simp
qed

lemma queries_keep_size: "cl_packet_size (fold (\<lambda>sql c. snd (query K sql c)) sqls c) = cl_packet_size c"
  by (induction sqls arbitrary: c) (simp_all add: batch_says)

subsection \<open>Properties\<close>

text \<open>C16: A batch comes back with what the tokens of the answer say, whatever their order: the
  last columns declared, every row in order, the count of the last DONE that counted, or the
  last error; and afterwards nothing of the exchange is left on the connection.\<close>

theorem query_result_of_tokens:
  assumes "codec K" and "body_ceiling K" and "sound (cl_writer c)" and "tokens_fit K [] ts"
    and "length (encode_tokens K ts) \<le> max_body K"
    and "incoming (cl_reader c) = packets K TABULAR_RESULT (encode_tokens K ts) n @ rest"
  shows "query K sql c = (batch_answer (tokens_shown K [] ts),
    c\<lparr>cl_reader := (cl_reader c)\<lparr>incoming := rest\<rparr>,
      cl_writer := (cl_writer c)\<lparr>sent := sent (cl_writer c)
        @ packets K SQL_BATCH (encode_batch K sql) (cl_packet_size c)\<rparr>\<rparr>)"
  using assms by (rule query_answered)

definition quiet_writer :: writer where
  "quiet_writer = \<lparr>sent = [], gives_out = None, flush_error = None\<rparr>"

lemma quiet_writer_sound [simp]: "sound quiet_writer" "sent quiet_writer = []"
  by (simp_all add: sound_def quiet_writer_def)

theorem query_result_of_tokens_witness:
  "fst (query reference (lit ''DELETE FROM inbox'')
     (new_client \<lparr>incoming = packets reference TABULAR_RESULT
         (encode_tokens reference [Info (new_message 5701 0 []), Done DONE_COUNT 3]) 4096 @ [],
       ending = Closed\<rparr> quiet_writer)) =
   Inr \<lparr>qr_columns = [], qr_rows = [], qr_rows_affected = 3\<rparr>"
  by (subst query_result_of_tokens [where n = 4096 and rest = "[]"
        and ts = "[Info (new_message 5701 0 []), Done DONE_COUNT 3]"])
    (simp_all add: reference_laws new_client_def token_fits_def message_fits_def name_fits_def
      new_message_def codec.encode_tokens_bytes [OF reference_laws(4)]
      codec.token_bytes_simps [OF reference_laws(4)] sized_def columns_after_def
      codec.message_body_bytes [OF reference_laws(4)] codec.b_varchar_bytes [OF reference_laws(4)]
      codec.us_varchar_bytes [OF reference_laws(4)] codec.length_counted [OF reference_laws(4)]
      batch_answer_def token_shown_def token_views List.map_filter_simps)

text \<open>C19: A batch that returns took exactly one whole answer off the connection and put exactly
  one batch on it, on any bytes the server may send, so the next batch finds its own answer.\<close>

theorem query_takes_one_answer:
  assumes "body_ceiling K" and "query K sql c = (Inr result, c')"
  shows "(\<exists>bs body. message (unat MAX_PACKET_SIZE) TABULAR_RESULT bs body \<and>
      incoming (cl_reader c) = bs @ incoming (cl_reader c'))
    \<and> sent (cl_writer c') = sent (cl_writer c)
      @ packets K SQL_BATCH (encode_batch K sql) (cl_packet_size c)"
proof -
  obtain d body where d: "client_write K SQL_BATCH (encode_batch K sql) c = (Inr (), d)"
    and "client_read K d = (Inr body, c')"
    using assms(2)
    by (auto simp: query_def act_bind_eq act_lift_def act_return_def act_fail_def
        split: option.splits)
  from client_read_one [OF assms(1) this(2)] client_write_whole [OF d] show ?thesis by auto
qed

theorem query_takes_one_answer_witness:
  "\<exists>c. fst (query reference [] c) = Inr default_result \<and>
     incoming (cl_reader c) = [0x04, 1, 0, 8, 0, 0, 0, 0] \<and>
     sent (cl_writer (snd (query reference [] c))) =
       packets reference SQL_BATCH (encode_batch reference []) 4096"
proof -
  define c where "c = new_client \<lparr>incoming = [0x04, 1, 0, 8, 0, 0, 0, 0], ending = Closed\<rparr> quiet_writer"
  have "packets reference TABULAR_RESULT [] 4096 = [0x04, 1, 0, 8, 0, 0, 0, 0]"
    by (simp add: packets_def clamp_size_def fits_or_def be_bytes_def le_bytes_expand
        byte_writer.packet_bytes [OF reference_laws(2)])
  then obtain c' where q: "query reference [] c = (Inr default_result, c')"
    using query_answered [OF reference_laws(4,5), of c "[]" 4096 "[]" "[]"]
    by (simp add: c_def new_client_def codec.encode_tokens_bytes [OF reference_laws(4)]
        batch_answer_def default_result_def List.map_filter_simps)
  from query_takes_one_answer [OF reference_laws(5) q] have
    "sent (cl_writer c') = packets reference SQL_BATCH (encode_batch reference []) 4096"
    by (simp add: c_def new_client_def)
  with q show ?thesis by (intro exI [of _ c]) (simp add: c_def new_client_def)
qed

text \<open>A server that demands encryption is refused before the login: what was said to it is the
  pre-login and not one byte more, so neither user nor password is.\<close>

lemma encryption_demand_refused:
  assumes "sound (cl_writer c)"
    and "read_message K (cl_reader c) = (Inr (Some (TABULAR_RESULT, body)), r)"
    and "read_prelogin K body = Inr p" and "pl_encryption p \<notin> {ENCRYPT_NOT_SUP, ENCRYPT_OFF}"
  shows "connect_on K pid database l c =
    (Inl (Permanent (lit ''the server requires encryption, and TLS is `xmip-core-library-tls`'s (ADR-0033)'')),
     c\<lparr>cl_reader := r, cl_writer := (cl_writer c)\<lparr>sent := sent (cl_writer c)
       @ packets K PRELOGIN (encode_prelogin default_prelogin) (cl_packet_size c)\<rparr>\<rparr>)"
  using assms
  by (simp add: connect_on_def act_bind_def client_write_sound client_read_def)

text \<open>C12: Whatever the server sends and however the connection fails, more than the pre-login is
  said to it only after it answered a pre-login that does not demand encryption.\<close>

theorem login_only_in_agreed_clear:
  assumes "connect_on K pid database l c = (res, c')"
  shows "(\<exists>n. sent (cl_writer c') = sent (cl_writer c)
      @ take n (packets K PRELOGIN (encode_prelogin default_prelogin) (cl_packet_size c)))
    \<or> (\<exists>body r p. read_message K (cl_reader c) = (Inr (Some (TABULAR_RESULT, body)), r)
        \<and> read_prelogin K body = Inr p \<and> pl_encryption p \<in> {ENCRYPT_NOT_SUP, ENCRYPT_OFF})"
proof -
  obtain q d where d: "client_write K PRELOGIN (encode_prelogin default_prelogin) c = (q, d)"
    by fastforce
  obtain n where first: "cl_reader d = cl_reader c" "sent (cl_writer d) = sent (cl_writer c)
      @ take n (packets K PRELOGIN (encode_prelogin default_prelogin) (cl_packet_size c))"
    using client_write_prefix [OF d] by blast
  have silent: "cl_writer d' = cl_writer d" if "client_read K d = (x, d')" for x d'
    using that by (auto simp: client_read_def split: prod.splits sum.splits option.splits)
  show ?thesis
  proof (cases "\<exists>body d' p. client_read K d = (Inr body, d') \<and> read_prelogin K body = Inr p
      \<and> pl_encryption p \<in> {ENCRYPT_NOT_SUP, ENCRYPT_OFF}")
    case True
    then obtain body r p where "read_message K (cl_reader d) = (Inr (Some (TABULAR_RESULT, body)), r)"
      "read_prelogin K body = Inr p" "pl_encryption p \<in> {ENCRYPT_NOT_SUP, ENCRYPT_OFF}"
      by (auto simp: client_read_def split: prod.splits sum.splits option.splits if_splits)
    with first show ?thesis by auto
  next
    case False
    obtain x d' where x: "client_read K d = (x, d')" by fastforce
    have "cl_writer c' = cl_writer d"
      using assms d x silent [OF x] False
      by (cases q; cases x)
        (auto simp: connect_on_def act_bind_def act_lift_def act_fail_def split: sum.splits)
    with first show ?thesis by auto
  qed
qed

theorem login_only_in_agreed_clear_witness:
  "\<exists>n. sent (cl_writer (snd (connect_on reference 1 [] \<lparr>login_user = [], login_password = []\<rparr>
      (new_client \<lparr>incoming = [], ending = Closed\<rparr> quiet_writer)))) =
    take n (packets reference PRELOGIN (encode_prelogin default_prelogin) 4096)"
proof -
  have "read_message reference \<lparr>incoming = [], ending = Closed\<rparr> =
      (Inr None, \<lparr>incoming = [], ending = Closed\<rparr>)"
    by (simp add: read_message_def read_packets.simps [of reference] read1_def)
  then show ?thesis
    using login_only_in_agreed_clear [OF surjective_pairing, of reference 1 "[]"
        "\<lparr>login_user = [], login_password = []\<rparr>"
        "new_client \<lparr>incoming = [], ending = Closed\<rparr> quiet_writer"]
    by (simp add: new_client_def)
qed

text \<open>A server that takes the login, for the witnesses.\<close>

definition greeting :: reader where
  "greeting = \<lparr>incoming = packets reference TABULAR_RESULT (encode_prelogin default_prelogin) 4096
     @ packets reference TABULAR_RESULT (encode_tokens reference [LoginAck TDS_7_4 (lit ''SQL'')]) 4096
     @ [], ending = Closed\<rparr>"

lemma greeting_facts:
  "tokens_fit reference [] [LoginAck TDS_7_4 (lit ''SQL'')]"
  "length (encode_tokens reference [LoginAck TDS_7_4 (lit ''SQL'')]) \<le> max_body reference"
  "length (encode_prelogin default_prelogin) \<le> max_body reference"
  "read_prelogin reference (encode_prelogin default_prelogin) = Inr default_prelogin"
  "pl_encryption default_prelogin \<in> {ENCRYPT_NOT_SUP, ENCRYPT_OFF}"
  "incoming greeting = packets reference TABULAR_RESULT (encode_prelogin default_prelogin) 4096
     @ packets reference TABULAR_RESULT (encode_tokens reference [LoginAck TDS_7_4 (lit ''SQL'')]) 4096
     @ []"
  "login_answer [] DEFAULT_PACKET_SIZE (tokens_shown reference [] [LoginAck TDS_7_4 (lit ''SQL'')]) =
     Inr (lit ''SQL'', 4096, True)"
proof -
  show "read_prelogin reference (encode_prelogin default_prelogin) = Inr default_prelogin"
    by (rule prelogin_reads_back) (simp_all add: reference_laws default_prelogin_def as_bytes_def)
qed (simp_all add: token_fits_def name_fits_def codec.encode_tokens_bytes [OF reference_laws(4)]
    codec.token_bytes_simps [OF reference_laws(4)] sized_def codec.b_varchar_bytes [OF reference_laws(4)]
    codec.length_counted [OF reference_laws(4)] encode_prelogin_bytes default_prelogin_def
    as_bytes_def entry_bytes_def greeting_def login_answer_def token_shown_def token_views
    columns_after_def List.map_filter_simps)

text \<open>C34: Whatever packet size the server named in its answer to the login, a client that is logged
  in agreed on one of 512 to 32767 bytes, and keeps to it: after any statements, it says the next
  one as a message whose packets are each at most that size and as few as carry it, or as
  much of that message as could be written.\<close>

theorem connected_packet_size:
  assumes "codec K" and "connect K pid opened database l = Inr c"
  shows "512 \<le> unat (cl_packet_size c) \<and> unat (cl_packet_size c) \<le> 32767 \<and>
    (let d = fold (\<lambda>sql c. snd (query K sql c)) earlier c; most = unat (cl_packet_size c) in
      cl_packet_size d = cl_packet_size c \<and>
      (\<exists>bs n. message most SQL_BATCH bs (encode_batch K sql) \<and>
        length bs = length (encode_batch K sql) +
          8 * max 1 ((length (encode_batch K sql) + (most - 9)) div (most - 8)) \<and>
        sent (cl_writer (snd (query K sql d))) = sent (cl_writer d) @ take n bs \<and>
        (sound (cl_writer d) \<longrightarrow> length bs \<le> n)))"
proof -
  obtain r w where "(case connect_on K pid database l (new_client r w) of
      (Inl e, _) \<Rightarrow> Inl e | (Inr _, c) \<Rightarrow> Inr c) = Inr c"
    using assms(2) by (auto simp: connect_def and_then_eq_Inr)
  then have on: "connect_on K pid database l (new_client r w) = (Inr (), c)"
    by (auto split: prod.splits sum.splits)
  have size: "cl_packet_size d' = cl_packet_size d" if "client_read K d = (x, d')" for d x d'
    using that by (auto simp: client_read_def split: prod.splits sum.splits option.splits)
  obtain d :: client and program psize a body where
    loop: "each_token K login_step (cl_program d, cl_packet_size d, False) body = Inr (program, psize, a)"
    and c: "cl_packet_size c = psize" and d: "cl_packet_size d = DEFAULT_PACKET_SIZE"
    using on by (auto simp: connect_on_def act_bind_eq act_lift_def act_fail_def act_return_def
        new_client_def dest!: client_write_prefix size split: if_splits prod.splits)
  note inv = codec.each_token_invariant [OF assms(1) loop, of
      "\<lambda>s. 512 \<le> unat (fst (snd s)) \<and> unat (fst (snd s)) \<le> 32767"]
  have "512 \<le> unat (fst (snd (program, psize, a))) \<and> unat (fst (snd (program, psize, a))) \<le> 32767"
    by (rule inv) (simp add: d, elim conjE, erule (2) login_step_size)
  then have bounds: "512 \<le> unat (cl_packet_size c)" "unat (cl_packet_size c) \<le> 32767"
    using c by simp_all
  note says = batch_says [of K sql "fold (\<lambda>sql c. snd (query K sql c)) earlier c", unfolded queries_keep_size]
  show ?thesis
    using bounds says byte_writer.packets_message [OF codec.axioms(2) [OF assms(1)], of "cl_packet_size c"]
      packets_length [OF codec.axioms(2) [OF assms(1)], of SQL_BATCH "encode_batch K sql" "cl_packet_size c"]
    unfolding clamp_size_within [OF bounds] Let_def queries_keep_size by blast
qed

theorem connected_packet_size_witness:
  "\<exists>c bs. connect reference 7 (Inr (greeting, quiet_writer)) [] \<lparr>login_user = [], login_password = []\<rparr> = Inr c
     \<and> 512 \<le> unat (cl_packet_size c)
     \<and> message (unat (cl_packet_size c)) SQL_BATCH bs (encode_batch reference (lit ''SELECT 1''))
     \<and> sent (cl_writer (snd (query reference (lit ''SELECT 1'') c))) = sent (cl_writer c) @ bs"
proof -
  obtain c where c: "connect reference 7 (Inr (greeting, quiet_writer)) []
      \<lparr>login_user = [], login_password = []\<rparr> = Inr c" "sound (cl_writer c)"
    using connect_answered [OF reference_laws(4,5) _ greeting_facts(1-6), of quiet_writer]
    by (simp only: quiet_writer_sound greeting_facts(7)) (simp add: sound_def quiet_writer_def)
  from connected_packet_size [OF reference_laws(4) c(1), of "[]" "lit ''SELECT 1''"] c show ?thesis
    by (auto simp: Let_def)
qed

text \<open>C9: The login ends as the tokens of the server's answer say: the first error is the result;
  without an acknowledgement there is no client; otherwise the client has the program and the
  packet size the answer last named, and exactly a pre-login and a login were said.\<close>

theorem connect_result_of_tokens:
  assumes "codec K" and "body_ceiling K" and "sound w" and "tokens_fit K [] ts"
    and "length (encode_tokens K ts) \<le> max_body K"
    and "length (encode_prelogin p) \<le> max_body K" and "read_prelogin K (encode_prelogin p) = Inr p"
    and "pl_encryption p \<in> {ENCRYPT_NOT_SUP, ENCRYPT_OFF}"
    and "incoming r = packets K TABULAR_RESULT (encode_prelogin p) n
      @ packets K TABULAR_RESULT (encode_tokens K ts) m @ rest"
  shows "connect K pid (Inr (r, w)) database l =
    and_then (login_answer [] DEFAULT_PACKET_SIZE (tokens_shown K [] ts))
      (\<lambda>(program, psize, acknowledged).
        if acknowledged then
          Inr \<lparr>cl_reader = r\<lparr>incoming := rest\<rparr>,
            cl_writer = w\<lparr>sent := sent w
              @ packets K PRELOGIN (encode_prelogin default_prelogin) DEFAULT_PACKET_SIZE
              @ packets K LOGIN7 (encode_login7 K pid (new_login7 l database)) DEFAULT_PACKET_SIZE\<rparr>,
            cl_packet_size = psize, cl_program = program\<rparr>
        else Inl (Protocol (lit ''the server did not acknowledge the login'')))"
  using assms by (rule connect_answered)

theorem connect_result_of_tokens_witness:
  "connect reference 7 (Inr (greeting, quiet_writer)) (lit ''orders'')
     \<lparr>login_user = lit ''xmip'', login_password = []\<rparr> =
   Inr \<lparr>cl_reader = \<lparr>incoming = [], ending = Closed\<rparr>,
     cl_writer = quiet_writer\<lparr>sent :=
       packets reference PRELOGIN (encode_prelogin default_prelogin) DEFAULT_PACKET_SIZE
       @ packets reference LOGIN7 (encode_login7 reference 7
           (new_login7 \<lparr>login_user = lit ''xmip'', login_password = []\<rparr> (lit ''orders'')))
           DEFAULT_PACKET_SIZE\<rparr>,
     cl_packet_size = 4096, cl_program = lit ''SQL''\<rparr>"
  using connect_result_of_tokens [OF reference_laws(4,5) _ greeting_facts(1-6), of quiet_writer 7
      "lit ''orders''" "\<lparr>login_user = lit ''xmip'', login_password = []\<rparr>"]
  by (simp only: quiet_writer_sound greeting_facts(7)) (simp add: greeting_def)

end
