(* ===== verification/Session.thy ===== *)
theory Session
  imports Client
begin

text \<open>
  \<^verbatim>\<open>src/session.rs\<close>: the server's side of one connection. The SQL crate's part in it (the
  verb of a statement, the literal of an INSERT, what a column stores, the constant-time
  comparison) is the record \<open>sql_crate\<close>; the closure that answers batches is a function with
  a state of its own.
\<close>

text \<open>\<^verbatim>\<open>sql::Verb\<close>, as far as the code tells verbs apart.\<close>

datatype verb = Select | Insert | OtherVerb

record ('h, 'v, 'p) sql_crate =
  of_statement :: "str \<Rightarrow> verb option"
  parse_insert_literal :: "str \<Rightarrow> (str \<times> str \<times> 'v) option"
  stored :: "'h \<Rightarrow> 'v \<Rightarrow> 'p"
  ct_equal :: "byte list \<Rightarrow> byte list \<Rightarrow> bool"

locale constant_time =
  fixes Q :: "('h, 'v, 'p, 'y) sql_crate_scheme"
  assumes ct_equal_law: "ct_equal Q xs ys \<longleftrightarrow> xs = ys"

definition LOGIN_FAILED :: "32 word" where [simp]: "LOGIN_FAILED = 18456"
definition SYNTAX_ERROR :: "32 word" where [simp]: "SYNTAX_ERROR = 102"

datatype 'p event =
    Selected str
  | Inserted str 'p
  | Executed str

definition inserted :: "'p event \<Rightarrow> (str \<times> 'p) option" where
  "inserted ev = (case ev of Inserted origin p \<Rightarrow> Some (origin, p) | _ \<Rightarrow> None)"

datatype answer =
    Rows "str list" "str option list list"
  | Complete "64 word"
  | AnswerError "32 word" str

record ('k, 'h) session =
  ss_reader :: reader
  ss_writer :: writer
  ss_peer :: str
  ss_login :: login7
  ss_columns :: "str list"
  ss_rows :: "str option list list"
  ss_answering :: "('k \<Rightarrow> str \<Rightarrow> answer option \<times> 'k) option"
  ss_state :: 'k
  ss_column :: 'h

definition user :: "('k, 'h, 'w) session_scheme \<Rightarrow> str" where
  "user s = login_user (l7_login (ss_login s))"

definition session_login :: "('k, 'h, 'w) session_scheme \<Rightarrow> login7" where
  "session_login s = ss_login s"

definition database :: "('k, 'h, 'w) session_scheme \<Rightarrow> str" where
  "database s = l7_database (ss_login s)"

subsection \<open>Messages out and in\<close>

definition session_write ::
    "'z externals_scheme \<Rightarrow> byte \<Rightarrow> byte list \<Rightarrow> (('k, 'h) session, unit) act" where
  "session_write K kind payload s =
     (case write_message K kind payload DEFAULT_PACKET_SIZE (ss_writer s) of
        (r, w) \<Rightarrow> (r, s\<lparr>ss_writer := w\<rparr>))"

definition write_tokens :: "'z externals_scheme \<Rightarrow> token list \<Rightarrow> (('k, 'h) session, unit) act" where
  "write_tokens K tokens = session_write K TABULAR_RESULT (encode_tokens K tokens)"

definition session_read ::
    "'z externals_scheme \<Rightarrow> byte \<Rightarrow> (('k, 'h) session, byte list) act" where
  "session_read K kind s =
     (case read_message K (ss_reader s) of
        (Inl e, r) \<Rightarrow> (Inl e, s\<lparr>ss_reader := r\<rparr>)
      | (Inr None, r) \<Rightarrow>
          (Inl (Protocol (lit ''the client closed before the login'')), s\<lparr>ss_reader := r\<rparr>)
      | (Inr (Some (got, body)), r) \<Rightarrow>
          (if got = kind then Inr body
           else Inl (Protocol (lit ''packet type '' @ hex04 got @ lit '' where '' @ hex04 kind
             @ lit '' was due'')), s\<lparr>ss_reader := r\<rparr>))"

subsection \<open>Accepting a client\<close>

definition welcome_tokens :: "str \<Rightarrow> token list" where
  "welcome_tokens db =
     [EnvChange ENV_DATABASE db (lit ''master''),
      Info (new_message 5701 0 (lit ''Changed database context to '' @ [39] @ db @ [39] @ lit ''.'')),
      EnvChange ENV_PACKET_SIZE (dec_nat (unat DEFAULT_PACKET_SIZE)) (dec_nat (unat DEFAULT_PACKET_SIZE)),
      LoginAck TDS_7_4 (lit ''Microsoft SQL Server (xmip)''),
      Done 0 0]"

definition refusal_tokens :: "str \<Rightarrow> token list" where
  "refusal_tokens s = [Error (new_message LOGIN_FAILED 14 s), Done DONE_ERROR 0]"

definition failed_text :: "str \<Rightarrow> str" where
  "failed_text u = lit ''Login failed for user '' @ [39] @ u @ [39] @ lit ''.''"

definition server_prelogin :: prelogin where
  "server_prelogin = default_prelogin\<lparr>pl_version := [16, 0, 4, 0, 0, 0]\<rparr>"

definition login_refused ::
    "('h, 'v, 'p, 'y) sql_crate_scheme \<Rightarrow> login option \<Rightarrow> login \<Rightarrow> bool" where
  "login_refused Q expected presented = (case expected of
       None \<Rightarrow> False
     | Some e \<Rightarrow> login_user e \<noteq> login_user presented \<or>
         \<not> ct_equal Q (as_bytes (login_password e)) (as_bytes (login_password presented)))"

text \<open>The login of a client that has greeted, checked and answered.\<close>

abbreviation take_login ::
    "'z externals_scheme \<Rightarrow> ('h, 'v, 'p, 'y) sql_crate_scheme \<Rightarrow> login option
       \<Rightarrow> (('k, 'h) session, unit) act" where
  "take_login K Q expected \<equiv>
     act_bind (session_read K LOGIN7) (\<lambda>body.
     act_bind (act_lift (read_login7 K body)) (\<lambda>l.
     act_bind (\<lambda>s. (Inr (), s\<lparr>ss_login := l\<rparr>)) (\<lambda>_ s.
       if login_refused Q expected (l7_login (ss_login s)) then
         act_bind (write_tokens K (refusal_tokens (failed_text (user s))))
           (\<lambda>_. act_fail (Permanent (failed_text (user s)))) s
       else write_tokens K (welcome_tokens (database s)) s)))"

definition accept_on ::
    "'z externals_scheme \<Rightarrow> ('h, 'v, 'p, 'y) sql_crate_scheme \<Rightarrow> login option
       \<Rightarrow> (('k, 'h) session, unit) act" where
  "accept_on K Q expected =
     act_bind (session_read K PRELOGIN) (\<lambda>body.
     act_bind (act_lift (read_prelogin K body)) (\<lambda>_.
     act_bind (session_write K TABULAR_RESULT (encode_prelogin server_prelogin)) (\<lambda>_.
       take_login K Q expected)))"

text \<open>\<open>binary\<close> is \<^verbatim>\<open>Held::Binary\<close>; the closure comes later and starts in a state of its own.\<close>

definition new_session :: "reader \<Rightarrow> writer \<Rightarrow> str \<Rightarrow> 'k \<Rightarrow> 'h \<Rightarrow> ('k, 'h) session" where
  "new_session r w peer k binary = \<lparr>
     ss_reader = r, ss_writer = w, ss_peer = peer,
     ss_login = new_login7 \<lparr>login_user = [], login_password = []\<rparr> [],
     ss_columns = [], ss_rows = [], ss_answering = None, ss_state = k, ss_column = binary\<rparr>"

text \<open>\<open>accepted\<close> is what accepting and splitting the connection gave.\<close>

definition accept ::
    "'z externals_scheme \<Rightarrow> ('h, 'v, 'p, 'y) sql_crate_scheme \<Rightarrow> terror + reader \<times> writer \<times> str
       \<Rightarrow> login option \<Rightarrow> 'k \<Rightarrow> 'h \<Rightarrow> terror + ('k, 'h) session" where
  "accept K Q accepted expected k binary =
     and_then accepted (\<lambda>(r, w, peer).
       case accept_on K Q expected (new_session r w peer k binary) of
         (Inl e, _) \<Rightarrow> Inl e
       | (Inr _, s) \<Rightarrow> Inr s)"

definition holding :: "'h \<Rightarrow> ('k, 'h) session \<Rightarrow> ('k, 'h) session" where
  "holding h s = s\<lparr>ss_column := h\<rparr>"

text \<open>\<open>table\<close> is \<^verbatim>\<open>transport::sql::table\<close>.\<close>

definition with_table ::
    "('c \<Rightarrow> 'r \<Rightarrow> str list \<times> str option list list) \<Rightarrow> 'c \<Rightarrow> 'r \<Rightarrow> ('k, 'h) session \<Rightarrow> ('k, 'h) session" where
  "with_table table columns rows s =
     (case table columns rows of (cs, rs) \<Rightarrow> s\<lparr>ss_columns := cs, ss_rows := rs\<rparr>)"

definition answering ::
    "('k \<Rightarrow> str \<Rightarrow> answer option \<times> 'k) \<Rightarrow> ('k, 'h) session \<Rightarrow> ('k, 'h) session" where
  "answering f s = s\<lparr>ss_answering := Some f\<rparr>"

subsection \<open>Answering batches\<close>

definition answer_batch ::
    "('h, 'v, 'p, 'y) sql_crate_scheme \<Rightarrow> str \<Rightarrow> ('k, 'h) session
       \<Rightarrow> (answer \<times> 'p event) \<times> ('k, 'h) session" where
  "answer_batch Q sql s =
     (let (given, s) = (case ss_answering s of
          None \<Rightarrow> (None, s)
        | Some f \<Rightarrow> (case f (ss_state s) sql of (a, k) \<Rightarrow> (a, s\<lparr>ss_state := k\<rparr>)))
      in case given of
        Some a \<Rightarrow> ((a, Executed sql), s)
      | None \<Rightarrow> (case of_statement Q sql of
          Some Select \<Rightarrow> ((Rows (ss_columns s) (ss_rows s), Selected sql), s)
        | Some Insert \<Rightarrow> (case parse_insert_literal Q sql of
            Some (table, column, value) \<Rightarrow>
              (let origin = lit ''mssql://'' @ ss_peer s @ lit ''/'' @ database s @ lit ''/''
                     @ table @ lit ''/'' @ column
               in ((Complete 1, Inserted origin (stored Q (ss_column s) value)), s))
          | None \<Rightarrow>
              ((AnswerError SYNTAX_ERROR (lit ''only INSERT INTO t (c) VALUES (...) is served here''),
                Executed sql), s))
        | _ \<Rightarrow> ((Complete 0, Executed sql), s)))"

definition answer_tokens :: "answer \<Rightarrow> token list" where
  "answer_tokens a = (case a of
       Rows columns rows \<Rightarrow>
         [ColMetadata (map text_column columns)] @ map Row rows
           @ [Done DONE_COUNT (of_nat (length rows))]
     | Complete rows \<Rightarrow> [Done DONE_COUNT rows]
     | AnswerError n s \<Rightarrow> [Error (new_message n 16 s), Done DONE_ERROR 0])"

definition write_answer :: "'z externals_scheme \<Rightarrow> answer \<Rightarrow> (('k, 'h) session, unit) act" where
  "write_answer K a = write_tokens K (answer_tokens a)"

text \<open>What \<open>next_event\<close> does with the body of a batch.\<close>

definition run_batch ::
    "'z externals_scheme \<Rightarrow> ('h, 'v, 'p, 'y) sql_crate_scheme \<Rightarrow> byte list
       \<Rightarrow> (('k, 'h) session, 'p event option) act" where
  "run_batch K Q body =
     act_bind (act_lift (read_batch K body)) (\<lambda>sql s.
       case answer_batch Q sql s of
         ((a, ev), s) \<Rightarrow> act_bind (write_answer K a) (\<lambda>_. act_return (Some ev)) s)"

definition next_event ::
    "'z externals_scheme \<Rightarrow> ('h, 'v, 'p, 'y) sql_crate_scheme
       \<Rightarrow> (('k, 'h) session, 'p event option) act" where
  "next_event K Q s =
     (case read_message K (ss_reader s) of
        (Inl e, r) \<Rightarrow> (Inl e, s\<lparr>ss_reader := r\<rparr>)
      | (Inr None, r) \<Rightarrow> (Inr None, s\<lparr>ss_reader := r\<rparr>)
      | (Inr (Some (kind, body)), r) \<Rightarrow>
          if kind = SQL_BATCH then run_batch K Q body (s\<lparr>ss_reader := r\<rparr>)
          else
            (Inl (Protocol (lit ''packet type '' @ hex04 kind @ lit '' after the login'')),
             s\<lparr>ss_reader := r\<rparr>))"

text \<open>An event has taken the packets of a message off the connection, so serving ends.\<close>

lemma read_message_takes:
  "read_message K r = (Inr (Some x), r') \<Longrightarrow> length (incoming r') < length (incoming r)"
proof -
  assume "read_message K r = (Inr (Some x), r')"
  then obtain bs payload where "message (unat MAX_PACKET_SIZE) (fst x) bs payload"
    "incoming r = bs @ incoming r'"
    using read_packets_sound [of K "[]" None r "fst x" "snd x" r'] by (auto simp: read_message_def)
  from message_length [OF this(1)] this(2) show ?thesis by auto
qed

lemma answer_batch_reader: "answer_batch Q sql s = (x, s') \<Longrightarrow> ss_reader s' = ss_reader s"
  by (auto simp: answer_batch_def Let_def split: option.splits prod.splits verb.splits)

lemma write_tokens_reader: "write_tokens K ts s = (x, s') \<Longrightarrow> ss_reader s' = ss_reader s"
  by (auto simp: write_tokens_def session_write_def split: prod.splits)

lemma run_batch_reader:
  assumes "run_batch K Q body s = (x, s')"
  shows "ss_reader s' = ss_reader s"
proof (cases "read_batch K body")
  case (Inr sql)
  obtain a ev s1 where a: "answer_batch Q sql s = ((a, ev), s1)"
    by (metis surj_pair)
  obtain q s2 where q: "write_tokens K (answer_tokens a) s1 = (q, s2)"
    by fastforce
  show ?thesis
    using assms Inr a q answer_batch_reader [OF a] write_tokens_reader [OF q]
    by (cases q) (auto simp: run_batch_def write_answer_def act_bind_def)
qed (use assms in \<open>simp add: run_batch_def\<close>)

lemma next_event_takes:
  assumes "next_event K Q s = (Inr (Some ev), s')"
  shows "length (incoming (ss_reader s')) < length (incoming (ss_reader s))"
proof -
  obtain x r where x: "read_message K (ss_reader s) = (Inr (Some x), r)"
    using assms by (auto simp: next_event_def split: prod.splits sum.splits option.splits)
  then have "run_batch K Q (snd x) (s\<lparr>ss_reader := r\<rparr>) = (Inr (Some ev), s')"
    using assms by (cases x) (auto simp: next_event_def split: if_splits)
  from run_batch_reader [OF this] read_message_takes [OF x] show ?thesis by simp
qed

function serve_from ::
    "'z externals_scheme \<Rightarrow> ('h, 'v, 'p, 'y) sql_crate_scheme \<Rightarrow> 'p event list
       \<Rightarrow> (('k, 'h) session, 'p event list) act" where
  "serve_from K Q events s =
     (case next_event K Q s of
        (Inl e, s) \<Rightarrow> (Inl e, s)
      | (Inr None, s) \<Rightarrow> (Inr events, s)
      | (Inr (Some ev), s) \<Rightarrow> serve_from K Q (events @ [ev]) s)"
  by pat_completeness auto
termination
  by (relation "measure (\<lambda>(K, Q, events, s). length (incoming (ss_reader s)))")
    (auto dest!: next_event_takes [OF sym])

declare serve_from.simps [simp del]

definition serve ::
    "'z externals_scheme \<Rightarrow> ('h, 'v, 'p, 'y) sql_crate_scheme
       \<Rightarrow> (('k, 'h) session, 'p event list) act" where
  "serve K Q = serve_from K Q []"

text \<open>
  \<^verbatim>\<open>transport::sql::next_insert\<close>, another crate's, as the parameter \<open>first_insert\<close>: given
  what an event inserted and what gives the next event, the first value inserted.
\<close>

type_synonym ('k, 'h, 'p) insert_loop =
  "('p event \<Rightarrow> (str \<times> 'p) option) \<Rightarrow> (('k, 'h) session, 'p event option) act
     \<Rightarrow> (('k, 'h) session, (str \<times> 'p) option) act"

definition next_insert ::
    "'z externals_scheme \<Rightarrow> ('h, 'v, 'p, 'y) sql_crate_scheme \<Rightarrow> ('k, 'h, 'p) insert_loop
       \<Rightarrow> (('k, 'h) session, (str \<times> 'p) option) act" where
  "next_insert K Q first_insert = first_insert inserted (next_event K Q)"

subsection \<open>One message in, one message out\<close>

lemma session_write_sound:
  "sound (ss_writer s) \<Longrightarrow> session_write K kind payload s =
     (Inr (), s\<lparr>ss_writer := (ss_writer s)
       \<lparr>sent := sent (ss_writer s) @ packets K kind payload DEFAULT_PACKET_SIZE\<rparr>\<rparr>)"
  by (simp add: session_write_def write_message_sound)

lemma reader_message:
  assumes "byte_writer K" and "body_ceiling K" and "is_packet_type kind" and "length body \<le> max_body K"
    and "incoming r = packets K kind body n @ rest"
  shows "read_message K r = (Inr (Some (kind, body)), r\<lparr>incoming := rest\<rparr>)"
  using packets_read_back [OF assms(1-4), of n rest "ending r"] assms(5) by (cases r) simp

lemma session_read_message:
  assumes "byte_writer K" and "body_ceiling K" and "is_packet_type kind" and "length body \<le> max_body K"
    and "incoming (ss_reader s) = packets K kind body n @ rest"
  shows "session_read K kind s = (Inr body, s\<lparr>ss_reader := (ss_reader s)\<lparr>incoming := rest\<rparr>\<rparr>)"
  using reader_message [OF assms] by (simp add: session_read_def)

text \<open>An answer depends on nothing of the connection and leaves it alone.\<close>

lemma answer_batch_io:
  "answer_batch Q sql (s\<lparr>ss_reader := r, ss_writer := w\<rparr>) =
     (case answer_batch Q sql s of (x, s') \<Rightarrow> (x, s'\<lparr>ss_reader := r, ss_writer := w\<rparr>))"
proof (cases "ss_answering s")
  case None
  then show ?thesis
    by (simp add: answer_batch_def Let_def database_def split: option.split prod.split verb.split)
next
  case (Some f)
  then show ?thesis
    by (cases "f (ss_state s) sql")
      (simp add: answer_batch_def Let_def database_def split: option.split prod.split verb.split)
qed

lemma answer_batch_keeps:
  "answer_batch Q sql s = (x, s') \<Longrightarrow> ss_writer s' = ss_writer s \<and> ss_reader s' = ss_reader s"
  by (auto simp: answer_batch_def Let_def split: option.splits prod.splits verb.splits)

lemma next_event_batch:
  assumes "codec K" and "body_ceiling K" and "sound (ss_writer s)" and "is_str sql"
    and "length (encode_batch K sql) \<le> max_body K"
    and "incoming (ss_reader s) = packets K SQL_BATCH (encode_batch K sql) n @ rest"
    and "answer_batch Q sql s = ((a, ev), s1)"
  shows "next_event K Q s = (Inr (Some ev), s1\<lparr>ss_reader := (ss_reader s)\<lparr>incoming := rest\<rparr>,
    ss_writer := (ss_writer s)\<lparr>sent := sent (ss_writer s)
      @ packets K TABULAR_RESULT (encode_tokens K (answer_tokens a)) DEFAULT_PACKET_SIZE\<rparr>\<rparr>)"
proof -
  have "is_packet_type SQL_BATCH" by (simp add: is_packet_type_def)
  from reader_message [OF codec.axioms(2) [OF assms(1)] assms(2) this assms(5,6)]
  have "read_message K (ss_reader s) =
      (Inr (Some (SQL_BATCH, encode_batch K sql)), (ss_reader s)\<lparr>incoming := rest\<rparr>)" .
  moreover have "answer_batch Q sql (s\<lparr>ss_reader := (ss_reader s)\<lparr>incoming := rest\<rparr>\<rparr>) =
      ((a, ev), s1\<lparr>ss_reader := (ss_reader s)\<lparr>incoming := rest\<rparr>, ss_writer := ss_writer s\<rparr>)"
    using answer_batch_io [where Q = Q and sql = sql and s = s and r = "(ss_reader s)\<lparr>incoming := rest\<rparr>"
        and w = "ss_writer s"] assms(7) by simp
  moreover have "read_batch K (encode_batch K sql) = Inr sql"
    using assms(1,4) by (rule batch_reads_back)
  ultimately show ?thesis
    using assms(3)
    by (simp add: next_event_def run_batch_def act_bind_def write_answer_def write_tokens_def
        session_write_sound)
qed

subsection \<open>What an unknown client is told\<close>

lemma session_write_prefix:
  assumes "session_write K kind payload s = (r, t)"
  shows "ss_reader t = ss_reader s \<and> ss_login t = ss_login s \<and>
    (\<exists>n. sent (ss_writer t) =
       sent (ss_writer s) @ take n (packets K kind payload DEFAULT_PACKET_SIZE)) \<and>
    (r = Inr () \<longrightarrow> sent (ss_writer t) = sent (ss_writer s) @ packets K kind payload DEFAULT_PACKET_SIZE)"
proof -
  obtain w where w: "write_message K kind payload DEFAULT_PACKET_SIZE (ss_writer s) = (r, w)"
    and t: "t = s\<lparr>ss_writer := w\<rparr>"
    using assms by (auto simp: session_write_def split: prod.splits)
  have same: "flush v = (q, u) \<Longrightarrow> u = v" for v q u
    by (auto simp: flush_def split: option.splits)
  obtain q v where v: "write_all (packets K kind payload DEFAULT_PACKET_SIZE) (ss_writer s) = (q, v)"
    by fastforce
  with w have "w = v" and "r = Inr () \<Longrightarrow> q = Inr ()"
    by (auto simp: write_message_def dest: same split: prod.splits sum.splits)
  moreover have "q = Inr () \<Longrightarrow> sent v = sent (ss_writer s) @ packets K kind payload DEFAULT_PACKET_SIZE"
    using v by (auto simp: write_all_def split: option.splits if_splits prod.splits)
  ultimately show ?thesis using write_all_prefix [OF v] t by auto
qed

lemma session_read_silent:
  assumes "session_read K kind s = (x, t)"
  shows "ss_writer t = ss_writer s"
    and "x = Inr body \<Longrightarrow> read_message K (ss_reader s) = (Inr (Some (kind, body)), ss_reader t)"
  using assms by (auto simp: session_read_def split: prod.splits sum.splits option.splits if_splits)

text \<open>What has been said at each point of an acceptance that ends before the welcome.\<close>

lemma told_so_far:
  assumes "\<exists>n. w = v @ take n p"
  shows "\<exists>n u. w = v @ take n (p @ q u)"
proof -
  obtain n where w: "w = v @ take n p" using assms by blast
  have "take n p = take (min n (length p)) (p @ q u)" for u by (cases "n \<le> length p") simp_all
  with w show ?thesis by metis
qed

lemma accept_on_greets_first:
  assumes "accept_on K Q expected s = (res, s')"
  defines "p \<equiv> packets K TABULAR_RESULT (encode_prelogin server_prelogin) DEFAULT_PACKET_SIZE"
  shows "(res \<noteq> Inr () \<and> (\<exists>n. sent (ss_writer s') = sent (ss_writer s) @ take n p))
    \<or> (\<exists>pre t. read_message K (ss_reader s) = (Inr (Some (PRELOGIN, pre)), ss_reader t) \<and>
      sent (ss_writer t) = sent (ss_writer s) @ p \<and> take_login K Q expected t = (res, s'))"
    (is "?told \<or> _")
proof -
  obtain x1 t1 where t1: "session_read K PRELOGIN s = (x1, t1)" by fastforce
  obtain x2 t2 where t2: "session_write K TABULAR_RESULT (encode_prelogin server_prelogin) t1 = (x2, t2)"
    by fastforce
  note read = session_read_silent [OF t1] and wrote = session_write_prefix [OF t2]
  consider (bad) e where "res = Inl e" "s' = t1"
    | (cut) e where "res = Inl e" "s' = t2"
    | (greeted) pre where "x1 = Inr pre" "x2 = Inr ()" "take_login K Q expected t2 = (res, s')"
    using assms(1) t1 t2
    by (cases x1; cases x2; cases "read_prelogin K (projr x1)") (auto simp: accept_on_def act_bind_def)
  then show ?thesis
  proof cases
    case bad
    then have ?told by (simp add: read(1) exI [of _ 0])
    then show ?thesis ..
  next
    case cut
    then have ?told using wrote by (simp add: read(1) p_def)
    then show ?thesis ..
  next
    case greeted
    then show ?thesis using read wrote
      by (intro disjI2 exI [of _ pre] exI [of _ t2]) (simp add: p_def)
  qed
qed

lemma take_login_told:
  assumes "constant_time Q" and "take_login K Q expected s = (res, s')"
  shows "(res \<noteq> Inr () \<and> (\<exists>n u. sent (ss_writer s') = sent (ss_writer s) @ take n
      (packets K TABULAR_RESULT (encode_tokens K (refusal_tokens (failed_text u))) DEFAULT_PACKET_SIZE)))
    \<or> (\<exists>body r l. read_message K (ss_reader s) = (Inr (Some (LOGIN7, body)), r) \<and>
      read_login7 K body = Inr l \<and> ss_login s' = l \<and>
      (\<forall>e. expected = Some e \<longrightarrow> login_user e = login_user (l7_login l) \<and>
        as_bytes (login_password e) = as_bytes (login_password (l7_login l))))"
    (is "?told \<or> _")
proof -
  obtain x t where t: "session_read K LOGIN7 s = (x, t)" by fastforce
  note read = session_read_silent [OF t]
  consider (bad) e where "res = Inl e" "s' = t"
    | (heard) body l where "x = Inr body" "read_login7 K body = Inr l"
    using assms(2) t by (cases x; cases "read_login7 K (projr x)") (auto simp: act_bind_def)
  then show ?thesis
  proof cases
    case bad
    then have ?told by (simp add: read(1) exI [of _ 0])
    then show ?thesis ..
  next
    case (heard body l)
    define u where "u = t\<lparr>ss_login := l\<rparr>"
    have u: "ss_login u = l" "sent (ss_writer u) = sent (ss_writer s)"
      using read(1) by (simp_all add: u_def)
    show ?thesis
    proof (cases "login_refused Q expected (l7_login l)")
      case True
      obtain y v where v: "write_tokens K (refusal_tokens (failed_text (user u))) u = (y, v)"
        by fastforce
      then have "res \<noteq> Inr () \<and> s' = v"
        using assms(2) t heard True by (cases y) (auto simp: act_bind_def u_def)
      then have ?told
        using session_write_prefix [OF v [unfolded write_tokens_def]] u(2) by auto
      then show ?thesis ..
    next
      case False
      then have "write_tokens K (welcome_tokens (database u)) u = (res, s')"
        using assms(2) t heard by (simp add: act_bind_def u_def)
      from session_write_prefix [OF this [unfolded write_tokens_def]] have "ss_login s' = l"
        using u(1) by simp
      moreover have "\<forall>e. expected = Some e \<longrightarrow> login_user e = login_user (l7_login l) \<and>
          as_bytes (login_password e) = as_bytes (login_password (l7_login l))"
        using False by (cases expected)
          (simp_all add: login_refused_def constant_time.ct_equal_law [OF assms(1)])
      ultimately show ?thesis using read(2) heard by blast
    qed
  qed
qed

subsection \<open>Serving in order\<close>

fun replies ::
    "('h, 'v, 'p, 'y) sql_crate_scheme \<Rightarrow> str list \<Rightarrow> ('k, 'h) session \<Rightarrow> (answer \<times> 'p event) list" where
  "replies Q [] s = []"
| "replies Q (sql # sqls) s = (case answer_batch Q sql s of (x, s') \<Rightarrow> x # replies Q sqls s')"

lemma replies_io: "replies Q sqls (s\<lparr>ss_reader := r, ss_writer := w\<rparr>) = replies Q sqls s"
  by (induction sqls arbitrary: s) (simp_all add: answer_batch_io split: prod.split)

definition batch_packets :: "'z externals_scheme \<Rightarrow> 16 word \<Rightarrow> str \<Rightarrow> byte list" where
  "batch_packets K n sql = packets K SQL_BATCH (encode_batch K sql) n"

definition answer_packets :: "'z externals_scheme \<Rightarrow> answer \<Rightarrow> byte list" where
  "answer_packets K a =
     packets K TABULAR_RESULT (encode_tokens K (answer_tokens a)) DEFAULT_PACKET_SIZE"

text \<open>
  Whole batches are all answered; what comes after them is the end of the connection, as it is.
\<close>

lemma serve_whole_batches:
  assumes "codec K" and "body_ceiling K"
    and "list_all (\<lambda>sql. is_str sql \<and> length (encode_batch K sql) \<le> max_body K) sqls"
    and "sound (ss_writer s)" and "ending (ss_reader s) = e"
    and "incoming (ss_reader s) = concat (map (batch_packets K n) sqls)"
  shows "\<exists>s'. serve_from K Q events s = (case e of
      Closed \<Rightarrow> Inr (events @ map snd (replies Q sqls s))
    | Broken b \<Rightarrow> Inl (Classified (lit ''reading a packet header'') b), s') \<and>
    sent (ss_writer s') = sent (ss_writer s) @ concat (map (\<lambda>x. answer_packets K (fst x)) (replies Q sqls s)) \<and>
    incoming (ss_reader s') = []"
  using assms(3-)
proof (induction sqls arbitrary: s events)
  case Nil
  then have "read_message K (ss_reader s) = (case e of
      Closed \<Rightarrow> Inr None | Broken b \<Rightarrow> Inl (Classified (lit ''reading a packet header'') b), ss_reader s)"
    by (cases e) (simp_all add: read_message_def read_packets.simps [of K] read1_def)
  with Nil.prems(4) show ?case by (cases e) (simp_all add: serve_from.simps [of K] next_event_def)
next
  case (Cons sql sqls)
  obtain a ev s1 where a: "answer_batch Q sql s = ((a, ev), s1)"
    by (metis surj_pair)
  define s2 where "s2 = s1\<lparr>ss_reader := (ss_reader s)
      \<lparr>incoming := concat (map (batch_packets K n) sqls)\<rparr>,
    ss_writer := (ss_writer s)\<lparr>sent := sent (ss_writer s) @ answer_packets K a\<rparr>\<rparr>"
  have "incoming (ss_reader s) =
      packets K SQL_BATCH (encode_batch K sql) n @ concat (map (batch_packets K n) sqls)"
    using Cons.prems(4) by (simp add: batch_packets_def [of K n sql])
  from next_event_batch [OF assms(1,2) _ _ _ this a] Cons.prems
  have "next_event K Q s = (Inr (Some ev), s2)"
    by (simp add: s2_def answer_packets_def)
  moreover have "replies Q sqls s2 = replies Q sqls s1"
    unfolding s2_def by (rule replies_io)
  moreover have "\<exists>s'. serve_from K Q (events @ [ev]) s2 =
      (case e of Closed \<Rightarrow> Inr ((events @ [ev]) @ map snd (replies Q sqls s2))
       | Broken b \<Rightarrow> Inl (Classified (lit ''reading a packet header'') b), s') \<and>
      sent (ss_writer s') = sent (ss_writer s2) @ concat (map (\<lambda>x. answer_packets K (fst x)) (replies Q sqls s2)) \<and>
      incoming (ss_reader s') = []"
    by (rule Cons.IH) (use Cons.prems in \<open>simp_all add: s2_def\<close>)
  ultimately show ?case
    by (cases e) (auto simp: a serve_from.simps [of K Q events s] s2_def)
qed

lemma serve_closed:
  assumes "codec K" and "body_ceiling K"
    and "list_all (\<lambda>sql. is_str sql \<and> length (encode_batch K sql) \<le> max_body K) sqls"
    and "sound (ss_writer s)" and "ending (ss_reader s) = Closed"
    and "incoming (ss_reader s) = concat (map (batch_packets K n) sqls)"
  shows "\<exists>s'. serve_from K Q events s = (Inr (events @ map snd (replies Q sqls s)), s') \<and>
    sent (ss_writer s') = sent (ss_writer s) @ concat (map (\<lambda>x. answer_packets K (fst x)) (replies Q sqls s)) \<and>
    incoming (ss_reader s') = []"
  using serve_whole_batches [OF assms, of Q events] by simp

subsection \<open>The login of a session\<close>

lemma accept_login:
  assumes "codec K" and "body_ceiling K" and "sound (ss_writer s)" and "login_fits l"
    and "read_prelogin K pre = Inr p" and "length pre \<le> max_body K"
    and "length (encode_login7 K pid l) \<le> max_body K"
    and "incoming (ss_reader s) = packets K PRELOGIN pre n
      @ packets K LOGIN7 (encode_login7 K pid l) m @ rest"
  shows "accept_on K Q expected s =
    (let refused = login_refused Q expected (l7_login l);
         failed = failed_text (login_user (l7_login l));
         tokens = (if refused then refusal_tokens failed else welcome_tokens (l7_database l))
     in (if refused then Inl (Permanent failed) else Inr (),
         s\<lparr>ss_reader := (ss_reader s)\<lparr>incoming := rest\<rparr>, ss_login := l,
           ss_writer := (ss_writer s)\<lparr>sent := sent (ss_writer s)
             @ packets K TABULAR_RESULT (encode_prelogin server_prelogin) DEFAULT_PACKET_SIZE
             @ packets K TABULAR_RESULT (encode_tokens K tokens) DEFAULT_PACKET_SIZE\<rparr>\<rparr>))"
proof -
  note bw = codec.axioms(2) [OF assms(1)]
  have kinds: "is_packet_type PRELOGIN" "is_packet_type LOGIN7" by (simp_all add: is_packet_type_def)
  define rest1 where "rest1 = packets K LOGIN7 (encode_login7 K pid l) m @ rest"
  define w1 where "w1 = (ss_writer s)\<lparr>sent := sent (ss_writer s)
    @ packets K TABULAR_RESULT (encode_prelogin server_prelogin) DEFAULT_PACKET_SIZE\<rparr>"
  define s1 where "s1 = s\<lparr>ss_reader := (ss_reader s)\<lparr>incoming := rest1\<rparr>\<rparr>"
  define s2 where "s2 = s1\<lparr>ss_writer := w1\<rparr>"
  define s3 where "s3 = s2\<lparr>ss_reader := (ss_reader s)\<lparr>incoming := rest\<rparr>\<rparr>"
  have in1: "session_read K PRELOGIN s = (Inr pre, s1)"
    using session_read_message [OF bw assms(2) kinds(1) assms(6), of s n rest1] assms(8)
    by (simp add: s1_def rest1_def)
  have out1: "session_write K TABULAR_RESULT (encode_prelogin server_prelogin) s1 = (Inr (), s2)"
    using session_write_sound [of s1] assms(3) by (simp add: s1_def s2_def w1_def)
  have in2: "session_read K LOGIN7 s2 = (Inr (encode_login7 K pid l), s3)"
    using session_read_message [OF bw assms(2) kinds(2) assms(7), of s2 m rest]
    by (simp add: s1_def s2_def s3_def rest1_def)
  have login: "read_login7 K (encode_login7 K pid l) = Inr l"
    using assms(1,4) by (rule codec.login_reads_back)
  have out2: "write_tokens K ts (s3\<lparr>ss_login := l\<rparr>) = (Inr (), s3\<lparr>ss_login := l,
      ss_writer := w1\<lparr>sent := sent w1 @ packets K TABULAR_RESULT (encode_tokens K ts) DEFAULT_PACKET_SIZE\<rparr>\<rparr>)" for ts
    using session_write_sound [of "s3\<lparr>ss_login := l\<rparr>"] assms(3)
    by (simp add: write_tokens_def s3_def s2_def s1_def w1_def)
  have "accept_on K Q expected s =
    (if login_refused Q expected (l7_login l) then
       act_bind (write_tokens K (refusal_tokens (failed_text (login_user (l7_login l)))))
         (\<lambda>_. act_fail (Permanent (failed_text (login_user (l7_login l))))) (s3\<lparr>ss_login := l\<rparr>)
     else write_tokens K (welcome_tokens (l7_database l)) (s3\<lparr>ss_login := l\<rparr>))"
    using in1 out1 in2 login assms(5)
    by (simp add: accept_on_def act_bind_def user_def database_def)
  then show ?thesis
    by (simp add: out2 act_bind_def Let_def) (simp add: s3_def s2_def s1_def w1_def)
qed

context constant_time
begin

lemma login_refused_iff:
  assumes "is_str (login_password l)" and "pred_option (\<lambda>e. is_str (login_password e)) expected"
  shows "login_refused Q expected l \<longleftrightarrow> expected \<noteq> None \<and> expected \<noteq> Some l"
  using assms as_bytes_inject
  by (cases expected) (auto simp: login_refused_def ct_equal_law intro: login.equality)

end

subsection \<open>What a client makes of an answer\<close>

definition answer_fits :: "answer \<Rightarrow> bool" where
  "answer_fits a = (case a of
       Rows columns rows \<Rightarrow> length columns < 65535 \<and> list_all name_fits columns \<and>
         list_all (\<lambda>row. length row = length columns \<and>
           list_all (pred_option (\<lambda>s. is_str s \<and> 2 * utf16_units s < 2 ^ 64 - 1)) row) rows
     | Complete _ \<Rightarrow> True
     | AnswerError _ s \<Rightarrow> is_str s \<and> 14 + 2 * utf16_units s < 65536)"

definition answer_result :: "answer \<Rightarrow> terror + query_result" where
  "answer_result a = (case a of
       Rows columns rows \<Rightarrow> Inr \<lparr>qr_columns = columns, qr_rows = rows,
         qr_rows_affected = of_nat (length rows)\<rparr>
     | Complete rows \<Rightarrow> Inr \<lparr>qr_columns = [], qr_rows = [], qr_rows_affected = rows\<rparr>
     | AnswerError n s \<Rightarrow> Inl (sql_error (new_message n 16 s)))"

lemma shown_text_row:
  "length row = length columns \<Longrightarrow>
     map2 (\<lambda>c. shown K (col_kind c)) (map text_column columns) row = row"
  by (induction row columns rule: list_induct2)
    (simp_all add: shown_def text_column_def new_column_def)

lemma message_of_text:
  "message_fits (new_message n severity s) \<longleftrightarrow> is_str s \<and> 14 + 2 * utf16_units s < 65536"
  by (simp add: message_fits_def new_message_def name_fits_def)

context codec
begin

lemma text_row_fits:
  "length row = length columns \<Longrightarrow>
     list_all (pred_option (\<lambda>s. is_str s \<and> 2 * utf16_units s < 2 ^ 64 - 1)) row \<Longrightarrow>
     list_all2 (\<lambda>c. value_fits K (col_kind c)) (map text_column columns) row"
proof (induction row columns rule: list_induct2)
  case (Cons v row c columns)
  then show ?case
    by (cases v) (simp_all add: value_fits_def text_column_def new_column_def bytes_fit_def utf16_length)
qed simp

lemma rows_shown:
  assumes "list_all (\<lambda>row. length row = length columns \<and>
      list_all (pred_option (\<lambda>s. is_str s \<and> 2 * utf16_units s < 2 ^ 64 - 1)) row) rows"
  shows "tokens_fit K (map text_column columns) (map Row rows @ [Done st n])"
    and "tokens_shown K (map text_column columns) (map Row rows @ [Done st n]) =
      map Row rows @ [Done st n]"
  using assms
  by (induction rows)
    (simp_all add: token_fits_def columns_after_def text_row_fits token_shown_def shown_text_row)

lemma answer_tokens_shown:
  assumes "answer_fits a"
  shows "tokens_fit K [] (answer_tokens a)"
    and "tokens_shown K [] (answer_tokens a) = answer_tokens a"
  using assms rows_shown
  by (cases a; simp add: answer_tokens_def answer_fits_def token_fits_def columns_after_def
      token_shown_def message_of_text text_column_def new_column_def list_all_iff; fail)+

end

lemma map_filter_Row:
  "List.map_filter row_of (map Row rows @ ts) = rows @ List.map_filter row_of ts"
  "List.map_filter error_of (map Row rows @ ts) = List.map_filter error_of ts"
  "List.map_filter declared_of (map Row rows @ ts) = List.map_filter declared_of ts"
  "List.map_filter count_of (map Row rows @ ts) = List.map_filter count_of ts"
  by (induction rows) (simp_all add: List.map_filter_simps token_views)

lemma last_of_Row:
  "last_of d (map_option Some \<circ> error_of) (map Row rows @ ts) = last_of d (map_option Some \<circ> error_of) ts"
  "last_of cs declared_of (map Row rows @ ts) = last_of cs declared_of ts"
  "last_of n count_of (map Row rows @ ts) = last_of n count_of ts"
  by (induction rows) (simp_all add: token_views)

lemma answer_tokens_result: "batch_answer (answer_tokens a) = answer_result a"
proof (cases a)
  case (Rows columns rows)
  have "map (col_name \<circ> text_column) columns = columns"
    by (simp add: comp_def text_column_def new_column_def)
  with Rows show ?thesis
    using map_filter_Row [of rows "[Done DONE_COUNT (of_nat (length rows))]"]
      last_of_Row(1) [of _ rows "[Done DONE_COUNT (of_nat (length rows))]"]
      last_of_Row(2) [of _ rows "[Done DONE_COUNT (of_nat (length rows))]"]
      last_of_Row(3) [of _ rows "[Done DONE_COUNT (of_nat (length rows))]"]
    by (simp add: answer_tokens_def answer_result_def batch_answer_def)
      (simp add: token_views List.map_filter_simps)
qed (simp_all add: answer_tokens_def answer_result_def batch_answer_def token_views List.map_filter_simps)

subsection \<open>What a client makes of the login's answer\<close>

lemma default_size_text: "dec_nat (unat DEFAULT_PACKET_SIZE) = lit ''4096''"
  by code_simp

lemma scalar_quote: "is_scalar 39"
  by (simp add: is_scalar_def)

context codec
begin

lemma length_sized [simp]: "length (sized token body) = 3 + length body"
  by (simp add: sized_def)

lemma length_message_body:
  "message_fits (new_message n severity s) \<Longrightarrow>
     length (message_body K (new_message n severity s)) = 14 + 2 * utf16_units s"
  by (simp add: message_body_bytes new_message_def message_fits_def b_varchar_bytes us_varchar_bytes
      length_counted)

lemma welcome_read:
  assumes "name_fits db"
  shows "tokens_fit K [] (welcome_tokens db)"
    and "tokens_shown K [] (welcome_tokens db) = welcome_tokens db"
    and "login_answer [] DEFAULT_PACKET_SIZE (welcome_tokens db) =
      Inr (lit ''Microsoft SQL Server (xmip)'', DEFAULT_PACKET_SIZE, True)"
    and "length (encode_tokens K (welcome_tokens db)) \<le> 4096"
proof -
  define msg where "msg = lit ''Changed database context to '' @ [39] @ db @ [39] @ lit ''.''"
  have db: "is_str db" "utf16_units db \<le> 255" using assms by (simp_all add: name_fits_def)
  have msg: "message_fits (new_message 5701 0 msg)" "utf16_units msg = 31 + utf16_units db"
    using db by (simp_all add: message_of_text msg_def scalar_quote)
  have tokens: "welcome_tokens db = [EnvChange 1 db (lit ''master''), Info (new_message 5701 0 msg),
      EnvChange 4 (lit ''4096'') (lit ''4096''), LoginAck TDS_7_4 (lit ''Microsoft SQL Server (xmip)''),
      Done 0 0]"
    by (simp only: welcome_tokens_def msg_def default_size_text ENV_DATABASE_def ENV_PACKET_SIZE_def)
  have names: "name_fits (lit ''master'')" "name_fits (lit ''4096'')"
    "name_fits (lit ''Microsoft SQL Server (xmip)'')"
    by (simp_all add: name_fits_def)
  show "tokens_fit K [] (welcome_tokens db)"
    by (simp add: tokens token_fits_def columns_after_def names assms msg)
  show "tokens_shown K [] (welcome_tokens db) = welcome_tokens db"
    by (simp add: tokens token_shown_def columns_after_def)
  have "parse_u16 (lit ''4096'') = Some 4096"
    using parse_u16_dec_nat [of 4096] default_size_text by simp
  then show "login_answer [] DEFAULT_PACKET_SIZE (welcome_tokens db) =
      Inr (lit ''Microsoft SQL Server (xmip)'', DEFAULT_PACKET_SIZE, True)"
    by (simp add: tokens login_answer_def token_views List.map_filter_simps clamp_size_def)
  show "length (encode_tokens K (welcome_tokens db)) \<le> 4096"
    using db msg
    by (simp add: tokens encode_tokens_bytes token_bytes_simps columns_after_def b_varchar_length
        names assms length_message_body)
qed

lemma refusal_read:
  assumes "is_str s" and "14 + 2 * utf16_units s < 65536"
  shows "tokens_fit K [] (refusal_tokens s)"
    and "tokens_shown K [] (refusal_tokens s) = refusal_tokens s"
    and "login_answer program psize (refusal_tokens s) = Inl (sql_error (new_message LOGIN_FAILED 14 s))"
    and "length (encode_tokens K (refusal_tokens s)) \<le> 65600"
proof -
  have m: "message_fits (new_message LOGIN_FAILED 14 s)" using assms by (simp add: message_of_text)
  show "tokens_fit K [] (refusal_tokens s)"
    using m by (simp add: refusal_tokens_def token_fits_def)
  show "tokens_shown K [] (refusal_tokens s) = refusal_tokens s"
    by (simp add: refusal_tokens_def token_shown_def)
  show "login_answer program psize (refusal_tokens s) = Inl (sql_error (new_message LOGIN_FAILED 14 s))"
    by (simp add: refusal_tokens_def login_answer_def token_views List.map_filter_simps)
  show "length (encode_tokens K (refusal_tokens s)) \<le> 65600"
    using m assms by (simp add: refusal_tokens_def encode_tokens_bytes token_bytes_simps
        length_message_body)
qed

lemma login_length:
  assumes "login_fits l"
  shows "length (encode_login7 K pid l) \<le> 65536"
proof -
  obtain len tr where "encode_login7 K pid l =
      login_message len (l7_packet_size l) pid (login_fields K l) (tr @ concat (login_fields K l))"
    and "length tr = 22"
    using encode_login7_message by blast
  then show ?thesis
    using assms by (simp add: login_message_def login_fields_def login_fits_def login_strings_def
        utf16_length)
qed

end

text \<open>The server's pre-login.\<close>

lemma server_prelogin_read:
  assumes "cursor K"
  shows "read_prelogin K (encode_prelogin server_prelogin) = Inr server_prelogin"
    and "read_prelogin K (encode_prelogin default_prelogin) = Inr default_prelogin"
    and "pl_encryption server_prelogin \<in> {ENCRYPT_NOT_SUP, ENCRYPT_OFF}"
    and "length (encode_prelogin server_prelogin) \<le> 65536"
    and "length (encode_prelogin default_prelogin) \<le> 65536"
proof -
  show "read_prelogin K (encode_prelogin server_prelogin) = Inr server_prelogin"
    "read_prelogin K (encode_prelogin default_prelogin) = Inr default_prelogin"
    by (rule prelogin_reads_back [OF assms];
        simp add: server_prelogin_def default_prelogin_def as_bytes_def)+
qed (simp_all add: server_prelogin_def default_prelogin_def encode_prelogin_bytes as_bytes_def
    entry_bytes_def)

subsection \<open>A SQL crate\<close>

text \<open>One that keeps the laws, for the witnesses: columns hold bytes, an INSERT is one of the
  form the crate writes.\<close>

definition parse_insert :: "str \<Rightarrow> (str \<times> str \<times> byte list) option" where
  "parse_insert s =
     (let s = drop 13 s; t = takeWhile (\<lambda>c. c \<noteq> 93) s;
          s = drop (length t + 4) s; c = takeWhile (\<lambda>c. c \<noteq> 93) s;
          s = drop (length c + 11) s
      in map_option (\<lambda>v. (t, c, v)) (unquote_hex (takeWhile (\<lambda>c. c \<noteq> 41) s)))"

definition reference_sql :: "(unit, byte list, byte list) sql_crate" where
  "reference_sql = \<lparr>
     of_statement = (\<lambda>s. if take 6 s = lit ''SELECT'' then Some Select
       else if take 6 s = lit ''INSERT'' then Some Insert else Some OtherVerb),
     parse_insert_literal = parse_insert,
     stored = (\<lambda>_ v. v),
     ct_equal = (\<lambda>xs ys. xs = ys)\<rparr>"

interpretation reference_constant_time: constant_time reference_sql
  by unfold_locales (simp add: reference_sql_def)

definition idle_session :: "byte list \<Rightarrow> (unit, unit) session" where
  "idle_session bs = new_session \<lparr>incoming = bs, ending = Closed\<rparr> quiet_writer (lit ''peer'') () ()"

lemma idle_session_simps [simp]:
  "ss_reader (idle_session bs) = \<lparr>incoming = bs, ending = Closed\<rparr>"
  "ss_writer (idle_session bs) = quiet_writer"
  by (simp_all add: idle_session_def new_session_def)

subsection \<open>Properties\<close>

text \<open>C10: A client is logged in exactly when no login was expected or the one expected is the one
  given, user and password both; what the session then holds is the login as the client wrote
  it. A refused client is told error 18456 before the session gives up, and no client is ever
  told it is logged in when it is not.\<close>

theorem accept_checks_login:
  assumes "codec K" and "body_ceiling K" and "constant_time Q" and "sound (ss_writer s)"
    and "login_fits l" and "pred_option (\<lambda>e. is_str (login_password e)) expected"
    and "read_prelogin K pre = Inr p" and "length pre \<le> max_body K"
    and "length (encode_login7 K pid l) \<le> max_body K"
    and "incoming (ss_reader s) = packets K PRELOGIN pre n
      @ packets K LOGIN7 (encode_login7 K pid l) m @ rest"
  shows "accept_on K Q expected s =
    (let welcome = (expected = None \<or> expected = Some (l7_login l));
         failed = failed_text (login_user (l7_login l));
         tokens = (if welcome then welcome_tokens (l7_database l) else refusal_tokens failed)
     in (if welcome then Inr () else Inl (Permanent failed),
         s\<lparr>ss_reader := (ss_reader s)\<lparr>incoming := rest\<rparr>, ss_login := l,
           ss_writer := (ss_writer s)\<lparr>sent := sent (ss_writer s)
             @ packets K TABULAR_RESULT (encode_prelogin server_prelogin) DEFAULT_PACKET_SIZE
             @ packets K TABULAR_RESULT (encode_tokens K tokens) DEFAULT_PACKET_SIZE\<rparr>\<rparr>))"
proof -
  have "is_str (login_password (l7_login l))"
    using assms(5) by (simp add: login_fits_def login_strings_def)
  from constant_time.login_refused_iff [OF assms(3) this assms(6)] show ?thesis
    using accept_login [OF assms(1,2,4,5,7-10), of Q expected] by (simp add: Let_def)
qed

definition sample_login :: login7 where
  "sample_login = new_login7 \<lparr>login_user = lit ''xmip'', login_password = lit ''secret''\<rparr> (lit ''orders'')"

lemma sample_login_facts:
  "login_fits sample_login" "login_user (l7_login sample_login) = lit ''xmip''"
  "login_password (l7_login sample_login) = lit ''secret''" "l7_database sample_login = lit ''orders''"
  "length (encode_login7 reference pid sample_login) \<le> max_body reference"
proof -
  show fits: "login_fits sample_login"
    by (simp add: sample_login_def login_fits_def login_strings_def new_login7_def)
  show "length (encode_login7 reference pid sample_login) \<le> max_body reference"
    using codec.login_length [OF reference_laws(4) fits, of pid] by simp
qed (simp_all add: sample_login_def new_login7_def)

theorem accept_checks_login_witness:
  "fst (accept_on reference reference_sql (Some \<lparr>login_user = lit ''xmip'', login_password = []\<rparr>)
     (idle_session (packets reference PRELOGIN (encode_prelogin default_prelogin) 4096
       @ packets reference LOGIN7 (encode_login7 reference 7 sample_login) 4096 @ []))) =
   Inl (Permanent (failed_text (lit ''xmip'')))"
proof -
  let ?e = "Some \<lparr>login_user = lit ''xmip'', login_password = []\<rparr> :: login option"
  have "lit ''secret'' \<noteq> []" by (simp add: lit_def)
  then have "?e \<noteq> Some (l7_login sample_login)"
    using sample_login_facts(3) by (metis login.select_convs(2) option.inject)
  moreover have "pred_option (\<lambda>e. is_str (login_password e)) ?e" by simp
  moreover have "length (encode_prelogin default_prelogin) \<le> max_body reference"
    using server_prelogin_read(5) [OF reference_laws(1)] by simp
  ultimately show ?thesis
    by (subst accept_checks_login [OF reference_laws(4,5) reference_constant_time.constant_time_axioms
          _ sample_login_facts(1) _ server_prelogin_read(2) [OF reference_laws(1)] _ sample_login_facts(5)])
      (simp_all only: idle_session_simps quiet_writer_sound reader.simps Let_def fst_conv if_False
        sample_login_facts option.distinct simp_thms)
qed

text \<open>C11: Whatever bytes a client sends and however the connection fails: unless its second message
  was a login with the user and the password expected, it is told nothing but the pre-login and
  at most the refusal, and no session comes of it. A session that comes of it holds that login.\<close>

theorem let_in_only_by_login:
  fixes Q :: "('h, 'v, 'p, 'y) sql_crate_scheme" and s :: "('k, 'h) session"
  assumes "constant_time Q" and "accept_on K Q expected s = (res, s')"
  shows "(res \<noteq> Inr () \<and> (\<exists>n u. sent (ss_writer s') = sent (ss_writer s) @
      take n (packets K TABULAR_RESULT (encode_prelogin server_prelogin) DEFAULT_PACKET_SIZE
        @ packets K TABULAR_RESULT (encode_tokens K (refusal_tokens (failed_text u))) DEFAULT_PACKET_SIZE)))
    \<or> (\<exists>pre r1 body r2 l. read_message K (ss_reader s) = (Inr (Some (PRELOGIN, pre)), r1) \<and>
      read_message K r1 = (Inr (Some (LOGIN7, body)), r2) \<and> read_login7 K body = Inr l \<and>
      ss_login s' = l \<and> (\<forall>e. expected = Some e \<longrightarrow> login_user e = login_user (l7_login l) \<and>
        as_bytes (login_password e) = as_bytes (login_password (l7_login l))))"
proof -
  define p where "p = packets K TABULAR_RESULT (encode_prelogin server_prelogin) DEFAULT_PACKET_SIZE"
  define q where "q = (\<lambda>u. packets K TABULAR_RESULT (encode_tokens K (refusal_tokens (failed_text u)))
    DEFAULT_PACKET_SIZE)"
  have told: ?thesis if "res \<noteq> Inr ()" "\<exists>n u. sent (ss_writer s') = sent (ss_writer s) @ take n (p @ q u)"
    using that unfolding p_def q_def by blast
  from accept_on_greets_first [OF assms(2), folded p_def] show ?thesis
  proof (elim disjE conjE exE)
    fix n assume "res \<noteq> Inr ()" and "sent (ss_writer s') = sent (ss_writer s) @ take n p"
    then show ?thesis by (intro told told_so_far) blast+
  next
    fix pre and t :: "('k, 'h) session"
    assume greeted: "read_message K (ss_reader s) = (Inr (Some (PRELOGIN, pre)), ss_reader t)"
      "sent (ss_writer t) = sent (ss_writer s) @ p" and "take_login K Q expected t = (res, s')"
    from take_login_told [OF assms(1) this(3)] show ?thesis
    proof (elim disjE conjE exE)
      fix n u assume "res \<noteq> Inr ()" and "sent (ss_writer s') = sent (ss_writer t) @ take n
        (packets K TABULAR_RESULT (encode_tokens K (refusal_tokens (failed_text u))) DEFAULT_PACKET_SIZE)"
      moreover from this have "sent (ss_writer s') = sent (ss_writer s) @ take (length p + n) (p @ q u)"
        by (simp add: greeted(2) q_def)
      ultimately show ?thesis by (intro told) blast+
    qed (use greeted(1) in blast)
  qed
qed

theorem let_in_only_by_login_witness:
  "\<exists>n u. sent (ss_writer (snd (accept_on reference reference_sql
      (Some \<lparr>login_user = lit ''xmip'', login_password = lit ''secret''\<rparr>) (idle_session [0x47, 0x45, 0x54])))) =
    take n (packets reference TABULAR_RESULT (encode_prelogin server_prelogin) DEFAULT_PACKET_SIZE
      @ packets reference TABULAR_RESULT (encode_tokens reference (refusal_tokens (failed_text u)))
        DEFAULT_PACKET_SIZE)"
proof -
  have "fst (read_message reference \<lparr>incoming = [0x47, 0x45, 0x54], ending = Closed\<rparr>) \<noteq> Inr (Some x)" for x
    by (simp add: read_message_def read_packets.simps [of reference] read1_def read_exact_def)
  then show ?thesis
    using let_in_only_by_login [OF reference_constant_time.constant_time_axioms surjective_pairing,
        of reference "Some \<lparr>login_user = lit ''xmip'', login_password = lit ''secret''\<rparr>"
          "idle_session [0x47, 0x45, 0x54]"]
    by (auto simp: prod_eq_iff)
qed


text \<open>C17: A session answers the batches a client sends in the order they were sent, one answer
  each and nothing else, and reports what the client did in that order when it has closed,
  whatever the closure that answers keeps in mind from one to the next.\<close>

theorem serve_answers_in_order:
  assumes "codec K" and "body_ceiling K"
    and "list_all (\<lambda>sql. is_str sql \<and> length (encode_batch K sql) \<le> max_body K) sqls"
    and "sound (ss_writer s)" and "ending (ss_reader s) = Closed"
    and "incoming (ss_reader s) = concat (map (batch_packets K n) sqls)"
  shows "\<exists>s'. serve K Q s = (Inr (map snd (replies Q sqls s)), s') \<and>
    sent (ss_writer s') = sent (ss_writer s) @ concat (map (\<lambda>x. answer_packets K (fst x)) (replies Q sqls s))"
  using serve_closed [OF assms, of Q "[]"] by (auto simp: serve_def)

theorem serve_answers_in_order_witness:
  "fst (serve reference reference_sql (idle_session
     (concat (map (batch_packets reference 512) [lit ''SELECT 1'', lit ''DELETE FROM t''])))) =
   Inr [Selected (lit ''SELECT 1''), Executed (lit ''DELETE FROM t'')]"
proof -
  let ?sqls = "[lit ''SELECT 1'', lit ''DELETE FROM t'']"
  have "map snd (replies reference_sql ?sqls (idle_session bs)) =
      [Selected (lit ''SELECT 1''), Executed (lit ''DELETE FROM t'')]" for bs
    by (simp add: answer_batch_def idle_session_def new_session_def reference_sql_def lit_def)
  moreover have "length (encode_batch reference s) = 22 + 2 * utf16_units s" for s
    by (simp add: encode_batch_def reference_laws(3) [THEN text_forms.utf16_length])
  ultimately show ?thesis
    using serve_answers_in_order [OF reference_laws(4,5), of ?sqls
        "idle_session (concat (map (batch_packets reference 512) ?sqls))" 512 reference_sql]
    by auto
qed

text \<open>After the login a message that is not a batch is refused, by name, and nothing is answered.\<close>

lemma stray_packet_refused:
  assumes "byte_writer K" and "body_ceiling K" and "is_packet_type kind" and "kind \<noteq> SQL_BATCH"
    and "length body \<le> max_body K" and "incoming (ss_reader s) = packets K kind body n @ rest"
  shows "next_event K Q s =
    (Inl (Protocol (lit ''packet type '' @ hex04 kind @ lit '' after the login'')),
     s\<lparr>ss_reader := (ss_reader s)\<lparr>incoming := rest\<rparr>\<rparr>)"
  using reader_message [OF assms(1,2,3,5,6)] assms(4) by (simp add: next_event_def)

text \<open>C8: Whatever a session answers, the client that asked makes of it what was meant: the table
  it was given cell for cell, the count, or the error by its number; and neither side is left
  with a byte of the exchange.\<close>

theorem client_reads_answer:
  assumes "codec K" and "body_ceiling K" and "sound (ss_writer s)" and "sound (cl_writer c)"
    and "is_str sql" and "length (encode_batch K sql) \<le> max_body K"
    and "answer_batch Q sql s = ((a, ev), s1)" and "answer_fits a"
    and "length (encode_tokens K (answer_tokens a)) \<le> max_body K"
    and heard: "incoming (ss_reader s) = packets K SQL_BATCH (encode_batch K sql) (cl_packet_size c)"
    and said: "sent (ss_writer (snd (next_event K Q s))) = sent (ss_writer s) @ incoming (cl_reader c)"
  shows "fst (next_event K Q s) = Inr (Some ev) \<and> fst (query K sql c) = answer_result a \<and>
    incoming (ss_reader (snd (next_event K Q s))) = [] \<and>
    incoming (cl_reader (snd (query K sql c))) = [] \<and>
    sent (cl_writer (snd (query K sql c))) = sent (cl_writer c) @ incoming (ss_reader s)"
proof -
  have "incoming (ss_reader s) =
      packets K SQL_BATCH (encode_batch K sql) (cl_packet_size c) @ []"
    using heard by simp
  note event = next_event_batch [OF assms(1,2,3,5,6) this assms(7)]
  then have "incoming (cl_reader c) =
      packets K TABULAR_RESULT (encode_tokens K (answer_tokens a)) DEFAULT_PACKET_SIZE @ []"
    using said by simp
  note answered = query_answered [OF assms(1,2,4) codec.answer_tokens_shown(1) [OF assms(1,8)]
      assms(9) this, of sql]
  show ?thesis
    using event answered heard
    by (simp add: codec.answer_tokens_shown(2) [OF assms(1,8)] answer_tokens_result)
qed

theorem client_reads_answer_witness:
  "\<exists>(s :: (unit, unit) session) c. answer_batch reference_sql (lit ''SELECT 1'') s =
       ((Rows [lit ''id''] [[None]], Selected (lit ''SELECT 1'')), s) \<and>
     fst (query reference (lit ''SELECT 1'') c) =
       Inr \<lparr>qr_columns = [lit ''id''], qr_rows = [[None]], qr_rows_affected = 1\<rparr>"
proof -
  let ?sql = "lit ''SELECT 1''"
  define a where "a = Rows [lit ''id''] [[None]]"
  define s where "s = (idle_session (packets reference SQL_BATCH (encode_batch reference ?sql) 4096))
    \<lparr>ss_columns := [lit ''id''], ss_rows := [[None]]\<rparr>"
  define c where "c = new_client \<lparr>incoming = packets reference TABULAR_RESULT
    (encode_tokens reference (answer_tokens a)) 4096, ending = Closed\<rparr> quiet_writer"
  have ans: "answer_batch reference_sql ?sql s = ((a, Selected ?sql), s)"
    by (simp add: answer_batch_def s_def a_def idle_session_def new_session_def reference_sql_def lit_def)
  have fits: "answer_fits a" by (simp add: a_def answer_fits_def name_fits_def)
  have len: "length (encode_batch reference ?sql) \<le> max_body reference"
    by (simp add: encode_batch_def reference_laws(3) [THEN text_forms.utf16_length])
  have len2: "length (encode_tokens reference (answer_tokens a)) \<le> max_body reference"
    by (simp add: a_def answer_tokens_def codec.encode_tokens_bytes [OF reference_laws(4)]
        codec.token_bytes_simps [OF reference_laws(4)] columns_after_def column_bytes_def
        codec.push_column_bytes [OF reference_laws(4)] text_column_def new_column_def
        write_type_info_def codec.b_varchar_bytes [OF reference_laws(4)]
        codec.length_counted [OF reference_laws(4)] write_value_def write_bytes_def write_plp_def)
  have sounds: "sound (ss_writer s)" "sound (cl_writer c)"
    by (simp_all add: s_def c_def new_client_def)
  have heard: "incoming (ss_reader s) =
      packets reference SQL_BATCH (encode_batch reference ?sql) (cl_packet_size c)"
    by (simp add: s_def c_def new_client_def)
  have "incoming (ss_reader s) =
      packets reference SQL_BATCH (encode_batch reference ?sql) (cl_packet_size c) @ []"
    by (simp add: heard)
  from next_event_batch [OF reference_laws(4,5) sounds(1) is_str_lit len this ans]
  have said: "sent (ss_writer (snd (next_event reference reference_sql s))) =
      sent (ss_writer s) @ incoming (cl_reader c)"
    by (simp add: c_def new_client_def)
  have "fst (query reference ?sql c) = answer_result a"
    using client_reads_answer [OF reference_laws(4,5) sounds is_str_lit len ans fits len2 heard said]
    by simp
  with ans show ?thesis by (auto simp: a_def answer_result_def)
qed

end
