(* ===== verification/Transport.thy ===== *)
theory Transport
  imports Session
begin

text \<open>
  \<^verbatim>\<open>src/lib.rs\<close>: the transport. Settings, the pool of connections, the destination of a
  send and the literals of a column are other crates'; they come in as the record
  \<open>capability\<close>, the pool as a state of type \<open>'s\<close> on which an exchange runs a step of
  the client. What is modelled is what this crate does with them: the login it gives, the
  address and the statement of a send, the query of a receive, and what it hands up.
\<close>

definition SCHEMES :: "str list" where
  "SCHEMES = [lit ''mssql'', lit ''sqlserver'']"

definition DEFAULT_QUERY :: str where
  "DEFAULT_QUERY = lit ''SELECT id, payload FROM inbox ORDER BY id''"

definition LOOPBACK_DATABASE :: str where "LOOPBACK_DATABASE = lit ''probe''"
definition LOOPBACK_USER :: str where "LOOPBACK_USER = lit ''xmip''"
definition LOOPBACK_TARGET :: str where "LOOPBACK_TARGET = lit ''probe/payload''"

record dest =
  to_server :: str
  to_database :: str
  to_table :: str
  to_column :: str

text \<open>
  A transport; \<open>'h\<close> is \<^verbatim>\<open>transport::sql::Column\<close>, \<open>'d\<close> a duration, \<open>'r\<close> and \<open>'c\<close> the
  handles on the memory of refused rows and on the pool of connections.
\<close>

record ('h, 'd, 'r, 'c) mssql_transport =
  tr_server :: str
  tr_database :: str
  tr_user :: str
  tr_password :: "str option"
  tr_query :: str
  tr_accept :: "str option"
  tr_refused :: 'r
  tr_column :: 'h
  tr_timeout :: "'d option"
  tr_connections :: 'c

text \<open>
  What the crate makes of others' types: \<open>binary_column\<close> is \<^verbatim>\<open>Column::Binary\<close>,
  \<open>nothing_refused\<close> is \<^verbatim>\<open>RefusedRows::default()\<close>, \<open>new_pool\<close> is \<^verbatim>\<open>Pool::new()\<close>.
\<close>

record ('h, 'r, 'c) fresh =
  binary_column :: 'h
  nothing_refused :: 'r
  new_pool :: 'c

definition new_transport ::
    "('h, 'r, 'c) fresh \<Rightarrow> str \<Rightarrow> str \<Rightarrow> str \<Rightarrow> ('h, 'd, 'r, 'c) mssql_transport" where
  "new_transport F server db usr = \<lparr>
     tr_server = server, tr_database = db, tr_user = usr, tr_password = None,
     tr_query = DEFAULT_QUERY, tr_accept = None, tr_refused = nothing_refused F,
     tr_column = binary_column F, tr_timeout = None, tr_connections = new_pool F\<rparr>"

definition with_password :: "str \<Rightarrow> ('h, 'd, 'r, 'c) mssql_transport \<Rightarrow> ('h, 'd, 'r, 'c) mssql_transport" where
  "with_password p t = t\<lparr>tr_password := Some p\<rparr>"

definition with_query :: "str \<Rightarrow> ('h, 'd, 'r, 'c) mssql_transport \<Rightarrow> ('h, 'd, 'r, 'c) mssql_transport" where
  "with_query q t = t\<lparr>tr_query := q\<rparr>"

definition with_accept :: "str \<Rightarrow> ('h, 'd, 'r, 'c) mssql_transport \<Rightarrow> ('h, 'd, 'r, 'c) mssql_transport" where
  "with_accept a t = t\<lparr>tr_accept := Some a\<rparr>"

definition transport_holding :: "'h \<Rightarrow> ('h, 'd, 'r, 'c) mssql_transport \<Rightarrow> ('h, 'd, 'r, 'c) mssql_transport" where
  "transport_holding h t = t\<lparr>tr_column := h\<rparr>"

definition timing_out_after :: "'d \<Rightarrow> ('h, 'd, 'r, 'c) mssql_transport \<Rightarrow> ('h, 'd, 'r, 'c) mssql_transport" where
  "timing_out_after d t = t\<lparr>tr_timeout := Some d\<rparr>"

definition transport_login :: "('h, 'd, 'r, 'c) mssql_transport \<Rightarrow> login" where
  "transport_login t = \<lparr>login_user = tr_user t,
     login_password = (case tr_password t of None \<Rightarrow> [] | Some p \<Rightarrow> p)\<rparr>"

definition loopback :: "('h, 'r, 'c) fresh \<Rightarrow> 'd \<Rightarrow> ('h, 'd, 'r, 'c) mssql_transport" where
  "loopback F d =
     timing_out_after d (new_transport F (lit ''127.0.0.1:0'') LOOPBACK_DATABASE LOOPBACK_USER)"

text \<open>What a transport says of itself, in the capability's terms as far as this crate uses them.\<close>

datatype directions = BothDirections
datatype arrival_order = Ordered str
datatype waiting = Polled str
datatype arrival_identity = Unnamed str
datatype resource_claim = NoNativeClaim

definition transport_name :: str where
  "transport_name = lit ''mssql''"

definition transport_directions :: directions where
  "transport_directions = BothDirections"

definition transport_arrivals :: arrival_order where
  "transport_arrivals = Ordered (lit ''a poll reads again what is not yet told'')"

definition transport_waiting :: waiting where
  "transport_waiting = Polled (lit ''a receive runs the query and returns'')"

definition transport_claims :: "resource_claim option" where
  "transport_claims = Some NoNativeClaim"

definition transport_identity :: arrival_identity where
  "transport_identity =
     Unnamed (lit ''a row names no sender: the database it was read from is in its origin'')"

subsection \<open>Settings\<close>

text \<open>What a setting is declared as, as far as this crate declares any.\<close>

datatype kind = TextKind | DurationKind
datatype presence = Required | DefaultText str | Optional
datatype applies = BothSides | ReceiveSide

record setting =
  st_name :: string
  st_kind :: kind
  st_presence :: presence
  st_meaning :: string
  st_applies :: applies

record declared_settings =
  technology :: string
  settings :: "setting list"

text \<open>
  The settings of other crates this one declares too, the accept statement, the column and its
  encoding, are parameters. The technology is the crate's name, of \<^verbatim>\<open>Cargo.toml\<close>.
\<close>

definition SETTINGS :: "setting \<Rightarrow> setting \<Rightarrow> setting \<Rightarrow> declared_settings" where
  "SETTINGS ACCEPT COLUMN ENCODING = \<lparr>
     technology = ''xmip-core-transport-mssql'',
     settings = [
     \<lparr>st_name = ''database'', st_kind = TextKind, st_presence = Required,
      st_meaning = ''The database logged in to, and a send target's when it names none.'',
      st_applies = BothSides\<rparr>,
     \<lparr>st_name = ''user'', st_kind = TextKind, st_presence = Required,
      st_meaning = ''The SQL Server login, its password the credentials'.'',
      st_applies = BothSides\<rparr>,
     \<lparr>st_name = ''query'', st_kind = TextKind, st_presence = DefaultText DEFAULT_QUERY,
      st_meaning = ''The query a receive runs: first column a row's name, last its Stream.'',
      st_applies = ReceiveSide\<rparr>,
     ACCEPT, COLUMN, ENCODING,
     \<lparr>st_name = ''timeout'', st_kind = DurationKind, st_presence = Optional,
      st_meaning = ''How long a server that stops mid-message is waited on.'',
      st_applies = BothSides\<rparr>]\<rparr>"

text \<open>What was read of a Location's settings: texts and durations by name, and what
  \<^verbatim>\<open>Column::configured\<close> makes of them.\<close>

record ('h, 'd) settings_read =
  set_text :: "string \<Rightarrow> str"
  set_optional_text :: "string \<Rightarrow> str option"
  set_duration :: "string \<Rightarrow> 'd option"
  set_column :: "terror + 'h"

definition configured ::
    "('h, 'r, 'c) fresh \<Rightarrow> setting \<Rightarrow> str \<Rightarrow> ('h, 'd) settings_read
       \<Rightarrow> terror + ('h, 'd, 'r, 'c) mssql_transport" where
  "configured F ACCEPT address st =
     (let t = new_transport F address (set_text st ''database'') (set_text st ''user'');
          t = (case set_optional_text st ''query'' of Some q \<Rightarrow> with_query q t | None \<Rightarrow> t);
          t = (case set_optional_text st (st_name ACCEPT) of Some a \<Rightarrow> with_accept a t | None \<Rightarrow> t)
      in and_then (set_column st) (\<lambda>h.
           let t = transport_holding h t in
           Inr (case set_duration st ''timeout'' of Some d \<Rightarrow> timing_out_after d t | None \<Rightarrow> t)))"

subsection \<open>The transport capability\<close>

text \<open>
  What this crate calls of others to receive and send. The state of type \<open>'s\<close> is what the pools
  and the memories of refused rows hold. An exchange, on a pool, gets the connection kept under a
  key or what connecting gives, and runs a step on it (it is taken at the two types it is used
  at); \<open>arrivals\<close> makes Streams of rows and \<open>accepting\<close> the verdict of one; \<open>clone_pool\<close>
  is the handle a clone of a transport holds.
\<close>

record ('h, 'r, 'c, 's, 'verdict, 'arrived) capability =
  destination :: "str list \<Rightarrow> str \<Rightarrow> str \<Rightarrow> str \<Rightarrow> terror + dest"
  literal :: "'h \<Rightarrow> byte list \<Rightarrow> terror + str"
  bytes_in :: "'h \<Rightarrow> str \<Rightarrow> terror + byte list"
  insert_statement :: "str \<Rightarrow> str \<Rightarrow> str \<Rightarrow> str"
  clone_pool :: "'c \<Rightarrow> 'c"
  exchange_query :: "'c \<Rightarrow> str \<Rightarrow> terror + client \<Rightarrow> (client, query_result) act \<Rightarrow> ('s, query_result) act"
  exchange_unit :: "'c \<Rightarrow> str \<Rightarrow> terror + client \<Rightarrow> (client, unit) act \<Rightarrow> ('s, unit) act"
  accepting :: "str option \<Rightarrow> str \<Rightarrow> (str \<Rightarrow> ('s, unit) act) \<Rightarrow> 'verdict"
  arrivals :: "str option list list \<Rightarrow> 'r \<Rightarrow> (str \<Rightarrow> str) \<Rightarrow> (str \<Rightarrow> str) \<Rightarrow> (str \<Rightarrow> terror + byte list)
      \<Rightarrow> (str \<Rightarrow> 'verdict) \<Rightarrow> ('s, 'arrived list) act"

definition clone_transport ::
    "('h, 'r, 'c, 's, 'verdict, 'arrived) capability \<Rightarrow> ('h, 'd, 'r, 'c) mssql_transport
       \<Rightarrow> ('h, 'd, 'r, 'c) mssql_transport" where
  "clone_transport C t = t\<lparr>tr_connections := clone_pool C (tr_connections t)\<rparr>"

text \<open>\<open>dial\<close> opens a socket to a server, \<open>pid\<close> is the process.\<close>

type_synonym 'd dialling = "str \<Rightarrow> 'd option \<Rightarrow> terror + reader \<times> writer"

definition connect_to ::
    "'z externals_scheme \<Rightarrow> 32 word \<Rightarrow> 'd dialling \<Rightarrow> ('h, 'd, 'r, 'c) mssql_transport
       \<Rightarrow> str \<Rightarrow> str \<Rightarrow> terror + client" where
  "connect_to K pid dial t server db =
     connect K pid (dial server (tr_timeout t)) db (transport_login t)"

definition transport_connect ::
    "'z externals_scheme \<Rightarrow> 32 word \<Rightarrow> 'd dialling \<Rightarrow> ('h, 'd, 'r, 'c) mssql_transport
       \<Rightarrow> terror + client" where
  "transport_connect K pid dial t = connect_to K pid dial t (tr_server t) (tr_database t)"

text \<open>The key a connection is kept under, and a statement run for its effect.\<close>

definition pool_key :: "str \<Rightarrow> str \<Rightarrow> str" where
  "pool_key server db = server @ lit ''/'' @ db"

definition run_statement :: "'z externals_scheme \<Rightarrow> str \<Rightarrow> (client, unit) act" where
  "run_statement K sql = act_bind (execute K sql) (\<lambda>_. act_return ())"

text \<open>What the verdict of a row runs, its name bound in.\<close>

definition run_accept ::
    "'z externals_scheme \<Rightarrow> 32 word \<Rightarrow> 'd dialling
       \<Rightarrow> ('h, 'r, 'c, 's, 'verdict, 'arrived) capability \<Rightarrow> ('h, 'd, 'r, 'c) mssql_transport
       \<Rightarrow> str \<Rightarrow> ('s, unit) act" where
  "run_accept K pid dial C t sql =
     exchange_unit C (tr_connections t) (pool_key (tr_server t) (tr_database t))
       (transport_connect K pid dial t) (run_statement K sql)"

definition receive ::
    "'z externals_scheme \<Rightarrow> 32 word \<Rightarrow> 'd dialling
       \<Rightarrow> ('h, 'r, 'c, 's, 'verdict, 'arrived) capability \<Rightarrow> ('h, 'd, 'r, 'c) mssql_transport
       \<Rightarrow> ('s, 'arrived list) act" where
  "receive K pid dial C t =
     act_bind (exchange_query C (tr_connections t) (pool_key (tr_server t) (tr_database t))
         (transport_connect K pid dial t) (query K (tr_query t))) (\<lambda>result.
       let shared = clone_transport C t in
       arrivals C (qr_rows result) (tr_refused t)
         (\<lambda>name. lit ''mssql://'' @ tr_server t @ lit ''/'' @ tr_database t @ lit ''?row='' @ name)
         (\<lambda>value. value)
         (bytes_in C (tr_column t))
         (\<lambda>name. accepting C (tr_accept t) name (run_accept K pid dial C shared)))"

definition send ::
    "'z externals_scheme \<Rightarrow> 32 word \<Rightarrow> 'd dialling
       \<Rightarrow> ('h, 'r, 'c, 's, 'verdict, 'arrived) capability \<Rightarrow> ('h, 'd, 'r, 'c) mssql_transport
       \<Rightarrow> str \<Rightarrow> byte list \<Rightarrow> ('s, unit) act" where
  "send K pid dial C t target bytes =
     act_bind (act_lift (destination C SCHEMES target (tr_server t) (tr_database t))) (\<lambda>d.
     act_bind (act_lift (literal C (tr_column t) bytes)) (\<lambda>l.
       exchange_unit C (tr_connections t) (pool_key (to_server d) (to_database d))
         (connect_to K pid dial t (to_server d) (to_database d))
         (run_statement K (insert_statement C (to_table d) (to_column d) l))))"

definition send_to ::
    "'z externals_scheme \<Rightarrow> 32 word \<Rightarrow> 'd dialling
       \<Rightarrow> ('h, 'r, 'c, 's, 'verdict, 'arrived) capability \<Rightarrow> ('h, 'd, 'r, 'c) mssql_transport
       \<Rightarrow> str \<Rightarrow> byte list \<Rightarrow> ('s, unit) act" where
  "send_to K pid dial C t address payload =
     send K pid dial C ((clone_transport C t)\<lparr>tr_server := address\<rparr>) LOOPBACK_TARGET payload"

subsection \<open>The far end\<close>

text \<open>\<open>bind_tcp\<close> binds an address, \<open>listening\<close> makes a far end of a transport and what it bound.\<close>

definition bind_transport :: "(str \<Rightarrow> terror + 'l) \<Rightarrow> ('h, 'd, 'r, 'c) mssql_transport \<Rightarrow> terror + 'l" where
  "bind_transport bind_tcp t = bind_tcp (tr_server t)"

definition far_end_of ::
    "('h, 'r, 'c, 's, 'verdict, 'arrived) capability \<Rightarrow> (str \<Rightarrow> terror + 'l)
       \<Rightarrow> (('h, 'd, 'r, 'c) mssql_transport \<Rightarrow> 'l \<Rightarrow> 'far) \<Rightarrow> ('h, 'd, 'r, 'c) mssql_transport
       \<Rightarrow> terror + 'far" where
  "far_end_of C bind_tcp listening t =
     and_then (bind_transport bind_tcp t) (\<lambda>bound. Inr (listening (clone_transport C t) bound))"

definition accept_one ::
    "'z externals_scheme \<Rightarrow> ('h, 'v, 'p, 'y) sql_crate_scheme \<Rightarrow> terror + reader \<times> writer \<times> str
       \<Rightarrow> 'k \<Rightarrow> 'h \<Rightarrow> ('h, 'd, 'r, 'c) mssql_transport \<Rightarrow> terror + ('k, 'h) session" where
  "accept_one K Q accepted k binary t =
     and_then (accept K Q accepted (map_option (\<lambda>_. transport_login t) (tr_password t)) k binary)
       (\<lambda>s. Inr (holding (tr_column t) s))"

definition take_one ::
    "'z externals_scheme \<Rightarrow> ('h, 'v, 'p, 'y) sql_crate_scheme \<Rightarrow> ('k, 'h, 'p) insert_loop
       \<Rightarrow> terror + reader \<times> writer \<times> str \<Rightarrow> 'k \<Rightarrow> 'h \<Rightarrow> ('h, 'd, 'r, 'c) mssql_transport
       \<Rightarrow> terror + str \<times> 'p" where
  "take_one K Q first_insert accepted k binary t =
     and_then (accept_one K Q accepted k binary t) (\<lambda>s.
     and_then (fst (next_insert K Q first_insert s)) (\<lambda>taken.
       case taken of
         Some x \<Rightarrow> Inr x
       | None \<Rightarrow> Inl (Protocol (lit ''the client closed without inserting''))))"

subsection \<open>Properties\<close>

text \<open>The default a setting is declared with.\<close>

definition declared_default :: "declared_settings \<Rightarrow> string \<Rightarrow> str option" where
  "declared_default D name = (case find (\<lambda>s. st_name s = name) (settings D) of
     None \<Rightarrow> None
   | Some s \<Rightarrow> (case st_presence s of DefaultText d \<Rightarrow> Some d | _ \<Rightarrow> None))"

text \<open>C40: A Location configures a transport from what this crate declares as settings, each read as
  the kind it is declared to be, and from nothing else: two tables that agree there give the same
  result. It is the column's error where the column has one; else the transport of the
  Location's address, with the table's database and user, its query or the one declared as the
  default, its accept statement and timeout where it gives them, its column, no password,
  nothing refused yet and a pool of its own.\<close>

theorem configured_as_declared:
  assumes "\<forall>s \<in> set (settings (SETTINGS ACCEPT COLUMN ENCODING)). case st_kind s of
      TextKind \<Rightarrow> set_text a (st_name s) = set_text b (st_name s) \<and>
        set_optional_text a (st_name s) = set_optional_text b (st_name s)
    | DurationKind \<Rightarrow> set_duration a (st_name s) = set_duration b (st_name s)"
    and "st_kind ACCEPT = TextKind" and "set_column a = set_column b"
  shows "configured F ACCEPT address a = configured F ACCEPT address b \<and>
    configured F ACCEPT address a = (case set_column a of
      Inl e \<Rightarrow> Inl e
    | Inr h \<Rightarrow> Inr \<lparr>
        tr_server = address,
        tr_database = set_text a ''database'',
        tr_user = set_text a ''user'',
        tr_password = None,
        tr_query = (case set_optional_text a ''query'' of
            Some q \<Rightarrow> q
          | None \<Rightarrow> the (declared_default (SETTINGS ACCEPT COLUMN ENCODING) ''query'')),
        tr_accept = set_optional_text a (st_name ACCEPT),
        tr_refused = nothing_refused F,
        tr_column = h,
        tr_timeout = set_duration a ''timeout'',
        tr_connections = new_pool F\<rparr>)"
proof
  show "configured F ACCEPT address a = configured F ACCEPT address b"
    using assms by (simp add: SETTINGS_def configured_def)
qed (auto simp: configured_def SETTINGS_def declared_default_def and_then_def Let_def new_transport_def
    with_query_def with_accept_def transport_holding_def timing_out_after_def
    split: option.split sum.split)

theorem configured_as_declared_witness:
  "configured \<lparr>binary_column = (), nothing_refused = (), new_pool = ()\<rparr>
     \<lparr>st_name = ''accept'', st_kind = TextKind, st_presence = Optional, st_meaning = [], st_applies = ReceiveSide\<rparr>
     (lit ''sql:1433'') \<lparr>set_text = (\<lambda>n. if n = ''user'' then lit ''xmip'' else lit ''orders''),
       set_optional_text = (\<lambda>_. None), set_duration = (\<lambda>_. Some (30 :: nat)), set_column = Inr ()\<rparr> =
   Inr \<lparr>tr_server = lit ''sql:1433'', tr_database = lit ''orders'', tr_user = lit ''xmip'',
     tr_password = None, tr_query = lit ''SELECT id, payload FROM inbox ORDER BY id'', tr_accept = None,
     tr_refused = (), tr_column = (), tr_timeout = Some 30, tr_connections = ()\<rparr>"
proof -
  let ?F = "\<lparr>binary_column = (), nothing_refused = (), new_pool = ()\<rparr>"
  let ?A = "\<lparr>st_name = ''accept'', st_kind = TextKind, st_presence = Optional, st_meaning = [],
    st_applies = ReceiveSide\<rparr>"
  let ?st = "\<lparr>set_text = (\<lambda>n. if n = ''user'' then lit ''xmip'' else lit ''orders''),
    set_optional_text = (\<lambda>_. None), set_duration = (\<lambda>_. Some (30 :: nat)), set_column = Inr ()\<rparr>"
  have "the (declared_default (SETTINGS ?A ?A ?A) ''query'') = lit ''SELECT id, payload FROM inbox ORDER BY id''"
    by (simp add: declared_default_def SETTINGS_def DEFAULT_QUERY_def)
  then show ?thesis
    using configured_as_declared [of ?A ?A ?A ?st ?st ?F "lit ''sql:1433''"]
    by (simp split: kind.split)
qed

end
