(* ===== verification/Conversation.thy ===== *)
theory Conversation
  imports Transport
begin

text \<open>
  Both ends of one connection at once. The far end hears what the near end says and the near end
  what the far end says, each as its own program; \<open>conversing\<close> states just that, as an equation
  each way, and the properties follow what the two programs do to each other under it. The one
  fact it takes beside the components' lemmas is that an end only ever adds to what it has said.
\<close>

subsection \<open>Ends that speak\<close>

named_theorems speaking "actions that add to what has been said"

definition speaks :: "('s \<Rightarrow> writer) \<Rightarrow> ('s, 'a) act \<Rightarrow> bool" where
  "speaks W m \<longleftrightarrow> (\<forall>s. sound (W s) \<longrightarrow> sound (W (snd (m s))) \<and>
     (\<exists>z. sent (W (snd (m s))) = sent (W s) @ z))"

lemma speaksD:
  assumes "speaks W m" and "sound (W s)"
  obtains z where "sound (W (snd (m s)))" "sent (W (snd (m s))) = sent (W s) @ z"
  using assms by (auto simp: speaks_def)

lemma speaks_silent: "(\<And>s. W (snd (m s)) = W s) \<Longrightarrow> speaks W m"
  by (simp add: speaks_def)

lemma speaks_bind [speaking]:
  assumes "speaks W m" and "\<And>x. speaks W (f x)"
  shows "speaks W (act_bind m f)"
  unfolding speaks_def
proof (intro allI impI)
  fix s assume s: "sound (W s)"
  obtain r t where m: "m s = (r, t)" by fastforce
  obtain z where t: "sound (W t)" "sent (W t) = sent (W s) @ z"
    using speaksD [OF assms(1) s] m by auto
  show "sound (W (snd (act_bind m f s))) \<and> (\<exists>z. sent (W (snd (act_bind m f s))) = sent (W s) @ z)"
  proof (cases r)
    case (Inr x)
    obtain z' where "sound (W (snd (f x t)))" "sent (W (snd (f x t))) = sent (W t) @ z'"
      using speaksD [OF assms(2) t(1)] by blast
    with m t Inr show ?thesis by (simp add: act_bind_def)
  qed (use m t in \<open>simp add: act_bind_def\<close>)
qed

lemma speaks_basic [speaking]:
  "speaks W (act_return x)" "speaks W (act_fail e)" "speaks W (act_lift r)"
  by (simp_all add: speaks_silent)

lemma speaks_if [speaking]: "speaks W f \<Longrightarrow> speaks W g \<Longrightarrow> speaks W (if b then f else g)"
  by simp

lemma speaks_here: "(\<And>t. speaks W (f t)) \<Longrightarrow> speaks W (\<lambda>s. f s s)"
  by (simp add: speaks_def)

lemma speaks_pair [speaking]:
  "(\<And>x y. speaks W (f x y)) \<Longrightarrow> speaks W (case p of (x, y) \<Rightarrow> f x y)"
  by (cases p) simp

lemma speaks_look [speaking]: "speaks W (\<lambda>s. (f s, s))"
  by (rule speaks_silent) simp

lemma bind_extends:
  assumes "speaks W (f x)" and "m s = (Inr x, t)" and "sound (W t)" and "sent (W t) = p"
  shows "\<exists>z. sent (W (snd (act_bind m f s))) = p @ z \<and> sound (W (snd (act_bind m f s)))"
  using assms by (auto simp: act_bind_def speaks_def)

lemma bind_goes_on:
  assumes "\<exists>z. sent (W (snd (m s))) = p @ z \<and> sound (W (snd (m s)))" and "\<And>x. speaks W (f x)"
  shows "\<exists>z. sent (W (snd (act_bind m f s))) = p @ z"
proof (cases "m s")
  case (Pair r t)
  then show ?thesis
    using assms by (cases r) (auto simp: act_bind_def speaks_def, metis append_assoc)
qed

lemma client_settles [speaking]:
  "speaks cl_writer (\<lambda>c. (r, c\<lparr>cl_program := p, cl_packet_size := n\<rparr>))"
  by (rule speaks_silent) simp

lemma client_speaks [speaking]:
  "speaks cl_writer (client_write K kind payload)" "speaks cl_writer (client_read K)"
proof -
  show "speaks cl_writer (client_write K kind payload)"
    by (simp add: speaks_def client_write_sound)
  show "speaks cl_writer (client_read K)"
    by (rule speaks_silent) (auto simp: client_read_def split: prod.split sum.split option.split)
qed

lemma session_speaks [speaking]:
  "speaks ss_writer (session_write K kind payload)" "speaks ss_writer (session_read K kind)"
proof -
  show "speaks ss_writer (session_write K kind payload)"
    by (simp add: speaks_def session_write_sound)
  show "speaks ss_writer (session_read K kind)"
    by (rule speaks_silent) (auto simp: session_read_def split: prod.split sum.split option.split)
qed

lemma query_speaks [speaking]: "speaks cl_writer (query K sql)"
  unfolding query_def by (intro speaking) (auto intro!: speaking split: option.split)

lemma write_tokens_speaks [speaking]: "speaks ss_writer (write_tokens K ts)"
  unfolding write_tokens_def by (rule speaking)

lemma session_settles [speaking]: "speaks ss_writer (\<lambda>s. (r, s\<lparr>ss_login := l\<rparr>))"
  by (rule speaks_silent) simp

lemma verdict_speaks [speaking]:
  fixes Q :: "('h, 'v, 'p, 'y) sql_crate_scheme"
  shows "speaks ss_writer (\<lambda>s :: ('k, 'h) session.
      if login_refused Q expected (l7_login (ss_login s)) then
        act_bind (write_tokens K (refusal_tokens (failed_text (user s))))
          (\<lambda>_. act_fail (Permanent (failed_text (user s)))) s
      else write_tokens K (welcome_tokens (database s)) s)"
proof -
  define verdict :: "('k, 'h) session \<Rightarrow> (('k, 'h) session, unit) act" where "verdict = (\<lambda>t.
      if login_refused Q expected (l7_login (ss_login t)) then
        act_bind (write_tokens K (refusal_tokens (failed_text (user t))))
          (\<lambda>_. act_fail (Permanent (failed_text (user t))))
      else write_tokens K (welcome_tokens (database t)))"
  have "speaks ss_writer (\<lambda>s. verdict s s)"
    by (rule speaks_here) (auto simp: verdict_def intro!: speaking)
  then show ?thesis by (simp add: verdict_def if_distrib [of "\<lambda>f. f _"])
qed

lemma accept_on_speaks [speaking]:
  fixes Q :: "('h, 'v, 'p, 'y) sql_crate_scheme"
  shows "speaks ss_writer (accept_on K Q expected :: (('k, 'h) session, unit) act)"
  unfolding accept_on_def by (intro speaking)

lemma next_event_speaks [speaking]:
  fixes Q :: "('h, 'v, 'p, 'y) sql_crate_scheme"
  shows "speaks ss_writer (next_event K Q :: (('k, 'h) session, 'p event option) act)"
proof -
  have run: "speaks ss_writer (run_batch K Q body :: (('k, 'h) session, 'p event option) act)" for body
    unfolding speaks_def
  proof (intro allI impI)
    fix s :: "('k, 'h) session" assume s: "sound (ss_writer s)"
    show "sound (ss_writer (snd (run_batch K Q body s))) \<and>
      (\<exists>z. sent (ss_writer (snd (run_batch K Q body s))) = sent (ss_writer s) @ z)"
    proof (cases "read_batch K body")
      case (Inr sql)
      obtain a ev t where a: "answer_batch Q sql s = ((a, ev), t)" by (metis surj_pair)
      have "speaks ss_writer (act_bind (write_answer K a) (\<lambda>_. act_return (Some ev)))"
        unfolding write_answer_def by (intro speaking)
      from speaksD [OF this, of t] answer_batch_keeps [OF a] s a Inr show ?thesis
        by (auto simp: run_batch_def)
    qed (use s in \<open>simp add: run_batch_def\<close>)
  qed
  show ?thesis
    unfolding speaks_def
  proof (intro allI impI)
    fix s :: "('k, 'h) session" assume s: "sound (ss_writer s)"
    obtain x r where x: "read_message K (ss_reader s) = (x, r)" by fastforce
    show "sound (ss_writer (snd (next_event K Q s))) \<and>
      (\<exists>z. sent (ss_writer (snd (next_event K Q s))) = sent (ss_writer s) @ z)"
      using x s speaksD [OF run, of "s\<lparr>ss_reader := r\<rparr>"]
      by (auto simp: next_event_def split: sum.split option.split)
  qed
qed

lemma serve_from_says:
  "sound (ss_writer s) \<Longrightarrow> sound (ss_writer (snd (serve_from K Q events s))) \<and>
    (\<exists>z. sent (ss_writer (snd (serve_from K Q events s))) = sent (ss_writer s) @ z)"
proof (induction K Q events s rule: serve_from.induct)
  case (1 K Q events s)
  obtain x t where x: "next_event K Q s = (x, t)" by fastforce
  obtain z where t: "sound (ss_writer t)" "sent (ss_writer t) = sent (ss_writer s) @ z"
    using speaksD [OF next_event_speaks "1.prems", of K Q] x by auto
  have step: "serve_from K Q events s = (case x of
      Inl e \<Rightarrow> (Inl e, t) | Inr None \<Rightarrow> (Inr events, t)
    | Inr (Some ev) \<Rightarrow> serve_from K Q (events @ [ev]) t)"
    by (simp add: serve_from.simps [of K Q events s] x split: sum.split option.split)
  show ?case
  proof (cases "\<exists>ev. x = Inr (Some ev)")
    case True
    then show ?thesis using "1.IH" x t step by auto metis
  next
    case False
    then show ?thesis using t step by (auto split: sum.split option.split)
  qed
qed

lemma serve_speaks [speaking]: "speaks ss_writer (serve K Q)"
  by (simp add: speaks_def serve_def serve_from_says)

subsection \<open>The near end\<close>

text \<open>A client that runs one statement after another, whatever comes back.\<close>

fun queries ::
    "'z externals_scheme \<Rightarrow> str list \<Rightarrow> client \<Rightarrow> (terror + query_result) list \<times> client" where
  "queries K [] c = ([], c)"
| "queries K (sql # sqls) c =
     (case query K sql c of (r, c) \<Rightarrow> case queries K sqls c of (rs, c) \<Rightarrow> (r # rs, c))"

definition near_end ::
    "'z externals_scheme \<Rightarrow> 32 word \<Rightarrow> str \<Rightarrow> login \<Rightarrow> str list
       \<Rightarrow> (client, (terror + query_result) list) act" where
  "near_end K pid db l sqls =
     act_bind (connect_on K pid db l) (\<lambda>_ c. case queries K sqls c of (rs, c) \<Rightarrow> (Inr rs, c))"

text \<open>What is said on the way in.\<close>

definition hello :: "'z externals_scheme \<Rightarrow> byte list" where
  "hello K = packets K PRELOGIN (encode_prelogin default_prelogin) DEFAULT_PACKET_SIZE"

definition login_packets :: "'z externals_scheme \<Rightarrow> 32 word \<Rightarrow> str \<Rightarrow> login \<Rightarrow> byte list" where
  "login_packets K pid db l =
     packets K LOGIN7 (encode_login7 K pid (new_login7 l db)) DEFAULT_PACKET_SIZE"

definition hello_back :: "'z externals_scheme \<Rightarrow> byte list" where
  "hello_back K = packets K TABULAR_RESULT (encode_prelogin server_prelogin) DEFAULT_PACKET_SIZE"

definition token_packets :: "'z externals_scheme \<Rightarrow> token list \<Rightarrow> byte list" where
  "token_packets K ts = packets K TABULAR_RESULT (encode_tokens K ts) DEFAULT_PACKET_SIZE"

lemma client_read_keeps:
  "client_read K c = (x, d) \<Longrightarrow> cl_writer d = cl_writer c \<and> cl_packet_size d = cl_packet_size c"
  by (auto simp: client_read_def split: prod.splits sum.splits option.splits)

lemma query_says:
  assumes "sound (cl_writer c)"
  shows "cl_writer (snd (query K sql c)) = (cl_writer c)\<lparr>sent := sent (cl_writer c)
      @ batch_packets K (cl_packet_size c) sql\<rparr>"
    and "cl_packet_size (snd (query K sql c)) = cl_packet_size c"
proof -
  define d where "d = c\<lparr>cl_writer := (cl_writer c)\<lparr>sent := sent (cl_writer c)
    @ batch_packets K (cl_packet_size c) sql\<rparr>\<rparr>"
  have d: "client_write K SQL_BATCH (encode_batch K sql) c = (Inr (), d)"
    using client_write_sound [OF assms] by (simp add: d_def batch_packets_def)
  obtain x e where e: "client_read K d = (x, e)" by fastforce
  have "snd (query K sql c) = e"
    using d e by (cases x) (auto simp: query_def act_bind_def split: prod.split sum.split option.split)
  with client_read_keeps [OF e] show
    "cl_writer (snd (query K sql c)) = (cl_writer c)\<lparr>sent := sent (cl_writer c)
      @ batch_packets K (cl_packet_size c) sql\<rparr>"
    "cl_packet_size (snd (query K sql c)) = cl_packet_size c"
    by (simp_all add: d_def)
qed

lemma queries_say:
  "sound (cl_writer c) \<Longrightarrow> sound (cl_writer (snd (queries K sqls c))) \<and>
     sent (cl_writer (snd (queries K sqls c))) =
       sent (cl_writer c) @ concat (map (batch_packets K (cl_packet_size c)) sqls)"
proof (induction sqls arbitrary: c)
  case (Cons sql sqls)
  obtain r d where d: "query K sql c = (r, d)" by fastforce
  with query_says [OF Cons.prems, of K sql] have
    "cl_writer d = (cl_writer c)\<lparr>sent := sent (cl_writer c) @ batch_packets K (cl_packet_size c) sql\<rparr>"
    "cl_packet_size d = cl_packet_size c" by simp_all
  with Cons.IH [of d] Cons.prems d show ?case by (simp add: split_beta)
qed simp

lemma queries_answered:
  assumes "codec K" and "body_ceiling K" and "sound (cl_writer c)" and "length sqls = length as"
    and "list_all (\<lambda>a. answer_fits a \<and> length (encode_tokens K (answer_tokens a)) \<le> max_body K) as"
    and "incoming (cl_reader c) = concat (map (answer_packets K) as) @ rest"
  shows "fst (queries K sqls c) = map answer_result as \<and>
    incoming (cl_reader (snd (queries K sqls c))) = rest"
  using assms(4,3,5,6)
proof (induction sqls as arbitrary: c rule: list_induct2)
  case (Cons sql sqls a as)
  have fits: "answer_fits a" "length (encode_tokens K (answer_tokens a)) \<le> max_body K"
    using Cons.prems(2) by simp_all
  have "incoming (cl_reader c) = packets K TABULAR_RESULT (encode_tokens K (answer_tokens a))
      DEFAULT_PACKET_SIZE @ concat (map (answer_packets K) as) @ rest"
    using Cons.prems(3) by (simp add: answer_packets_def [of K a])
  from query_answered [OF assms(1,2) Cons.prems(1) codec.answer_tokens_shown(1) [OF assms(1) fits(1)]
      fits(2) this, of sql]
  obtain d where d: "query K sql c = (answer_result a, d)"
    "incoming (cl_reader d) = concat (map (answer_packets K) as) @ rest" "sound (cl_writer d)"
    using Cons.prems(1) codec.answer_tokens_shown(2) [OF assms(1) fits(1)]
    by (simp add: answer_tokens_result)
  from Cons.IH [OF d(3) _ d(2)] Cons.prems(2) d(1) show ?case by (simp add: split_beta)
qed simp


text \<open>The near end greets whatever it is told, and gives its login to a far end that greets it.\<close>

lemma queries_speak [speaking]:
  "speaks cl_writer (\<lambda>c. case queries K sqls c of (rs, c) \<Rightarrow> (Inr rs, c))"
  unfolding speaks_def
proof (intro allI impI)
  fix c :: client assume "sound (cl_writer c)"
  from queries_say [OF this, of K sqls] show "sound (cl_writer (snd (case queries K sqls c of (rs, c) \<Rightarrow> (Inr rs, c))))
    \<and> (\<exists>z. sent (cl_writer (snd (case queries K sqls c of (rs, c) \<Rightarrow> (Inr rs, c)))) = sent (cl_writer c) @ z)"
    by (simp add: split_beta)
qed

lemma connect_on_says:
  assumes "sound (cl_writer c)"
  shows "\<exists>z. sent (cl_writer (snd (connect_on K pid db l c))) = sent (cl_writer c)
      @ packets K PRELOGIN (encode_prelogin default_prelogin) (cl_packet_size c) @ z
    \<and> sound (cl_writer (snd (connect_on K pid db l c)))"
proof -
  define d where "d = c\<lparr>cl_writer := (cl_writer c)\<lparr>sent := sent (cl_writer c)
    @ packets K PRELOGIN (encode_prelogin default_prelogin) (cl_packet_size c)\<rparr>\<rparr>"
  have d: "client_write K PRELOGIN (encode_prelogin default_prelogin) c = (Inr (), d)"
    using client_write_sound [OF assms] by (simp add: d_def)
  show ?thesis
    unfolding connect_on_def append_assoc [symmetric]
    by (rule bind_extends [where W = cl_writer and s = c and t = d and x = "()"
          and m = "client_write K PRELOGIN (encode_prelogin default_prelogin)", OF _ d])
      (use assms in \<open>auto intro!: speaking simp: d_def\<close>)
qed

lemma connect_on_gives_login:
  assumes "byte_writer K" and "cursor K" and "body_ceiling K" and "sound w"
    and "length (encode_prelogin server_prelogin) \<le> max_body K"
    and "incoming r = hello_back K @ v"
  shows "\<exists>z. sent (cl_writer (snd (connect_on K pid db l (new_client r w)))) =
      (sent w @ hello K @ login_packets K pid db l) @ z
    \<and> sound (cl_writer (snd (connect_on K pid db l (new_client r w))))"
proof -
  define c1 where "c1 = new_client r (w\<lparr>sent := sent w @ hello K\<rparr>)"
  define c2 where "c2 = c1\<lparr>cl_reader := r\<lparr>incoming := v\<rparr>\<rparr>"
  define c3 where "c3 = c2\<lparr>cl_writer := w\<lparr>sent := sent w @ hello K @ login_packets K pid db l\<rparr>\<rparr>"
  have out1: "client_write K PRELOGIN (encode_prelogin default_prelogin) (new_client r w) = (Inr (), c1)"
    using client_write_sound [of "new_client r w"] assms(4)
    by (simp add: new_client_def c1_def hello_def)
  have in1: "client_read K c1 = (Inr (encode_prelogin server_prelogin), c2)"
    using client_read_message [OF assms(1,3,5), of c1 DEFAULT_PACKET_SIZE v] assms(6)
    by (simp add: c1_def c2_def new_client_def hello_back_def)
  have out2: "client_write K LOGIN7 (encode_login7 K pid (new_login7 l db)) c2 = (Inr (), c3)"
    using client_write_sound [of c2] assms(4)
    by (simp add: c1_def c2_def c3_def new_client_def login_packets_def)
  have agreed: "\<not> (pl_encryption server_prelogin \<noteq> ENCRYPT_NOT_SUP
      \<and> pl_encryption server_prelogin \<noteq> ENCRYPT_OFF)"
    using server_prelogin_read(3) [OF assms(2)] by blast
  show ?thesis
    unfolding connect_on_def
      act_bind_Inr [where s = "new_client r w" and x = "()" and s' = c1
          and m = "client_write K PRELOGIN (encode_prelogin default_prelogin)", OF out1]
      act_bind_Inr [where s = c1 and s' = c2 and m = "client_read K"
          and x = "encode_prelogin server_prelogin", OF in1]
      server_prelogin_read(1) [OF assms(2)] act_bind_lift if_not_P [OF agreed]
    by (rule bind_extends [where W = cl_writer and s = c2 and t = c3 and x = "()"
          and m = "client_write K LOGIN7 (encode_login7 K pid (new_login7 l db))", OF _ out2])
      (use assms in \<open>auto intro!: speaking simp: c3_def\<close>)
qed


lemma accept_on_greets:
  fixes s :: "('k, 'h) session"
  assumes "byte_writer K" and "cursor K" and "body_ceiling K" and "sound (ss_writer s)"
    and "length (encode_prelogin default_prelogin) \<le> max_body K"
    and "incoming (ss_reader s) = hello K @ v"
  shows "\<exists>z. sent (ss_writer (snd (accept_on K Q expected s))) = (sent (ss_writer s) @ hello_back K) @ z
    \<and> sound (ss_writer (snd (accept_on K Q expected s)))"
proof -
  define s1 where "s1 = s\<lparr>ss_reader := (ss_reader s)\<lparr>incoming := v\<rparr>\<rparr>"
  define s2 where "s2 = s1\<lparr>ss_writer := (ss_writer s)\<lparr>sent := sent (ss_writer s) @ hello_back K\<rparr>\<rparr>"
  have "is_packet_type PRELOGIN" by (simp add: is_packet_type_def)
  from session_read_message [OF assms(1,3) this assms(5), of s DEFAULT_PACKET_SIZE v]
  have in1: "session_read K PRELOGIN s = (Inr (encode_prelogin default_prelogin), s1)"
    using assms(6) by (simp add: s1_def hello_def)
  have out1: "session_write K TABULAR_RESULT (encode_prelogin server_prelogin) s1 = (Inr (), s2)"
    using session_write_sound [of s1] assms(4) by (simp add: s1_def s2_def hello_back_def)
  show ?thesis
    unfolding accept_on_def
      act_bind_Inr [where s = s and s' = s1 and m = "session_read K PRELOGIN"
          and x = "encode_prelogin default_prelogin", OF in1]
      server_prelogin_read(2) [OF assms(2)] act_bind_lift
    by (rule bind_extends [where W = ss_writer and s = s1 and t = s2 and x = "()"
          and m = "session_write K TABULAR_RESULT (encode_prelogin server_prelogin)", OF _ out1])
      (use assms in \<open>auto intro!: speaking simp: s2_def\<close>)
qed


lemma length_replies: "length (replies Q sqls s) = length sqls"
  by (induction sqls arbitrary: s) (simp_all split: prod.split)

subsection \<open>Both ends\<close>

text \<open>A login both sides' texts have room for.\<close>

definition presentable :: "str \<Rightarrow> login \<Rightarrow> bool" where
  "presentable db l \<longleftrightarrow> login_fits (new_login7 l db) \<and> name_fits db \<and> utf16_units (login_user l) \<le> 32000"

text \<open>A session once the client is in, \<open>bs\<close> still to be read of it.\<close>

definition entered :: "'z externals_scheme \<Rightarrow> str \<Rightarrow> login \<Rightarrow> byte list \<Rightarrow> ('k, 'h) session \<Rightarrow> ('k, 'h) session" where
  "entered K db l bs s = s\<lparr>ss_reader := (ss_reader s)\<lparr>incoming := bs\<rparr>, ss_login := new_login7 l db,
     ss_writer := (ss_writer s)\<lparr>sent := sent (ss_writer s) @ hello_back K
       @ token_packets K (welcome_tokens db)\<rparr>\<rparr>"

lemma new_login7_simps [simp]:
  "l7_login (new_login7 l db) = l" "l7_database (new_login7 l db) = db"
  by (simp_all add: new_login7_def)

lemma accept_on_entered:
  assumes "codec K" and "body_ceiling K" and "constant_time Q" and "sound (ss_writer s)"
    and "presentable db l" and "pred_option (\<lambda>e. is_str (login_password e)) expected"
    and "65600 \<le> max_body K"
    and "incoming (ss_reader s) = hello K @ login_packets K pid db l @ rest"
  shows "expected = None \<or> expected = Some l \<Longrightarrow> accept_on K Q expected s = (Inr (), entered K db l rest s)"
    and "\<not> (expected = None \<or> expected = Some l) \<Longrightarrow> \<exists>t.
      accept_on K Q expected s = (Inl (Permanent (failed_text (login_user l))), t) \<and>
      incoming (ss_reader t) = rest \<and> sent (ss_writer t) = sent (ss_writer s) @ hello_back K
        @ token_packets K (refusal_tokens (failed_text (login_user l)))"
proof -
  have fits: "login_fits (new_login7 l db)" "is_str (login_password l)"
    using assms(5) by (simp_all add: presentable_def login_fits_def login_strings_def)
  have sizes: "length (encode_prelogin default_prelogin) \<le> max_body K"
    "length (encode_login7 K pid (new_login7 l db)) \<le> max_body K"
    using server_prelogin_read(5) codec.axioms(1) [OF assms(1)]
      codec.login_length [OF assms(1) fits(1), of pid] assms(7) by fastforce+
  note login = accept_login [OF assms(1,2,4) fits(1) server_prelogin_read(2) [OF codec.axioms(1) [OF assms(1)]]
      sizes, of DEFAULT_PACKET_SIZE DEFAULT_PACKET_SIZE rest Q expected]
  have refused: "login_refused Q expected l \<longleftrightarrow> \<not> (expected = None \<or> expected = Some l)"
    using constant_time.login_refused_iff [OF assms(3) fits(2) assms(6)] by blast
  show "accept_on K Q expected s = (Inr (), entered K db l rest s)" if "expected = None \<or> expected = Some l"
    using login that refused assms(8)
    by (simp add: hello_def login_packets_def hello_back_def token_packets_def entered_def Let_def)
  show "\<exists>t. accept_on K Q expected s = (Inl (Permanent (failed_text (login_user l))), t) \<and>
      incoming (ss_reader t) = rest \<and> sent (ss_writer t) = sent (ss_writer s) @ hello_back K
        @ token_packets K (refusal_tokens (failed_text (login_user l)))"
    if "\<not> (expected = None \<or> expected = Some l)"
    using login that refused assms(8)
    by (simp add: hello_def login_packets_def hello_back_def token_packets_def Let_def)
qed

text \<open>What the near end has said and made of it, told by a far end that greets and lets it in.\<close>

lemma connect_on_entered:
  assumes "codec K" and "body_ceiling K" and "sound w" and "presentable db l" and "65600 \<le> max_body K"
  shows "incoming r = hello_back K @ token_packets K (welcome_tokens db) @ rest \<Longrightarrow>
      connect_on K pid db l (new_client r w) = (Inr (),
        \<lparr>cl_reader = r\<lparr>incoming := rest\<rparr>,
         cl_writer = w\<lparr>sent := sent w @ hello K @ login_packets K pid db l\<rparr>,
         cl_packet_size = DEFAULT_PACKET_SIZE, cl_program = lit ''Microsoft SQL Server (xmip)''\<rparr>)"
    and "incoming r = hello_back K @ token_packets K (refusal_tokens (failed_text (login_user l))) @ rest \<Longrightarrow>
      connect_on K pid db l (new_client r w) =
        (Inl (sql_error (new_message LOGIN_FAILED 14 (failed_text (login_user l)))),
         new_client (r\<lparr>incoming := rest\<rparr>) (w\<lparr>sent := sent w @ hello K @ login_packets K pid db l\<rparr>))"
proof -
  note cur = codec.axioms(1) [OF assms(1)]
  have name: "name_fits db" and user: "is_str (login_user l)" "utf16_units (login_user l) \<le> 32000"
    using assms(4) by (simp_all add: presentable_def login_fits_def login_strings_def)
  have size: "length (encode_prelogin server_prelogin) \<le> max_body K"
    using server_prelogin_read(4) [OF cur] assms(5) by simp
  show "incoming r = hello_back K @ token_packets K (welcome_tokens db) @ rest \<Longrightarrow>
      connect_on K pid db l (new_client r w) = (Inr (),
        \<lparr>cl_reader = r\<lparr>incoming := rest\<rparr>,
         cl_writer = w\<lparr>sent := sent w @ hello K @ login_packets K pid db l\<rparr>,
         cl_packet_size = DEFAULT_PACKET_SIZE, cl_program = lit ''Microsoft SQL Server (xmip)''\<rparr>)"
    using connect_on_answered [OF assms(1-3) codec.welcome_read(1) [OF assms(1) name] _ size
        server_prelogin_read(1) [OF cur] server_prelogin_read(3) [OF cur], of r DEFAULT_PACKET_SIZE DEFAULT_PACKET_SIZE rest pid db l]
      codec.welcome_read(2-4) [OF assms(1) name] assms(5)
    by (simp add: hello_def login_packets_def hello_back_def token_packets_def Let_def new_client_def)
  have failed: "is_str (failed_text (login_user l))" "14 + 2 * utf16_units (failed_text (login_user l)) < 65536"
    using user by (simp_all add: failed_text_def scalar_quote)
  show "incoming r = hello_back K @ token_packets K (refusal_tokens (failed_text (login_user l))) @ rest \<Longrightarrow>
      connect_on K pid db l (new_client r w) =
        (Inl (sql_error (new_message LOGIN_FAILED 14 (failed_text (login_user l)))),
         new_client (r\<lparr>incoming := rest\<rparr>) (w\<lparr>sent := sent w @ hello K @ login_packets K pid db l\<rparr>))"
    using connect_on_answered [OF assms(1-3) codec.refusal_read(1) [OF assms(1) failed] _ size
        server_prelogin_read(1) [OF cur] server_prelogin_read(3) [OF cur], of r DEFAULT_PACKET_SIZE DEFAULT_PACKET_SIZE rest pid db l]
      codec.refusal_read(2-4) [OF assms(1) failed] assms(5)
    by (simp add: hello_def login_packets_def hello_back_def token_packets_def Let_def)
qed


text \<open>
  Each end hears what the other says, and nothing else: what the far end reads is what the near
  end has said in the end, and the other way round.
\<close>

definition conversing ::
    "(client, 'a) act \<Rightarrow> client \<Rightarrow> (('k, 'h) session, 'b) act \<Rightarrow> ('k, 'h) session \<Rightarrow> bool" where
  "conversing near c far s \<longleftrightarrow> sound (cl_writer c) \<and> sound (ss_writer s) \<and>
     sent (cl_writer c) @ incoming (ss_reader s) = sent (cl_writer (snd (near c))) \<and>
     sent (ss_writer s) @ incoming (cl_reader c) = sent (ss_writer (snd (far s)))"

lemma conversingD:
  assumes "conversing near (new_client r w) far s"
  shows "sound w" and "sound (ss_writer s)"
    and "sent w @ incoming (ss_reader s) = sent (cl_writer (snd (near (new_client r w))))"
    and "sent (ss_writer s) @ incoming r = sent (ss_writer (snd (far s)))"
  using assms by (simp_all add: conversing_def new_client_def)

text \<open>What the components are asked for, and a login all parties can handle.\<close>

definition parties ::
    "'z externals_scheme \<Rightarrow> ('h, 'v, 'p, 'y) sql_crate_scheme \<Rightarrow> str \<Rightarrow> login \<Rightarrow> login option \<Rightarrow> bool" where
  "parties K Q db l expected \<longleftrightarrow> codec K \<and> body_ceiling K \<and> constant_time Q \<and> presentable db l \<and>
     pred_option (\<lambda>e. is_str (login_password e)) expected \<and> 65600 \<le> max_body K"

lemma partiesD:
  assumes "parties K Q db l expected"
  shows "codec K" "byte_writer K" "cursor K" "body_ceiling K" "constant_time Q" "presentable db l"
    and "pred_option (\<lambda>e. is_str (login_password e)) expected" "65600 \<le> max_body K"
    and "length (encode_prelogin default_prelogin) \<le> max_body K"
    and "length (encode_prelogin server_prelogin) \<le> max_body K"
  using assms codec.axioms(1,2) [of K] server_prelogin_read(4,5) [of K]
  by (auto simp: parties_def intro: order_trans)

text \<open>A far end that goes on with \<open>rest\<close> once the client is in.\<close>

abbreviation far_end ::
    "'z externals_scheme \<Rightarrow> ('h, 'v, 'p, 'y) sql_crate_scheme \<Rightarrow> login option
       \<Rightarrow> (('k, 'h) session, 'b) act \<Rightarrow> (('k, 'h) session, 'b) act" where
  "far_end K Q expected rest \<equiv> act_bind (accept_on K Q expected) (\<lambda>_. rest)"

text \<open>Whatever comes after, the two greet and the login is given.\<close>

lemma conversation_opens:
  fixes rest :: "(('k, 'h) session, 'b) act"
  assumes "parties K Q db l expected" and "speaks ss_writer rest"
    and "conversing (near_end K pid db l sqls) (new_client r w) (far_end K Q expected rest) s"
  shows "\<exists>bs. incoming (ss_reader s) = hello K @ login_packets K pid db l @ bs"
proof -
  note laws = partiesD [OF assms(1)]
  let ?c = "new_client r w" and ?near = "near_end K pid db l sqls"
  note linked = conversingD [OF assms(3)]
  have goes_on: "\<exists>z. sent (cl_writer (snd (?near ?c))) = p @ z"
    if "\<exists>z. sent (cl_writer (snd (connect_on K pid db l ?c))) = p @ z
      \<and> sound (cl_writer (snd (connect_on K pid db l ?c)))" for p
    unfolding near_end_def
    by (rule bind_goes_on [where W = cl_writer and m = "connect_on K pid db l" and s = ?c, OF that])
      (rule queries_speak)
  have "\<exists>z. sent (cl_writer (snd (?near ?c))) = (sent w @ hello K) @ z"
    by (rule goes_on)
      (use connect_on_says [of ?c K pid db l] linked(1) in \<open>simp add: hello_def new_client_def\<close>)
  then obtain z where "incoming (ss_reader s) = hello K @ z" using linked(3) by auto
  from accept_on_greets [OF laws(2-4) linked(2) laws(9) this, of Q expected]
  have "\<exists>z. sent (ss_writer (snd (far_end K Q expected rest s))) = (sent (ss_writer s) @ hello_back K) @ z"
    by (rule bind_goes_on [where W = ss_writer and m = "accept_on K Q expected" and s = s]) (rule assms(2))
  then obtain v where v: "incoming r = hello_back K @ v" using linked(4) by auto
  have "\<exists>z. sent (cl_writer (snd (?near ?c))) = (sent w @ hello K @ login_packets K pid db l) @ z"
    by (rule goes_on) (rule connect_on_gives_login [OF laws(2-4) linked(1) laws(10) v])
  then show ?thesis using linked(3) by auto
qed


text \<open>A client that is let in: what both say is determined, and what the near end makes of it.\<close>

lemma conversation_admitted:
  fixes rest :: "(('k, 'h) session, 'b) act"
  assumes "parties K Q db l expected" and "speaks ss_writer rest"
    and "conversing (near_end K pid db l sqls) (new_client r w) (far_end K Q expected rest) s"
    and let_in: "expected = None \<or> expected = Some l" and "length sqls = length as"
    and "list_all (\<lambda>a. answer_fits a \<and> length (encode_tokens K (answer_tokens a)) \<le> max_body K) as"
    and rest: "let t = entered K db l (concat (map (batch_packets K DEFAULT_PACKET_SIZE) sqls)) s in
      sent (ss_writer (snd (rest t))) = sent (ss_writer t) @ concat (map (answer_packets K) as)"
  shows "fst (near_end K pid db l sqls (new_client r w)) = Inr (map answer_result as) \<and>
    incoming (cl_reader (snd (near_end K pid db l sqls (new_client r w)))) = [] \<and>
    accept_on K Q expected s =
      (Inr (), entered K db l (concat (map (batch_packets K DEFAULT_PACKET_SIZE) sqls)) s)"
proof -
  note laws = partiesD [OF assms(1)]
  let ?c = "new_client r w" and ?near = "near_end K pid db l sqls"
  note linked = conversingD [OF assms(3)]
  obtain bs where bs: "incoming (ss_reader s) = hello K @ login_packets K pid db l @ bs"
    using conversation_opens [OF assms(1-3)] by blast
  define t where "t = entered K db l bs s"
  have let_in: "accept_on K Q expected s = (Inr (), t)"
    unfolding t_def by (rule accept_on_entered(1) [OF laws(1,4,5) linked(2) laws(6-8) bs let_in])
  then have far: "far_end K Q expected rest s = rest t"
    by (simp add: act_bind_def)
  have t: "sound (ss_writer t)" "sent (ss_writer t) = sent (ss_writer s) @ hello_back K
      @ token_packets K (welcome_tokens db)"
    using linked(2) by (simp_all add: t_def entered_def)
  obtain u where "sent (ss_writer (snd (rest t))) = sent (ss_writer t) @ u"
    using speaksD [OF assms(2) t(1)] by blast
  then have u: "incoming r = hello_back K @ token_packets K (welcome_tokens db) @ u"
    using linked(4) unfolding far by (simp add: t(2))
  define d where "d = \<lparr>cl_reader = r\<lparr>incoming := u\<rparr>,
    cl_writer = w\<lparr>sent := sent w @ hello K @ login_packets K pid db l\<rparr>,
    cl_packet_size = DEFAULT_PACKET_SIZE, cl_program = lit ''Microsoft SQL Server (xmip)''\<rparr>"
  have "connect_on K pid db l ?c = (Inr (), d)"
    unfolding d_def by (rule connect_on_entered(1) [OF laws(1,4) linked(1) laws(6,8) u])
  then have near: "?near ?c = (Inr (fst (queries K sqls d)), snd (queries K sqls d))"
    by (simp add: near_end_def act_bind_def split_beta)
  have d: "sound (cl_writer d)" "incoming (cl_reader d) = u" "cl_packet_size d = DEFAULT_PACKET_SIZE"
    "sent (cl_writer d) = sent w @ hello K @ login_packets K pid db l"
    using linked(1) by (simp_all add: d_def)
  have said: "bs = concat (map (batch_packets K DEFAULT_PACKET_SIZE) sqls)"
    using linked(3) queries_say [OF d(1), of K sqls] by (simp add: near bs d(3,4))
  have "u = concat (map (answer_packets K) as) @ []"
    using rest linked(4) by (simp only: far u Let_def said [symmetric] t_def [symmetric] t(2))
      simp
  with queries_answered [OF laws(1,4) d(1) assms(5,6), of "[]"] d(2) let_in near said
  show ?thesis by (simp add: t_def)
qed

lemma conversation_refused:
  fixes rest :: "(('k, 'h) session, 'b) act"
  assumes "parties K Q db l expected" and "speaks ss_writer rest"
    and "conversing (near_end K pid db l sqls) (new_client r w) (far_end K Q expected rest) s"
    and "\<not> (expected = None \<or> expected = Some l)"
  shows "fst (near_end K pid db l sqls (new_client r w)) =
      Inl (sql_error (new_message LOGIN_FAILED 14 (failed_text (login_user l)))) \<and>
    incoming (cl_reader (snd (near_end K pid db l sqls (new_client r w)))) = [] \<and>
    fst (far_end K Q expected rest s) = Inl (Permanent (failed_text (login_user l))) \<and>
    incoming (ss_reader (snd (far_end K Q expected rest s))) = []"
proof -
  note laws = partiesD [OF assms(1)]
  let ?c = "new_client r w" and ?near = "near_end K pid db l sqls"
  note linked = conversingD [OF assms(3)]
  obtain bs where bs: "incoming (ss_reader s) = hello K @ login_packets K pid db l @ bs"
    using conversation_opens [OF assms(1-3)] by blast
  obtain t where t: "accept_on K Q expected s = (Inl (Permanent (failed_text (login_user l))), t)"
    "incoming (ss_reader t) = bs" "sent (ss_writer t) = sent (ss_writer s) @ hello_back K
      @ token_packets K (refusal_tokens (failed_text (login_user l)))"
    using accept_on_entered(2) [OF laws(1,4,5) linked(2) laws(6-8) bs assms(4)] by blast
  have far: "far_end K Q expected rest s = (Inl (Permanent (failed_text (login_user l))), t)"
    using t(1) by (simp add: act_bind_def)
  have "incoming r = hello_back K @ token_packets K (refusal_tokens (failed_text (login_user l))) @ []"
    using linked(4) t(3) by (simp add: far)
  note in_vain = connect_on_entered(2) [OF laws(1,4) linked(1) laws(6,8) this, of pid]
  have near: "?near ?c = (Inl (sql_error (new_message LOGIN_FAILED 14 (failed_text (login_user l)))),
    new_client (r\<lparr>incoming := []\<rparr>) (w\<lparr>sent := sent w @ hello K @ login_packets K pid db l\<rparr>))"
    by (simp only: near_end_def in_vain act_bind_def prod.case sum.case)
  have "bs = []" using linked(3) unfolding near snd_conv by (simp add: bs new_client_def)
  then show ?thesis using t(2) by (simp only: near far fst_conv snd_conv)
      (simp add: new_client_def)
qed


text \<open>What serving does with a client that has been let in.\<close>

lemma serve_entered:
  fixes s :: "('k, 'h) session"
  assumes "codec K" and "body_ceiling K" and "sound (ss_writer s)" and "ending (ss_reader s) = Closed"
    and "list_all (\<lambda>sql. is_str sql \<and> length (encode_batch K sql) \<le> max_body K) sqls"
    and told: "told = replies Q sqls (s\<lparr>ss_login := new_login7 l db\<rparr>)"
    and t: "t = entered K db l (concat (map (batch_packets K DEFAULT_PACKET_SIZE) sqls)) s"
  shows "fst (serve K Q t) = Inr (map snd told) \<and> incoming (ss_reader (snd (serve K Q t))) = [] \<and>
    sent (ss_writer (snd (serve K Q t))) = sent (ss_writer t) @ concat (map (answer_packets K) (map fst told))"
proof -
  have "t = (s\<lparr>ss_login := new_login7 l db\<rparr>)\<lparr>ss_reader := ss_reader t, ss_writer := ss_writer t\<rparr>"
    by (rule session.equality) (simp_all add: t entered_def)
  then have "replies Q sqls t = told" by (metis told replies_io)
  moreover have "sound (ss_writer t)" "ending (ss_reader t) = Closed"
    "incoming (ss_reader t) = concat (map (batch_packets K DEFAULT_PACKET_SIZE) sqls)"
    using assms(3,4) by (simp_all add: t entered_def)
  from serve_closed [OF assms(1,2,5) this, of Q "[]"]
  obtain t' where "serve K Q t = (Inr (map snd (replies Q sqls t)), t')" "incoming (ss_reader t') = []"
    "sent (ss_writer t') = sent (ss_writer t) @ concat (map (\<lambda>x. answer_packets K (fst x)) (replies Q sqls t))"
    by (auto simp: serve_def)
  ultimately show ?thesis by (simp add: comp_def)
qed

text \<open>Two ends that hear each other exist for every login that is let in and all statements.\<close>

lemma conversation_exists:
  fixes rest :: "(('k, 'h) session, 'b) act"
  assumes "parties K Q db l expected" and "expected = None \<or> expected = Some l"
    and "sound w" and "sent w = []" and "sound (ss_writer s)" and "sent (ss_writer s) = []"
    and r: "incoming r = hello_back K @ token_packets K (welcome_tokens db)
      @ concat (map (answer_packets K) as)"
    and s: "incoming (ss_reader s) = hello K @ login_packets K pid db l
      @ concat (map (batch_packets K DEFAULT_PACKET_SIZE) sqls)"
    and t: "t = entered K db l (concat (map (batch_packets K DEFAULT_PACKET_SIZE) sqls)) s"
    and rest: "sent (ss_writer (snd (rest t))) = sent (ss_writer t) @ concat (map (answer_packets K) as)"
  shows "conversing (near_end K pid db l sqls) (new_client r w) (far_end K Q expected rest) s"
proof -
  note laws = partiesD [OF assms(1)]
  define d where "d = \<lparr>cl_reader = r\<lparr>incoming := concat (map (answer_packets K) as)\<rparr>,
    cl_writer = w\<lparr>sent := sent w @ hello K @ login_packets K pid db l\<rparr>,
    cl_packet_size = DEFAULT_PACKET_SIZE, cl_program = lit ''Microsoft SQL Server (xmip)''\<rparr>"
  have "connect_on K pid db l (new_client r w) = (Inr (), d)"
    unfolding d_def by (rule connect_on_entered(1) [OF laws(1,4) assms(3) laws(6,8) r])
  then have near: "snd (near_end K pid db l sqls (new_client r w)) = snd (queries K sqls d)"
    by (simp add: near_end_def act_bind_def split_beta)
  have "sound (cl_writer d)" "sent (cl_writer d) = hello K @ login_packets K pid db l"
    "cl_packet_size d = DEFAULT_PACKET_SIZE"
    using assms(3,4) by (simp_all add: d_def)
  with queries_say [of d K sqls] have "sent (cl_writer (snd (near_end K pid db l sqls (new_client r w)))) =
      incoming (ss_reader s)"
    by (simp add: near s)
  moreover have "accept_on K Q expected s = (Inr (), t)"
    unfolding t by (rule accept_on_entered(1) [OF laws(1,4,5) assms(5) laws(6-8) s assms(2)])
  then have "far_end K Q expected rest s = rest t"
    by (simp add: act_bind_def)
  then have "sent (ss_writer (snd (far_end K Q expected rest s))) = incoming r"
    using rest assms(6) by (simp add: r) (simp add: t entered_def)
  ultimately show ?thesis
    using assms(3-6) by (simp add: conversing_def new_client_def)
qed

subsection \<open>Properties\<close>

text \<open>C1: A whole conversation, the two programs run against each other with nothing known of what
  they say: a client that connects and runs its statements, a session that takes it and serves
  until it is gone. If no login is expected, or the one given, the client gets the answer to
  each of its statements and the session reports each in order; otherwise both end with the
  refusal, by its number on the client's side. No byte is left on the way, either way.\<close>

theorem whole_conversation:
  assumes "codec K" and "body_ceiling K" and "constant_time Q" and "presentable db l"
    and "pred_option (\<lambda>e. is_str (login_password e)) expected" and "65600 \<le> max_body K"
    and "list_all (\<lambda>sql. is_str sql \<and> length (encode_batch K sql) \<le> max_body K) sqls"
    and told: "told = replies Q sqls (s\<lparr>ss_login := new_login7 l db\<rparr>)"
    and "list_all (\<lambda>a. answer_fits a \<and> length (encode_tokens K (answer_tokens a)) \<le> max_body K) (map fst told)"
    and "ending (ss_reader s) = Closed"
    and "conversing (near_end K pid db l sqls) (new_client r w) (far_end K Q expected (serve K Q)) s"
  shows "(if expected = None \<or> expected = Some l then
      fst (near_end K pid db l sqls (new_client r w)) = Inr (map (answer_result \<circ> fst) told) \<and>
      fst (far_end K Q expected (serve K Q) s) = Inr (map snd told)
    else
      fst (near_end K pid db l sqls (new_client r w)) =
        Inl (sql_error (new_message LOGIN_FAILED 14 (failed_text (login_user l)))) \<and>
      fst (far_end K Q expected (serve K Q) s) = Inl (Permanent (failed_text (login_user l))))
    \<and> incoming (cl_reader (snd (near_end K pid db l sqls (new_client r w)))) = []
    \<and> incoming (ss_reader (snd (far_end K Q expected (serve K Q) s))) = []"
proof (cases "expected = None \<or> expected = Some l")
  case True
  have parties: "parties K Q db l expected" using assms(1-6) by (simp add: parties_def)
  define t where "t = entered K db l (concat (map (batch_packets K DEFAULT_PACKET_SIZE) sqls)) s"
  note served = serve_entered [OF assms(1,2) conversingD(2) [OF assms(11)] assms(10,7) told t_def]
  have "length sqls = length (map fst told)"
    by (simp add: told length_replies)
  with served True conversation_admitted [OF parties serve_speaks assms(11) True _ assms(9),
      unfolded Let_def, folded t_def]
  show ?thesis by (simp add: act_bind_def)
next
  case False
  have parties: "parties K Q db l expected" using assms(1-6) by (simp add: parties_def)
  from conversation_refused [OF parties serve_speaks assms(11) False] False show ?thesis by simp
qed


definition sample_credentials :: login where
  "sample_credentials = \<lparr>login_user = lit ''xmip'', login_password = lit ''secret''\<rparr>"

lemma sample_parties:
  "parties reference reference_sql (lit ''orders'') sample_credentials (Some sample_credentials)"
proof -
  have "presentable (lit ''orders'') sample_credentials"
    using sample_login_facts(1)
    by (simp add: presentable_def sample_login_def sample_credentials_def name_fits_def)
  moreover have "(65600 :: nat) \<le> max_body reference" by simp
  ultimately show ?thesis
    using reference_laws(4,5) reference_constant_time.constant_time_axioms
    by (simp add: parties_def sample_credentials_def)
qed

definition sample_batches :: "str list" where
  "sample_batches = [lit ''DELETE FROM t'']"

definition sample_told :: "(answer \<times> byte list event) list" where
  "sample_told = [(Complete 0, Executed (lit ''DELETE FROM t''))]"

lemma sample_facts:
  "list_all (\<lambda>sql. is_str sql \<and> length (encode_batch reference sql) \<le> max_body reference) sample_batches"
  "list_all (\<lambda>a. answer_fits a \<and> length (encode_tokens reference (answer_tokens a)) \<le> max_body reference)
     (map fst sample_told)"
  "ss_answering s = None \<Longrightarrow> sample_told = replies reference_sql sample_batches s"
  by (simp_all add: sample_batches_def sample_told_def encode_batch_def
      reference_laws(3) [THEN text_forms.utf16_length] answer_fits_def answer_tokens_def
      codec.encode_tokens_bytes [OF reference_laws(4)] codec.token_bytes_simps [OF reference_laws(4)]
      answer_batch_def reference_sql_def) (simp add: lit_def)

theorem whole_conversation_witness:
  "\<exists>r (s :: (unit, unit) session).
     fst (near_end reference 7 (lit ''orders'') sample_credentials [lit ''DELETE FROM t''] (new_client r quiet_writer))
       = Inr [Inr \<lparr>qr_columns = [], qr_rows = [], qr_rows_affected = 0\<rparr>] \<and>
     fst (far_end reference reference_sql (Some sample_credentials) (serve reference reference_sql) s)
       = Inr [Executed (lit ''DELETE FROM t'')]"
proof -
  let ?sqls = sample_batches and ?told = sample_told
  define s where "s = idle_session (hello reference @ login_packets reference 7 (lit ''orders'') sample_credentials
    @ concat (map (batch_packets reference DEFAULT_PACKET_SIZE) ?sqls))"
  define r where "r = \<lparr>incoming = hello_back reference @ token_packets reference (welcome_tokens (lit ''orders''))
    @ concat (map (answer_packets reference) (map fst ?told)), ending = Closed\<rparr>"
  have told: "?told = replies reference_sql ?sqls (s\<lparr>ss_login := new_login7 sample_credentials (lit ''orders'')\<rparr>)"
    by (rule sample_facts(3)) (simp add: s_def idle_session_def new_session_def)
  note batch = sample_facts(1) and answer = sample_facts(2)
  have ends: "ending (ss_reader s) = Closed" by (simp add: s_def)
  have "conversing (near_end reference 7 (lit ''orders'') sample_credentials ?sqls) (new_client r quiet_writer)
      (far_end reference reference_sql (Some sample_credentials) (serve reference reference_sql)) s"
    by (rule conversation_exists [OF sample_parties _ _ _ _ _ _ _ refl,
          where as = "map fst ?told" and sqls = ?sqls])
      (use serve_entered [OF reference_laws(4,5) _ ends batch told refl]
        in \<open>simp_all add: s_def r_def\<close>)
  from whole_conversation [OF partiesD(1,4-8) [OF sample_parties] batch told answer ends this]
  show ?thesis by (intro exI [of _ r] exI [of _ s])
      (simp add: answer_result_def sample_batches_def sample_told_def)
qed

end
