(* ===== verification/Waiting.thy ===== *)
theory Waiting
  imports Conversation "HOL-Library.Sublist"
begin

text \<open>
  Programs that wait for what has not arrived. A read with nothing to take blocks; here it fails
  with \<open>blocked\<close>, so that the run ends where the program waits. \<open>causal\<close> says that this is the
  beginning of every run the program may go on with: with more to hear, whatever it is and however
  it ends, a run that did not wait is the same, and one that did has said the same so far. Each of
  the crate's exchanges is shown causal from its parts.
\<close>

definition blocked :: io_error where
  "blocked = OtherIo 11"

definition waits :: "terror + 'a \<Rightarrow> bool" where
  "waits r \<longleftrightarrow> (\<exists>s. r = Inl (Classified s blocked))"

lemma waits_simps [simp]: "\<not> waits (Inr x)" "waits (Inl (Classified s blocked))"
  by (simp_all add: waits_def)

text \<open>A reader that gets more, and then ends as \<open>e\<close> says.\<close>

definition longer :: "byte list \<Rightarrow> ending \<Rightarrow> reader \<Rightarrow> reader" where
  "longer z e r = \<lparr>incoming = incoming r @ z, ending = e\<rparr>"

lemma longer_simps [simp]:
  "incoming (longer z e r) = incoming r @ z" "ending (longer z e r) = e"
  "(longer z e r)\<lparr>incoming := bs\<rparr> = \<lparr>incoming = bs, ending = e\<rparr>"
  by (simp_all add: longer_def)

lemma read1_longer:
  assumes "ending r = Broken blocked" and "read1 r = (x, r')"
  shows "x = Inl blocked \<or> read1 (longer z e r) = (x, longer z e r')"
    and "ending r' = Broken blocked"
  using assms by (auto simp: read1_def longer_def split: list.splits)

lemma read_exact_longer:
  assumes "ending r = Broken blocked" and "read_exact n r = (x, r')"
  shows "x = Inl blocked \<or> read_exact n (longer z e r) = (x, longer z e r')"
    and "ending r' = Broken blocked"
  using assms by (auto simp: read_exact_def longer_def split: if_splits)

text \<open>A round of the loop that reads a message, past its header.\<close>

lemma read_packets_longer:
  "read_packets K payload kind r = (x, r') \<Longrightarrow> ending r = Broken blocked \<Longrightarrow>
     ending r' = Broken blocked \<and>
     (waits x \<or> read_packets K payload kind (longer z e r) = (x, longer z e r'))"
proof (induction "length (incoming r)" arbitrary: payload kind r rule: less_induct)
  case less
  obtain y r1 where y: "read1 r = (y, r1)" by fastforce
  note first = read1_longer(1) [OF less.prems(2) y, of z e] read1_longer(2) [OF less.prems(2) y]
  note run = less.prems(1) [unfolded read_packets.simps [of K payload kind r] y]
  show ?case
  proof (cases "\<exists>h. y = Inr (Some h)")
    case False
    then have "y = Inl blocked"
      using y less.prems(2) by (auto simp: read1_def split: list.splits)
    then show ?thesis using run first by auto
  next
    case True
    then obtain h where h: "y = Inr (Some h)" by blast
    obtain w r2 where w: "read_exact 7 r1 = (w, r2)" by fastforce
    note second = read_exact_longer(1) [OF first(2) w, of z e] read_exact_longer(2) [OF first(2) w]
    show ?thesis
    proof (cases w)
      case (Inl e)
      then have "e = blocked"
        using w first(2) by (auto simp: read_exact_def split: if_splits)
      then show ?thesis using run h w Inl second by auto
    next
      case (Inr hs)
      define len where "len = unat (of_be [hs ! Suc 0, hs ! 2] :: 16 word)"
      obtain v r3 where v: "read_exact (len - 8) r2 = (v, r3)" by fastforce
      note third = read_exact_longer(1) [OF second(2) v, of z e] read_exact_longer(2) [OF second(2) v]
      note heads = run [unfolded h] first [unfolded h] w second [unfolded Inr] read_packets.simps [of K payload kind "longer z e r"]
      show ?thesis
      proof (cases v)
        case (Inl e)
        then have "e = blocked"
          using v second(2) by (auto simp: read_exact_def split: if_splits)
        then show ?thesis using heads v Inl Inr third
          by (auto simp: len_def [symmetric] Let_def split: if_splits sum.splits)
      next
        case bytes: (Inr bytes)
        have "length (incoming r3) < length (incoming r)"
          using read1_step [OF y [unfolded h]] read_exact_step [OF w [unfolded Inr]]
            read_exact_step [OF v [unfolded bytes]] by simp
        from less.hyps [OF this] third(2) heads v bytes Inr third(1) show ?thesis
          by (auto simp: len_def [symmetric] Let_def split: if_splits sum.splits)
      qed
    qed
  qed
qed

lemma read_message_longer:
  assumes "read_message K r = (x, r')" and "ending r = Broken blocked"
  shows "waits x \<or> read_message K (longer z e r) = (x, longer z e r')"
    and "ending r' = Broken blocked"
  using read_packets_longer [of K "[]" None r x r'] assms by (auto simp: read_message_def)

subsection \<open>Causal actions\<close>

named_theorems causing "actions whose run on less is the beginning of their run on more"

definition causal ::
    "('s \<Rightarrow> reader) \<Rightarrow> ('s \<Rightarrow> writer) \<Rightarrow> (reader \<Rightarrow> 's \<Rightarrow> 's) \<Rightarrow> ('s, 'a) act \<Rightarrow> bool" where
  "causal R W P m \<longleftrightarrow> (\<forall>s z e r t.
     sound (W s) \<longrightarrow> ending (R s) = Broken blocked \<longrightarrow> m s = (r, t) \<longrightarrow>
     ending (R t) = Broken blocked \<and>
     (m (P (longer z e (R s)) s) = (r, P (longer z e (R t)) t) \<or>
      waits r \<and> prefix (sent (W t)) (sent (W (snd (m (P (longer z e (R s)) s)))))))"

lemma speaks_prefix: "speaks W m \<Longrightarrow> sound (W s) \<Longrightarrow> prefix (sent (W s)) (sent (W (snd (m s))))"
  by (auto simp: speaks_def)

text \<open>An end that hears by one part of its state and says by another.\<close>

locale speaker =
  fixes R :: "'s \<Rightarrow> reader" and W :: "'s \<Rightarrow> writer" and P :: "reader \<Rightarrow> 's \<Rightarrow> 's"
  assumes heard [simp]: "R (P r s) = r"
    and said [simp]: "W (P r s) = W s"
begin

lemma causalD:
  assumes "causal R W P m" and "sound (W s)" and "ending (R s) = Broken blocked" and "m s = (r, t)"
  shows "ending (R t) = Broken blocked" and
      "m (P (longer z e (R s)) s) = (r, P (longer z e (R t)) t) \<or>
       waits r \<and> prefix (sent (W t)) (sent (W (snd (m (P (longer z e (R s)) s)))))"
  using assms unfolding causal_def by blast+

lemma causal_bind [causing]:
  assumes m: "causal R W P m" "speaks W m"
    and f: "\<And>x. causal R W P (f x)" "\<And>x. speaks W (f x)"
  shows "causal R W P (act_bind m f)"
  unfolding causal_def
proof (intro allI impI)
  fix s z e r u
  assume s: "sound (W s)" "ending (R s) = Broken blocked" and u: "act_bind m f s = (r, u)"
  let ?s = "P (longer z e (R s)) s"
  obtain x t where t: "m s = (x, t)" by fastforce
  obtain x' t' where t': "m ?s = (x', t')" by fastforce
  have "sound (W t)" "sound (W t')"
    using speaksD [OF m(2), of s] speaksD [OF m(2), of ?s] s t t' by auto
  note run = causalD [OF m(1) s t]
  from run(2) [of z e] show "ending (R u) = Broken blocked \<and>
    (act_bind m f ?s = (r, P (longer z e (R u)) u) \<or>
     waits r \<and> prefix (sent (W u)) (sent (W (snd (act_bind m f ?s)))))"
  proof
    assume same: "m ?s = (x, P (longer z e (R t)) t)"
    show ?thesis
    proof (cases x)
      case (Inr y)
      with u t have "f y t = (r, u)" by (simp add: act_bind_def)
      from causalD [OF f(1) \<open>sound (W t)\<close> run(1) this] show ?thesis
        using Inr same by (simp add: act_bind_def)
    qed (use u t run(1) same in \<open>auto simp: act_bind_def\<close>)
  next
    assume less: "waits x \<and> prefix (sent (W t)) (sent (W (snd (m ?s))))"
    then have "u = t" "waits r"
      using u t by (auto simp: act_bind_def waits_def)
    moreover have "prefix (sent (W t')) (sent (W (snd (act_bind m f ?s))))"
    proof (cases x')
      case (Inr y)
      with speaks_prefix [OF f(2) \<open>sound (W t')\<close>, of y] t' show ?thesis
        by (simp add: act_bind_def)
    qed (use t' in \<open>simp add: act_bind_def\<close>)
    ultimately show ?thesis using less t' run(1) by (auto intro: prefix_order.trans)
  qed
qed

lemma causal_quiet:
  assumes "\<And>r s. m (P r s) = (fst (m s), P r (snd (m s)))" and "\<And>s. R (snd (m s)) = R s"
  shows "causal R W P m"
  using assms by (simp add: causal_def) (metis fst_conv snd_conv)

lemma causal_basic [causing]:
  "causal R W P (act_return x)" "causal R W P (act_fail e)" "causal R W P (act_lift r)"
  by (simp_all add: causal_quiet)

lemma causal_if [causing]:
  "causal R W P f \<Longrightarrow> causal R W P g \<Longrightarrow> causal R W P (if b then f else g)"
  by simp

lemma causal_pair [causing]:
  "(\<And>x y. causal R W P (f x y)) \<Longrightarrow> causal R W P (case p of (x, y) \<Rightarrow> f x y)"
  by (cases p) simp

text \<open>What depends on the rest of the state alone.\<close>

lemma causal_here:
  assumes "\<And>t. causal R W P (f t)" and "\<And>r s. f (P r s) = f s"
  shows "causal R W P (\<lambda>s. f s s)"
  using assms by (simp add: causal_def)

end

interpretation near_side: speaker cl_reader cl_writer "\<lambda>r c. c\<lparr>cl_reader := r\<rparr>"
  by unfold_locales simp_all

interpretation far_side: speaker ss_reader ss_writer "\<lambda>r (s :: ('k, 'h) session). s\<lparr>ss_reader := r\<rparr>"
  by unfold_locales simp_all

text \<open>The near end.\<close>

lemma client_causal [causing]:
  "causal cl_reader cl_writer (\<lambda>r c. c\<lparr>cl_reader := r\<rparr>) (client_read K)"
  "causal cl_reader cl_writer (\<lambda>r c. c\<lparr>cl_reader := r\<rparr>) (client_write K kind payload)"
proof -
  show "causal cl_reader cl_writer (\<lambda>r c. c\<lparr>cl_reader := r\<rparr>) (client_read K)"
    unfolding causal_def
  proof (intro allI impI)
    fix c :: client and z e r d
    assume c: "ending (cl_reader c) = Broken blocked" and d: "client_read K c = (r, d)"
    obtain x u where x: "read_message K (cl_reader c) = (x, u)" by fastforce
    from read_message_longer(1) [OF x c, of z e] read_message_longer(2) [OF x c] d x
    show "ending (cl_reader d) = Broken blocked \<and>
      (client_read K (c\<lparr>cl_reader := longer z e (cl_reader c)\<rparr>) = (r, d\<lparr>cl_reader := longer z e (cl_reader d)\<rparr>) \<or>
       waits r \<and> prefix (sent (cl_writer d))
         (sent (cl_writer (snd (client_read K (c\<lparr>cl_reader := longer z e (cl_reader c)\<rparr>))))))"
      by (auto simp: client_read_def waits_def split: prod.splits sum.splits option.splits)
  qed
  show "causal cl_reader cl_writer (\<lambda>r c. c\<lparr>cl_reader := r\<rparr>) (client_write K kind payload)"
    by (rule near_side.causal_quiet) (simp_all add: client_write_def split: prod.split)
qed

lemma client_loop_causal [causing]:
  "causal cl_reader cl_writer (\<lambda>r c. c\<lparr>cl_reader := r\<rparr>)
     (\<lambda>c. (each_token K login_step (cl_program c, cl_packet_size c, False) body, c))"
  "causal cl_reader cl_writer (\<lambda>r c. c\<lparr>cl_reader := r\<rparr>)
     (\<lambda>c. (r, c\<lparr>cl_program := p, cl_packet_size := n\<rparr>))"
  by (rule near_side.causal_quiet; simp)+

lemma connect_on_speaks [speaking]: "speaks cl_writer (connect_on K pid db l)"
  unfolding connect_on_def by (intro speaking)

lemma connect_on_causal [causing]:
  "causal cl_reader cl_writer (\<lambda>r c. c\<lparr>cl_reader := r\<rparr>) (connect_on K pid db l)"
  unfolding connect_on_def
  by (intro near_side.causal_bind causing near_side.causal_basic near_side.causal_if
      near_side.causal_pair speaking)

lemma query_causal [causing]:
  "causal cl_reader cl_writer (\<lambda>r c. c\<lparr>cl_reader := r\<rparr>) (query K sql)"
proof -
  have "causal cl_reader cl_writer (\<lambda>r c. c\<lparr>cl_reader := r\<rparr>)
      (case failed of None \<Rightarrow> act_return result | Some e \<Rightarrow> act_fail e)"
    "speaks cl_writer (case failed of None \<Rightarrow> act_return result | Some e \<Rightarrow> act_fail e)"
    for failed and result :: query_result
    by (cases failed; simp add: near_side.causal_basic speaking)+
  then show ?thesis
    unfolding query_def
    by (intro near_side.causal_bind causing near_side.causal_basic near_side.causal_pair speaking)
qed

text \<open>The far end.\<close>

lemma session_causal [causing]:
  "causal ss_reader ss_writer (\<lambda>r (s :: ('k, 'h) session). s\<lparr>ss_reader := r\<rparr>) (session_read K kind)"
  "causal ss_reader ss_writer (\<lambda>r (s :: ('k, 'h) session). s\<lparr>ss_reader := r\<rparr>) (session_write K kind payload)"
proof -
  show "causal ss_reader ss_writer (\<lambda>r (s :: ('k, 'h) session). s\<lparr>ss_reader := r\<rparr>) (session_read K kind)"
    unfolding causal_def
  proof (intro allI impI)
    fix s t :: "('k, 'h) session" and z e r
    assume s: "ending (ss_reader s) = Broken blocked" and t: "session_read K kind s = (r, t)"
    obtain x u where x: "read_message K (ss_reader s) = (x, u)" by fastforce
    from read_message_longer(1) [OF x s, of z e] read_message_longer(2) [OF x s] t x
    show "ending (ss_reader t) = Broken blocked \<and>
      (session_read K kind (s\<lparr>ss_reader := longer z e (ss_reader s)\<rparr>) = (r, t\<lparr>ss_reader := longer z e (ss_reader t)\<rparr>) \<or>
       waits r \<and> prefix (sent (ss_writer t))
         (sent (ss_writer (snd (session_read K kind (s\<lparr>ss_reader := longer z e (ss_reader s)\<rparr>))))))"
      by (auto simp: session_read_def waits_def split: prod.splits sum.splits option.splits)
  qed
  show "causal ss_reader ss_writer (\<lambda>r (s :: ('k, 'h) session). s\<lparr>ss_reader := r\<rparr>) (session_write K kind payload)"
    by (rule far_side.causal_quiet) (simp_all add: session_write_def split: prod.split)
qed

abbreviation far_causal :: "(('k, 'h) session, 'a) act \<Rightarrow> bool" where
  "far_causal \<equiv> causal ss_reader ss_writer (\<lambda>r s. s\<lparr>ss_reader := r\<rparr>)"

lemma write_tokens_causal [causing]: "far_causal (write_tokens K ts)"
  unfolding write_tokens_def by (rule causing)

lemma verdict_causal [causing]:
  fixes Q :: "('h, 'v, 'p, 'y) sql_crate_scheme"
  shows "far_causal (\<lambda>s :: ('k, 'h) session.
      if login_refused Q expected (l7_login (ss_login s)) then
        act_bind (write_tokens K (refusal_tokens (failed_text (user s))))
          (\<lambda>_. act_fail (Permanent (failed_text (user s)))) s
      else write_tokens K (welcome_tokens (database s)) s)"
proof -
  define verdict :: "('k, 'h) session \<Rightarrow> (('k, 'h) session, unit) act" where "verdict = (\<lambda>t.
      if login_refused Q expected (l7_login (ss_login t)) then
        act_bind (write_tokens K (refusal_tokens (failed_text (user t))))
          (\<lambda>_. act_fail (Permanent (failed_text (user t))))
      else write_tokens K (welcome_tokens (database t)))"
  have "far_causal (\<lambda>s. verdict s s)"
  proof (rule far_side.causal_here [where f = verdict])
    show "far_causal (verdict t)" for t
      unfolding verdict_def
      by (intro far_side.causal_if far_side.causal_bind causing far_side.causal_basic speaking)
    show "verdict (s\<lparr>ss_reader := r\<rparr>) = verdict s" for r s
      by (simp add: verdict_def user_def database_def)
  qed
  then show ?thesis by (simp add: verdict_def if_distrib [of "\<lambda>f. f _"])
qed

lemma accept_on_causal [causing]:
  fixes Q :: "('h, 'v, 'p, 'y) sql_crate_scheme"
  shows "far_causal (accept_on K Q expected :: (('k, 'h) session, unit) act)"
proof -
  have login: "far_causal (\<lambda>s :: ('k, 'h) session. (r, s\<lparr>ss_login := l\<rparr>))" for r :: "terror + unit" and l
    by (rule far_side.causal_quiet) simp_all
  show ?thesis
    unfolding accept_on_def
    by (intro far_side.causal_bind causing far_side.causal_basic login speaking)
qed

lemma run_batch_causal [causing]:
  fixes Q :: "('h, 'v, 'p, 'y) sql_crate_scheme"
  shows "far_causal (run_batch K Q body :: (('k, 'h) session, 'p event option) act)"
proof -
  have answered: "answer_batch Q sql (s\<lparr>ss_reader := r\<rparr>) =
      (case answer_batch Q sql s of (x, t) \<Rightarrow> (x, t\<lparr>ss_reader := r\<rparr>))" for sql r and s :: "('k, 'h) session"
    by (auto simp: answer_batch_def Let_def database_def split: option.split prod.split verb.split)
  show ?thesis
  proof (rule far_side.causal_quiet)
    fix r and s :: "('k, 'h) session"
    show "run_batch K Q body (s\<lparr>ss_reader := r\<rparr>) =
      (fst (run_batch K Q body s), snd (run_batch K Q body s)\<lparr>ss_reader := r\<rparr>)"
      by (cases "read_batch K body") (auto simp: run_batch_def answered write_answer_def write_tokens_def
          session_write_def act_bind_def act_return_def split: prod.split sum.split)
    show "ss_reader (snd (run_batch K Q body s)) = ss_reader s"
      by (metis run_batch_reader surjective_pairing)
  qed
qed

lemma next_event_causal [causing]:
  fixes Q :: "('h, 'v, 'p, 'y) sql_crate_scheme"
  shows "far_causal (next_event K Q :: (('k, 'h) session, 'p event option) act)"
  unfolding causal_def
proof (intro allI impI)
  fix s t :: "('k, 'h) session" and z e and r :: "terror + 'p event option"
  assume s: "sound (ss_writer s)" "ending (ss_reader s) = Broken blocked" and t: "next_event K Q s = (r, t)"
  let ?s = "s\<lparr>ss_reader := longer z e (ss_reader s)\<rparr>"
  obtain x u where x: "read_message K (ss_reader s) = (x, u)" by fastforce
  note read = read_message_longer(1) [OF x s(2), of z e] read_message_longer(2) [OF x s(2)]
  show "ending (ss_reader t) = Broken blocked \<and>
      (next_event K Q ?s = (r, t\<lparr>ss_reader := longer z e (ss_reader t)\<rparr>) \<or>
       waits r \<and> prefix (sent (ss_writer t)) (sent (ss_writer (snd (next_event K Q ?s)))))"
  proof (cases "waits x")
    case True
    then have "waits r" "t = s\<lparr>ss_reader := u\<rparr>"
      using t x by (auto simp: next_event_def waits_def)
    with read(2) speaks_prefix [OF next_event_speaks, of ?s K Q] s show ?thesis by simp
  next
    case False
    with read have more: "read_message K (longer z e (ss_reader s)) = (x, longer z e u)"
      and u: "ending u = Broken blocked" by simp_all
    show ?thesis
    proof (cases "\<exists>body. x = Inr (Some (SQL_BATCH, body))")
      case True
      then obtain body where body: "x = Inr (Some (SQL_BATCH, body))" by blast
      with t x have "run_batch K Q body (s\<lparr>ss_reader := u\<rparr>) = (r, t)"
        by (simp add: next_event_def)
      from far_side.causalD [OF run_batch_causal _ _ this] more body s u show ?thesis
        by (simp add: next_event_def)
    next
      case False
      with t x more u show ?thesis
        by (auto simp: next_event_def split: sum.splits option.splits)
    qed
  qed
qed

lemma serve_from_prefix:
  "sound (ss_writer s) \<Longrightarrow> prefix (sent (ss_writer s)) (sent (ss_writer (snd (serve_from K Q events s))))"
  by (metis serve_from_says prefixI)

lemma serve_from_causal:
  fixes Q :: "('h, 'v, 'p, 'y) sql_crate_scheme"
  assumes "sound (ss_writer s)" and "ending (ss_reader s) = Broken blocked"
    and "serve_from K Q events s = (r, t)"
  shows "ending (ss_reader t) = Broken blocked \<and>
    (serve_from K Q events (s\<lparr>ss_reader := longer z e (ss_reader s)\<rparr>) = (r, t\<lparr>ss_reader := longer z e (ss_reader t)\<rparr>) \<or>
     waits r \<and> prefix (sent (ss_writer t))
       (sent (ss_writer (snd (serve_from K Q events (s\<lparr>ss_reader := longer z e (ss_reader s)\<rparr>))))))"
  using assms
proof (induction K Q events s arbitrary: r t rule: serve_from.induct)
  case (1 K Q events s)
  obtain x u where x: "next_event K Q s = (x, u)" by fastforce
  let ?s = "s\<lparr>ss_reader := longer z e (ss_reader s)\<rparr>"
  note step = far_side.causalD [OF next_event_causal "1.prems"(1,2) x]
  have u: "sound (ss_writer u)"
    using speaksD [OF next_event_speaks "1.prems"(1), of K Q] x by auto
  obtain x' u' where x': "next_event K Q ?s = (x', u')" by fastforce
  have u': "sound (ss_writer u')"
    using speaksD [OF next_event_speaks, of ?s K Q] "1.prems"(1) x' by auto
  from step(2) [of z e] show ?case
  proof
    assume same: "next_event K Q ?s = (x, u\<lparr>ss_reader := longer z e (ss_reader u)\<rparr>)"
    show ?thesis
    proof (cases "\<exists>ev. x = Inr (Some ev)")
      case True
      then obtain ev where ev: "x = Inr (Some ev)" by blast
      with "1.prems"(3) x have "serve_from K Q (events @ [ev]) u = (r, t)"
        by (simp add: serve_from.simps [of K Q events s])
      with "1.IH" [OF x [symmetric] ev refl u step(1) this] same ev show ?thesis
        by (simp add: serve_from.simps [of K Q events ?s])
    next
      case False
      with "1.prems"(3) x same step(1) show ?thesis
        by (auto simp: serve_from.simps [of K Q events s] serve_from.simps [of K Q events ?s]
            split: sum.splits option.splits)
    qed
  next
    assume less: "waits x \<and> prefix (sent (ss_writer u)) (sent (ss_writer (snd (next_event K Q ?s))))"
    then have "t = u" "waits r"
      using "1.prems"(3) x by (auto simp: serve_from.simps [of K Q events s] waits_def)
    moreover have "prefix (sent (ss_writer u')) (sent (ss_writer (snd (serve_from K Q events ?s))))"
      using serve_from_prefix [OF u'] x'
      by (auto simp: serve_from.simps [of K Q events ?s] split: sum.split option.split)
    ultimately show ?thesis using less x' step(1) by (auto intro: prefix_order.trans)
  qed
qed

lemma serve_causal [causing]: "far_causal (serve K Q)"
  unfolding causal_def serve_def using serve_from_causal by blast

end
