(* ===== verification/Turns.thy ===== *)
theory Turns
  imports Main "HOL-Library.Sublist"
begin

text \<open>
  Two programs that talk over a connection, each of whose streams arrives piece by piece. What an
  end has said is a function of what it has heard so far; a step carries some more bytes of what
  has been said to the other end, or, once the near end is over, the end of its stream to the
  far. Nothing here is of this protocol: \<open>turn_taking\<close> is what a program that reads and writes
  does, \<open>scripted\<close> a protocol whose ends speak in turn, and \<open>scripted_talk\<close> says that no
  cutting and no order of arrival gets such a talk stuck.
\<close>

record 'b talk =
  near_heard :: "'b list"
  far_heard :: "'b list"
  hung_up :: bool

definition nothing_heard :: "'b talk" where
  "nothing_heard = \<lparr>near_heard = [], far_heard = [], hung_up = False\<rparr>"

inductive goes_on ::
    "('b list \<Rightarrow> 'b list) \<Rightarrow> (bool \<Rightarrow> 'b list \<Rightarrow> 'b list) \<Rightarrow> ('b list \<Rightarrow> bool)
       \<Rightarrow> 'b talk \<Rightarrow> 'b talk \<Rightarrow> bool" for near_says far_says near_over where
  near_hears:
    "z \<noteq> [] \<Longrightarrow> prefix (near_heard t @ z) (far_says (hung_up t) (far_heard t)) \<Longrightarrow>
     goes_on near_says far_says near_over t (t\<lparr>near_heard := near_heard t @ z\<rparr>)"
| far_hears:
    "z \<noteq> [] \<Longrightarrow> prefix (far_heard t @ z) (near_says (near_heard t)) \<Longrightarrow>
     goes_on near_says far_says near_over t (t\<lparr>far_heard := far_heard t @ z\<rparr>)"
| far_hears_the_end:
    "\<not> hung_up t \<Longrightarrow> near_over (near_heard t) \<Longrightarrow> far_heard t = near_says (near_heard t) \<Longrightarrow>
     goes_on near_says far_says near_over t (t\<lparr>hung_up := True\<rparr>)"

text \<open>A talk after \<open>k\<close> steps.\<close>

inductive talked ::
    "('b list \<Rightarrow> 'b list) \<Rightarrow> (bool \<Rightarrow> 'b list \<Rightarrow> 'b list) \<Rightarrow> ('b list \<Rightarrow> bool)
       \<Rightarrow> nat \<Rightarrow> 'b talk \<Rightarrow> bool" for near_says far_says near_over where
  opens: "talked near_says far_says near_over 0 nothing_heard"
| continues:
    "talked near_says far_says near_over k t \<Longrightarrow> goes_on near_says far_says near_over t t' \<Longrightarrow>
     talked near_says far_says near_over (Suc k) t'"

text \<open>
  A protocol in turns: the near end says the \<open>i\<close>-th of what is to be said once it has heard the
  answers before it, the far end answers it once it has heard it, and both have said all once
  they have heard all.
\<close>

definition scripted ::
    "('b list \<Rightarrow> 'b list) \<Rightarrow> (bool \<Rightarrow> 'b list \<Rightarrow> 'b list) \<Rightarrow> ('b list \<Rightarrow> bool)
       \<Rightarrow> 'b list list \<Rightarrow> 'b list list \<Rightarrow> bool" where
  "scripted near_says far_says near_over said answered \<longleftrightarrow>
     length answered = length said \<and>
     (\<forall>i < length said. prefix (concat (take (Suc i) said)) (near_says (concat (take i answered)))) \<and>
     (\<forall>i < length said. prefix (concat (take (Suc i) answered)) (far_says False (concat (take (Suc i) said)))) \<and>
     near_says (concat answered) = concat said \<and> near_over (concat answered) \<and>
     (\<forall>b. far_says b (concat said) = concat answered)"

lemma scriptedD:
  assumes "scripted near_says far_says near_over said answered"
  shows "length answered = length said"
    and "i < length said \<Longrightarrow> prefix (concat (take (Suc i) said)) (near_says (concat (take i answered)))"
    and "i < length said \<Longrightarrow>
      prefix (concat (take (Suc i) answered)) (far_says False (concat (take (Suc i) said)))"
    and "near_says (concat answered) = concat said" and "near_over (concat answered)"
    and "far_says b (concat said) = concat answered"
  using assms by (simp_all add: scripted_def)

text \<open>
  Programs that read and write: what has been said stays said whatever is heard next, and an end
  that is over says nothing more. The far end may hear that no more is coming.
\<close>

locale turn_taking =
  fixes near_says :: "'b list \<Rightarrow> 'b list"
    and far_says :: "bool \<Rightarrow> 'b list \<Rightarrow> 'b list"
    and near_over :: "'b list \<Rightarrow> bool"
  assumes near_causal: "prefix (near_says x) (near_says (x @ z))"
    and far_causal: "prefix (far_says False y) (far_says b (y @ z))"
    and over_says: "near_over x \<Longrightarrow> near_says (x @ z) = near_says x"
    and over_stays: "near_over x \<Longrightarrow> near_over (x @ z)"
begin

lemma near_mono: "prefix x x' \<Longrightarrow> prefix (near_says x) (near_says x')"
  by (auto simp: near_causal elim!: prefixE)

lemma far_mono: "prefix y y' \<Longrightarrow> prefix (far_says False y) (far_says b y')"
  by (auto simp: far_causal elim!: prefixE)

lemma over_mono: "near_over x \<Longrightarrow> prefix x x' \<Longrightarrow> near_says x' = near_says x \<and> near_over x'"
  by (auto simp: over_says over_stays elim!: prefixE)

text \<open>Each end has heard a part of what the other has said by now.\<close>

lemma heard_was_said:
  "talked near_says far_says near_over k t \<Longrightarrow>
     prefix (near_heard t) (far_says (hung_up t) (far_heard t)) \<and>
     prefix (far_heard t) (near_says (near_heard t)) \<and>
     (hung_up t \<longrightarrow> near_over (near_heard t) \<and> far_heard t = near_says (near_heard t))"
proof (induction rule: talked.induct)
  case (continues k t t')
  from continues.hyps(2) show ?case
  proof cases
    case (near_hears z)
    then show ?thesis using continues.IH near_causal over_says over_stays
      by (auto intro: prefix_order.trans)
  next
    case (far_hears z)
    then have "\<not> hung_up t" using continues.IH by auto
    with far_hears continues.IH far_causal show ?thesis by (auto intro: prefix_order.trans)
  next
    case far_hears_the_end
    then show ?thesis using continues.IH far_causal [of "far_heard t" True "[]"]
      by (auto intro: prefix_order.trans)
  qed
qed (simp add: nothing_heard_def)

text \<open>A talk nothing can be added to has carried everything.\<close>

lemma stuck_heard_all:
  assumes "talked near_says far_says near_over k t"
    and "\<nexists>t'. goes_on near_says far_says near_over t t'"
  shows "near_heard t = far_says (hung_up t) (far_heard t)"
    and "far_heard t = near_says (near_heard t)"
    and "near_over (near_heard t) \<Longrightarrow> hung_up t"
proof -
  note said = heard_was_said [OF assms(1)]
  obtain z where z: "far_says (hung_up t) (far_heard t) = near_heard t @ z"
    using said by (auto elim: prefixE)
  show "near_heard t = far_says (hung_up t) (far_heard t)"
    using near_hears [of z t far_says near_says near_over] assms(2) z by auto
  obtain z where z: "near_says (near_heard t) = far_heard t @ z"
    using said by (auto elim: prefixE)
  show all: "far_heard t = near_says (near_heard t)"
    using far_hears [of z t near_says far_says near_over] assms(2) z by auto
  show "near_over (near_heard t) \<Longrightarrow> hung_up t"
    using far_hears_the_end [of t near_over near_says far_says] assms(2) all by blast
qed

text \<open>A scripted talk never leaves its script,\<close>

lemma talk_in_script:
  assumes "scripted near_says far_says near_over said answered"
    and "talked near_says far_says near_over k t"
  shows "prefix (near_heard t) (concat answered) \<and> prefix (far_heard t) (concat said)"
  using assms(2)
proof (induction rule: talked.induct)
  case (continues k t t')
  note script = scriptedD [OF assms(1)]
  have far: "prefix (far_says (hung_up t) (far_heard t)) (concat answered)"
  proof (cases "hung_up t")
    case True
    then have "far_heard t = concat said"
      using heard_was_said [OF continues.hyps(1)] over_mono [of "near_heard t" "concat answered"]
        continues.IH script(4) by auto
    then show ?thesis by (simp add: script(6))
  next
    case False
    then show ?thesis using far_mono [of "far_heard t" "concat said" False] continues.IH
      by (simp add: script(6))
  qed
  have near: "prefix (near_says (near_heard t)) (concat said)"
    using near_mono [of "near_heard t" "concat answered"] continues.IH script(4) by simp
  from continues.hyps(2) show ?case
    by cases (use far near continues.IH in \<open>auto intro: prefix_order.trans\<close>)
qed (simp add: nothing_heard_def)

text \<open>and one that stops is at its end.\<close>

lemma talk_to_the_end:
  assumes "scripted near_says far_says near_over said answered"
    and "talked near_says far_says near_over k t"
    and "\<nexists>t'. goes_on near_says far_says near_over t t'"
  shows "t = \<lparr>near_heard = concat answered, far_heard = concat said, hung_up = True\<rparr>"
proof -
  note script = scriptedD [OF assms(1)] and stuck = stuck_heard_all [OF assms(2,3)]
  have turns: "i \<le> length said \<Longrightarrow> prefix (concat (take i answered)) (near_heard t) \<and>
      prefix (concat (take i said)) (far_heard t)" for i
  proof (induction i)
    case (Suc i)
    have "prefix (concat (take (Suc i) said)) (far_heard t)"
      using script(2) [of i] Suc near_mono [of "concat (take i answered)" "near_heard t"]
      by (subst stuck(2)) (auto intro: prefix_order.trans)
    moreover from this have "prefix (concat (take (Suc i) answered)) (near_heard t)"
      using script(3) [of i] Suc.prems far_mono
      by (subst stuck(1)) (auto intro: prefix_order.trans)
    ultimately show ?case by simp
  qed simp
  from turns [of "length said"] talk_in_script [OF assms(1,2)] script(1)
  have "near_heard t = concat answered" "far_heard t = concat said"
    by (auto simp: prefix_order.eq_iff)
  with stuck(3) script(5) show ?thesis by (intro talk.equality) auto
qed

lemma end_of_script:
  assumes "scripted near_says far_says near_over said answered"
  shows "\<nexists>t. goes_on near_says far_says near_over
    \<lparr>near_heard = concat answered, far_heard = concat said, hung_up = True\<rparr> t"
  using scriptedD(4,6) [OF assms] by (auto elim!: goes_on.cases)

lemma steps_counted:
  "talked near_says far_says near_over k t \<Longrightarrow>
     k \<le> length (near_heard t) + length (far_heard t) + of_bool (hung_up t)"
proof (induction rule: talked.induct)
  case (continues k t t')
  have more: "m \<le> n \<Longrightarrow> z \<noteq> [] \<Longrightarrow> Suc m \<le> n + length z" for m n and z :: "'b list"
    by (cases z) simp_all
  from continues.hyps(2) show ?case
  proof cases
    case (near_hears z)
    with more [OF continues.IH, of z] show ?thesis by simp
  next
    case (far_hears z)
    with more [OF continues.IH, of z] show ?thesis by simp
  qed (use continues.IH in simp)
qed simp

lemma talk_bounded:
  assumes "scripted near_says far_says near_over said answered"
    and "talked near_says far_says near_over k t"
  shows "k \<le> Suc (length (concat answered) + length (concat said))"
  using steps_counted [OF assms(2)] talk_in_script [OF assms]
  by (cases "hung_up t") (auto dest!: prefix_length_le)

text \<open>However a scripted talk has gone so far, it goes on to the end, in so many steps.\<close>

lemma scripted_talk:
  assumes script: "scripted near_says far_says near_over said answered"
    and "talked near_says far_says near_over k t"
  shows "\<exists>n. talked near_says far_says near_over n
    \<lparr>near_heard = concat answered, far_heard = concat said, hung_up = True\<rparr> \<and> k \<le> n \<and>
    (goes_on near_says far_says near_over)\<^sup>*\<^sup>* t
      \<lparr>near_heard = concat answered, far_heard = concat said, hung_up = True\<rparr>"
  using assms(2)
proof (induction "Suc (length (concat answered) + length (concat said)) - k" arbitrary: k t rule: less_induct)
  case less
  show ?case
  proof (cases "\<exists>t'. goes_on near_says far_says near_over t t'")
    case True
    then obtain t' where t': "goes_on near_says far_says near_over t t'" by blast
    note more = talked.continues [OF less.prems t']
    have "Suc (length (concat answered) + length (concat said)) - Suc k
        < Suc (length (concat answered) + length (concat said)) - k"
      using talk_bounded [OF script more] by linarith
    from less.hyps [OF this more] obtain n where "talked near_says far_says near_over n
        \<lparr>near_heard = concat answered, far_heard = concat said, hung_up = True\<rparr>" "Suc k \<le> n"
      "(goes_on near_says far_says near_over)\<^sup>*\<^sup>* t'
        \<lparr>near_heard = concat answered, far_heard = concat said, hung_up = True\<rparr>"
      by blast
    with t' show ?thesis by (intro exI [of _ n]) (auto intro: converse_rtranclp_into_rtranclp)
  next
    case False
    with talk_to_the_end [OF script less.prems] less.prems show ?thesis by blast
  qed
qed

end

end
