(* ===== verification/Interleaving.thy ===== *)
theory Interleaving
  imports Waiting Turns
begin

text \<open>
  Client and session on a connection that delivers as it likes. Neither is given the other's whole
  stream: each has heard some of it, and waits where it has too little. \<open>Turns\<close> says what such
  a talk can do, \<open>Waiting\<close> that both programs are of the kind it asks for; here the crate's
  protocol is a script of turns, so no cutting of the streams and no order of arrival gets the two
  stuck, and where they stop each has its results.
\<close>

subsection \<open>The two programs\<close>

text \<open>A result of the server is a result; a failure of the connection ends the caller.\<close>

fun settled :: "terror + 'a \<Rightarrow> terror + (terror + 'a)" where
  "settled (Inl (Classified w e)) = Inl (Classified w e)"
| "settled r = Inr r"

definition settle :: "('s, 'a) act \<Rightarrow> ('s, terror + 'a) act" where
  "settle m s = (settled (fst (m s)), snd (m s))"

fun asks :: "'z externals_scheme \<Rightarrow> str list \<Rightarrow> (client, (terror + query_result) list) act" where
  "asks K [] = act_return []"
| "asks K (sql # sqls) =
     act_bind (settle (query K sql)) (\<lambda>r. act_bind (asks K sqls) (\<lambda>rs. act_return (r # rs)))"

definition near_run ::
    "'z externals_scheme \<Rightarrow> 32 word \<Rightarrow> str \<Rightarrow> login \<Rightarrow> str list \<Rightarrow> byte list
       \<Rightarrow> (terror + (terror + query_result) list) \<times> client" where
  "near_run K pid db l sqls x =
     act_bind (connect_on K pid db l) (\<lambda>_. asks K sqls)
       (new_client \<lparr>incoming = x, ending = Broken blocked\<rparr> quiet_writer)"

definition near_says :: "'z externals_scheme \<Rightarrow> 32 word \<Rightarrow> str \<Rightarrow> login \<Rightarrow> str list \<Rightarrow> byte list \<Rightarrow> byte list" where
  "near_says K pid db l sqls x = sent (cl_writer (snd (near_run K pid db l sqls x)))"

definition near_over :: "'z externals_scheme \<Rightarrow> 32 word \<Rightarrow> str \<Rightarrow> login \<Rightarrow> str list \<Rightarrow> byte list \<Rightarrow> bool" where
  "near_over K pid db l sqls x \<longleftrightarrow> \<not> waits (fst (near_run K pid db l sqls x))"

definition far_run ::
    "'z externals_scheme \<Rightarrow> ('h, 'v, 'p, 'y) sql_crate_scheme \<Rightarrow> login option \<Rightarrow> ('k, 'h) session
       \<Rightarrow> bool \<Rightarrow> byte list \<Rightarrow> (terror + 'p event list) \<times> ('k, 'h) session" where
  "far_run K Q expected s hung y =
     far_end K Q expected (serve K Q)
       (s\<lparr>ss_writer := quiet_writer,
          ss_reader := \<lparr>incoming = y, ending = if hung then Closed else Broken blocked\<rparr>\<rparr>)"

definition far_says ::
    "'z externals_scheme \<Rightarrow> ('h, 'v, 'p, 'y) sql_crate_scheme \<Rightarrow> login option \<Rightarrow> ('k, 'h) session
       \<Rightarrow> bool \<Rightarrow> byte list \<Rightarrow> byte list" where
  "far_says K Q expected s hung y = sent (ss_writer (snd (far_run K Q expected s hung y)))"

lemma settle_speaks [speaking]: "speaks W m \<Longrightarrow> speaks W (settle m)"
  by (simp add: speaks_def settle_def)

lemma settle_causal [causing]:
  assumes "causal R W P m"
  shows "causal R W P (settle m)"
  unfolding causal_def
proof (intro allI impI)
  fix s z e r t
  assume s: "sound (W s)" "ending (R s) = Broken blocked" and t: "settle m s = (r, t)"
  have "waits (fst (m s)) \<Longrightarrow> waits (settled (fst (m s)))"
    by (auto simp: waits_def)
  moreover have "m s = (fst (m s), t)" "r = settled (fst (m s))"
    using t by (auto simp: settle_def)
  ultimately show "ending (R t) = Broken blocked \<and>
      (settle m (P (longer z e (R s)) s) = (r, P (longer z e (R t)) t) \<or>
       waits r \<and> prefix (sent (W t)) (sent (W (snd (settle m (P (longer z e (R s)) s))))))"
    using assms s unfolding causal_def settle_def by (metis fst_conv snd_conv)
qed

lemma asks_speaks [speaking]: "speaks cl_writer (asks K sqls)"
  by (induction sqls) (auto intro!: speaking)

lemma asks_causal [causing]: "causal cl_reader cl_writer (\<lambda>r c. c\<lparr>cl_reader := r\<rparr>) (asks K sqls)"
proof (induction sqls)
  case Nil
  show ?case unfolding asks.simps by (rule near_side.causal_basic)
next
  case (Cons sql sqls)
  then show ?case
    unfolding asks.simps
    by (intro near_side.causal_bind causing near_side.causal_basic speaking)
qed

text \<open>Both are programs whose beginning depends on what they have heard, and on nothing to come.\<close>

lemma near_run_longer:
  "near_run K pid db l sqls (x @ z) = (fst (near_run K pid db l sqls x),
     (snd (near_run K pid db l sqls x))\<lparr>cl_reader := longer z (Broken blocked)
       (cl_reader (snd (near_run K pid db l sqls x)))\<rparr>) \<or>
   waits (fst (near_run K pid db l sqls x)) \<and>
     prefix (near_says K pid db l sqls x) (near_says K pid db l sqls (x @ z))"
proof -
  let ?m = "act_bind (connect_on K pid db l) (\<lambda>_. asks K sqls)"
  let ?c = "new_client \<lparr>incoming = x, ending = Broken blocked\<rparr> quiet_writer"
  have "causal cl_reader cl_writer (\<lambda>r c. c\<lparr>cl_reader := r\<rparr>) ?m"
    by (intro near_side.causal_bind causing speaking)
  from near_side.causalD(2) [OF this, of ?c _ _ z "Broken blocked"] show ?thesis
    by (auto simp: near_run_def near_says_def new_client_def longer_def)
qed

lemma far_run_longer:
  "prefix (far_says K Q expected s False y) (far_says K Q expected s b (y @ z))"
proof -
  let ?m = "far_end K Q expected (serve K Q)"
  let ?s = "\<lambda>e y. s\<lparr>ss_writer := quiet_writer, ss_reader := \<lparr>incoming = y, ending = e\<rparr>\<rparr>"
  let ?e = "if b then Closed else Broken blocked"
  obtain r t where t: "?m (?s (Broken blocked) y) = (r, t)" by fastforce
  have "far_causal ?m"
    by (intro far_side.causal_bind causing speaking)
  from far_side.causalD(2) [OF this _ _ t, of z ?e] have
    "?m (?s ?e (y @ z)) = (r, t\<lparr>ss_reader := longer z ?e (ss_reader t)\<rparr>) \<or>
     prefix (sent (ss_writer t)) (sent (ss_writer (snd (?m (?s ?e (y @ z))))))"
    by (auto simp: longer_def)
  then show ?thesis
  proof
    assume "?m (?s ?e (y @ z)) = (r, t\<lparr>ss_reader := longer z ?e (ss_reader t)\<rparr>)"
    then show ?thesis unfolding far_says_def far_run_def using t by simp
  next
    assume "prefix (sent (ss_writer t)) (sent (ss_writer (snd (?m (?s ?e (y @ z))))))"
    then show ?thesis unfolding far_says_def far_run_def using t by simp
  qed
qed

interpretation talk: turn_taking "near_says K pid db l sqls" "far_says K Q expected s" "near_over K pid db l sqls"
  for K :: "'z externals_scheme" and pid db l sqls and Q :: "('h, 'v, 'p, 'y) sql_crate_scheme"
    and expected and s :: "('k, 'h) session"
proof
  show "prefix (far_says K Q expected s False y) (far_says K Q expected s b (y @ z))" for y b z
    by (rule far_run_longer)
  fix x z
  show "prefix (near_says K pid db l sqls x) (near_says K pid db l sqls (x @ z))"
    using near_run_longer [of K pid db l sqls x z] by (auto simp: near_says_def)
  assume "near_over K pid db l sqls x"
  with near_run_longer [of K pid db l sqls x z]
  show "near_says K pid db l sqls (x @ z) = near_says K pid db l sqls x"
    "near_over K pid db l sqls (x @ z)"
    by (auto simp: near_says_def near_over_def)
qed

subsection \<open>The protocol in turns\<close>

definition near_lines :: "'z externals_scheme \<Rightarrow> 32 word \<Rightarrow> str \<Rightarrow> login \<Rightarrow> str list \<Rightarrow> byte list list" where
  "near_lines K pid db l sqls =
     hello K # login_packets K pid db l # map (batch_packets K DEFAULT_PACKET_SIZE) sqls"

definition far_lines :: "'z externals_scheme \<Rightarrow> str \<Rightarrow> answer list \<Rightarrow> byte list list" where
  "far_lines K db as =
     hello_back K # token_packets K (welcome_tokens db) # map (answer_packets K) as"

text \<open>The near end asks the next thing when it has the answers before it.\<close>

lemma waiting_query:
  assumes "sound (cl_writer c)" and "incoming (cl_reader c) = []" and "ending (cl_reader c) = Broken blocked"
  shows "waits (fst (query K sql c))"
proof -
  define d where "d = c\<lparr>cl_writer := (cl_writer c)\<lparr>sent := sent (cl_writer c)
    @ batch_packets K (cl_packet_size c) sql\<rparr>\<rparr>"
  have d: "client_write K SQL_BATCH (encode_batch K sql) c = (Inr (), d)"
    using client_write_sound [OF assms(1)] by (simp add: d_def batch_packets_def)
  have "client_read K d = (Inl (Classified (lit ''reading a packet header'') blocked), d)"
    using assms(2,3) by (simp add: client_read_def d_def read_message_def read_packets.simps [of K] read1_def)
  with d show ?thesis by (simp add: query_def act_bind_def)
qed

lemma asks_in_turn:
  assumes "codec K" and "body_ceiling K" and "sound (cl_writer c)" and "length as \<le> length sqls"
    and "list_all (\<lambda>a. answer_fits a \<and> length (encode_tokens K (answer_tokens a)) \<le> max_body K) as"
    and "incoming (cl_reader c) = concat (map (answer_packets K) as)"
    and "ending (cl_reader c) = Broken blocked"
  shows "sent (cl_writer (snd (asks K sqls c))) =
      sent (cl_writer c) @ concat (map (batch_packets K (cl_packet_size c)) (take (Suc (length as)) sqls))
    \<and> (length as = length sqls \<longrightarrow> fst (asks K sqls c) = Inr (map answer_result as))"
  using assms(3-)
proof (induction sqls arbitrary: c as)
  case (Cons sql sqls)
  note says = query_says [OF Cons.prems(1), of K sql]
  show ?case
  proof (cases as)
    case Nil
    then have "waits (fst (query K sql c))"
      using waiting_query Cons.prems by simp
    then have "settle (query K sql) c = (Inl (projl (fst (query K sql c))), snd (query K sql c))"
      by (auto simp: settle_def waits_def)
    then have "asks K (sql # sqls) c = (Inl (projl (fst (query K sql c))), snd (query K sql c))"
      by (simp add: act_bind_def)
    with Nil says show ?thesis by simp
  next
    case as: (Cons a bs)
    have fits: "answer_fits a" "length (encode_tokens K (answer_tokens a)) \<le> max_body K"
      using Cons.prems(3) as by simp_all
    have "incoming (cl_reader c) = packets K TABULAR_RESULT (encode_tokens K (answer_tokens a))
        DEFAULT_PACKET_SIZE @ concat (map (answer_packets K) bs)"
      using Cons.prems(4) as by (simp add: answer_packets_def [of K a])
    from query_answered [OF assms(1,2) Cons.prems(1) codec.answer_tokens_shown(1) [OF assms(1) fits(1)]
        fits(2) this, of sql]
    obtain d where d: "query K sql c = (answer_result a, d)"
      "incoming (cl_reader d) = concat (map (answer_packets K) bs)" "sound (cl_writer d)"
      "ending (cl_reader d) = Broken blocked"
      using Cons.prems(1,5) codec.answer_tokens_shown(2) [OF assms(1) fits(1)]
      by (simp add: answer_tokens_result)
    have "settled (answer_result a) = Inr (answer_result a)"
      by (cases a) (simp_all add: answer_result_def sql_error_def Let_def)
    with d(1) have "settle (query K sql) c = (Inr (answer_result a), d)"
      by (simp add: settle_def)
    with Cons.IH [OF d(3) _ _ d(2,4)] Cons.prems(2,3) as says d(1) show ?thesis
      by (auto simp: act_bind_def act_return_def split: prod.split sum.split)
  qed
qed simp

lemma near_in_turn:
  assumes "parties K Q db l expected" and "length as \<le> length sqls"
    and "list_all (\<lambda>a. answer_fits a \<and> length (encode_tokens K (answer_tokens a)) \<le> max_body K) as"
  shows "near_says K pid db l sqls (concat (far_lines K db as)) =
      concat (take (Suc (Suc (Suc (length as)))) (near_lines K pid db l sqls))"
    and "length as = length sqls \<Longrightarrow>
      fst (near_run K pid db l sqls (concat (far_lines K db as))) = Inr (map answer_result as)"
proof -
  note laws = partiesD [OF assms(1)]
  define r where "r = \<lparr>incoming = concat (far_lines K db as), ending = Broken blocked\<rparr>"
  define d where "d = \<lparr>cl_reader = r\<lparr>incoming := concat (map (answer_packets K) as)\<rparr>,
    cl_writer = quiet_writer\<lparr>sent := hello K @ login_packets K pid db l\<rparr>,
    cl_packet_size = DEFAULT_PACKET_SIZE, cl_program = lit ''Microsoft SQL Server (xmip)''\<rparr>"
  have "connect_on K pid db l (new_client r quiet_writer) = (Inr (), d)"
    using connect_on_entered(1) [OF laws(1,4) quiet_writer_sound(1) laws(6,8),
        of r "concat (map (answer_packets K) as)" pid]
    by (simp add: d_def r_def far_lines_def)
  then have near: "near_run K pid db l sqls (concat (far_lines K db as)) = asks K sqls d"
    by (simp add: near_run_def act_bind_def r_def)
  have d: "sound (cl_writer d)" "incoming (cl_reader d) = concat (map (answer_packets K) as)"
    "ending (cl_reader d) = Broken blocked"
    by (simp_all add: d_def r_def)
  from asks_in_turn [OF laws(1,4) d(1) assms(2,3) d(2,3)]
  show "near_says K pid db l sqls (concat (far_lines K db as)) =
      concat (take (Suc (Suc (Suc (length as)))) (near_lines K pid db l sqls))"
    and "length as = length sqls \<Longrightarrow>
      fst (near_run K pid db l sqls (concat (far_lines K db as))) = Inr (map answer_result as)"
    by (simp_all add: near near_says_def near_lines_def take_map d_def)
qed

lemma near_opens:
  assumes "parties K Q db l expected"
  shows "prefix (hello K) (near_says K pid db l sqls [])"
    and "prefix (hello K @ login_packets K pid db l) (near_says K pid db l sqls (hello_back K))"
proof -
  note laws = partiesD [OF assms]
  let ?c = "\<lambda>x. new_client \<lparr>incoming = x, ending = Broken blocked\<rparr> quiet_writer"
  have goes_on: "prefix p (near_says K pid db l sqls x)"
    if "\<exists>z. sent (cl_writer (snd (connect_on K pid db l (?c x)))) = p @ z
      \<and> sound (cl_writer (snd (connect_on K pid db l (?c x))))" for p x
    using bind_goes_on [where m = "connect_on K pid db l" and f = "\<lambda>_. asks K sqls" and s = "?c x",
        OF that asks_speaks]
    by (auto simp: near_says_def near_run_def)
  show "prefix (hello K) (near_says K pid db l sqls [])"
    using connect_on_says [of "?c []" K pid db l]
    by (intro goes_on) (auto simp: hello_def new_client_def)
  show "prefix (hello K @ login_packets K pid db l) (near_says K pid db l sqls (hello_back K))"
    using connect_on_gives_login [OF laws(2,3,4) quiet_writer_sound(1) laws(10),
        of "\<lparr>incoming = hello_back K, ending = Broken blocked\<rparr>" "[]" pid db l]
    by (intro goes_on) simp
qed

text \<open>The far end answers all it has heard.\<close>

lemma replies_take: "replies Q (take j sqls) s = take j (replies Q sqls s)"
proof (induction sqls arbitrary: j s)
  case (Cons sql sqls)
  then show ?case by (cases j) (simp_all split: prod.split)
qed simp

lemma far_opens:
  fixes s :: "('k, 'h) session"
  assumes "parties K Q db l expected"
  shows "prefix (hello_back K) (far_says K Q expected s b (hello K))"
proof -
  note laws = partiesD [OF assms]
  let ?s = "s\<lparr>ss_writer := quiet_writer,
    ss_reader := \<lparr>incoming = hello K, ending = if b then Closed else Broken blocked\<rparr>\<rparr>"
  from bind_goes_on [where m = "accept_on K Q expected" and f = "\<lambda>_. serve K Q" and s = ?s,
      OF accept_on_greets [OF laws(2-4) _ laws(9), of ?s "[]" Q expected] serve_speaks]
  show ?thesis by (auto simp: far_says_def far_run_def)
qed

lemma far_in_turn:
  fixes s :: "('k, 'h) session"
  assumes "parties K Q db l expected" and "expected = None \<or> expected = Some l"
    and "list_all (\<lambda>sql. is_str sql \<and> length (encode_batch K sql) \<le> max_body K) sqls"
    and told: "told = replies Q sqls (s\<lparr>ss_login := new_login7 l db\<rparr>)"
  shows "far_says K Q expected s b (concat (near_lines K pid db l sqls)) =
      concat (far_lines K db (map fst told))"
    and "fst (far_run K Q expected s True (concat (near_lines K pid db l sqls))) = Inr (map snd told)"
proof -
  note laws = partiesD [OF assms(1)]
  have run: "\<exists>t. far_run K Q expected s b (concat (near_lines K pid db l sqls)) =
      (case if b then Closed else Broken blocked of Closed \<Rightarrow> Inr (map snd told)
        | Broken w \<Rightarrow> Inl (Classified (lit ''reading a packet header'') w), t) \<and>
      sent (ss_writer t) = concat (far_lines K db (map fst told))" for b
  proof -
    define s1 where "s1 = s\<lparr>ss_writer := quiet_writer, ss_reader :=
      \<lparr>incoming = concat (near_lines K pid db l sqls), ending = if b then Closed else Broken blocked\<rparr>\<rparr>"
    define t where "t = entered K db l (concat (map (batch_packets K DEFAULT_PACKET_SIZE) sqls)) s1"
    have "accept_on K Q expected s1 = (Inr (), t)"
      unfolding t_def
      by (rule accept_on_entered(1) [OF laws(1,4,5) _ laws(6-8) _ assms(2), where pid = pid])
        (simp_all add: s1_def near_lines_def)
    then have far: "far_run K Q expected s b (concat (near_lines K pid db l sqls)) = serve K Q t"
      by (simp add: far_run_def act_bind_def s1_def)
    have "t = (s\<lparr>ss_login := new_login7 l db\<rparr>)\<lparr>ss_reader := ss_reader t, ss_writer := ss_writer t\<rparr>"
      by (rule session.equality) (simp_all add: t_def s1_def entered_def)
    then have told: "replies Q sqls t = told" by (metis told replies_io)
    have "sound (ss_writer t)" "ending (ss_reader t) = (if b then Closed else Broken blocked)"
      "incoming (ss_reader t) = concat (map (batch_packets K DEFAULT_PACKET_SIZE) sqls)"
      by (simp_all add: t_def s1_def entered_def)
    moreover have "sent (ss_writer t) = hello_back K @ token_packets K (welcome_tokens db)"
      by (simp add: t_def s1_def entered_def)
    ultimately show ?thesis
      using serve_whole_batches [OF laws(1,4) assms(3), of t _ DEFAULT_PACKET_SIZE Q "[]"]
      by (auto simp: far serve_def told far_lines_def comp_def)
  qed
  from run [of b] show "far_says K Q expected s b (concat (near_lines K pid db l sqls)) =
      concat (far_lines K db (map fst told))"
    by (auto simp: far_says_def)
  from run [of True]
  show "fst (far_run K Q expected s True (concat (near_lines K pid db l sqls))) = Inr (map snd told)"
    by auto
qed

text \<open>A login that is not the one expected is turned away.\<close>

definition turned_away :: "'z externals_scheme \<Rightarrow> str \<Rightarrow> byte list list" where
  "turned_away K u = [hello_back K, token_packets K (refusal_tokens (failed_text u))]"

lemma refused_in_turn:
  fixes s :: "('k, 'h) session"
  assumes "parties K Q db l expected" and "\<not> (expected = None \<or> expected = Some l)"
  shows "near_says K pid db l sqls (concat (turned_away K (login_user l))) = hello K @ login_packets K pid db l"
    and "fst (near_run K pid db l sqls (concat (turned_away K (login_user l)))) =
      Inl (sql_error (new_message LOGIN_FAILED 14 (failed_text (login_user l))))"
    and "far_says K Q expected s b (hello K @ login_packets K pid db l) = concat (turned_away K (login_user l))"
    and "fst (far_run K Q expected s b (hello K @ login_packets K pid db l)) =
      Inl (Permanent (failed_text (login_user l)))"
proof -
  note laws = partiesD [OF assms(1)]
  define r where "r = \<lparr>incoming = concat (turned_away K (login_user l)), ending = Broken blocked\<rparr>"
  have "connect_on K pid db l (new_client r quiet_writer) =
      (Inl (sql_error (new_message LOGIN_FAILED 14 (failed_text (login_user l)))),
       new_client (r\<lparr>incoming := []\<rparr>) (quiet_writer\<lparr>sent := hello K @ login_packets K pid db l\<rparr>))"
    using connect_on_entered(2) [OF laws(1,4) quiet_writer_sound(1) laws(6,8), of r "[]" pid]
    by (simp add: r_def turned_away_def)
  then have near: "near_run K pid db l sqls (concat (turned_away K (login_user l))) =
      (Inl (sql_error (new_message LOGIN_FAILED 14 (failed_text (login_user l)))),
       new_client (r\<lparr>incoming := []\<rparr>) (quiet_writer\<lparr>sent := hello K @ login_packets K pid db l\<rparr>))"
    by (simp add: near_run_def act_bind_def r_def)
  show "near_says K pid db l sqls (concat (turned_away K (login_user l))) = hello K @ login_packets K pid db l"
    "fst (near_run K pid db l sqls (concat (turned_away K (login_user l)))) =
      Inl (sql_error (new_message LOGIN_FAILED 14 (failed_text (login_user l))))"
    by (simp_all add: near_says_def near new_client_def)
  let ?s = "s\<lparr>ss_writer := quiet_writer, ss_reader := \<lparr>incoming = hello K @ login_packets K pid db l,
    ending = if b then Closed else Broken blocked\<rparr>\<rparr>"
  obtain t where t: "accept_on K Q expected ?s = (Inl (Permanent (failed_text (login_user l))), t)"
    "sent (ss_writer t) = concat (turned_away K (login_user l))"
    using accept_on_entered(2) [OF laws(1,4,5) _ laws(6-8) _ assms(2), of ?s pid "[]"]
    by (auto simp: turned_away_def)
  then have "far_run K Q expected s b (hello K @ login_packets K pid db l) =
      (Inl (Permanent (failed_text (login_user l))), t)"
    by (simp add: far_run_def act_bind_def)
  with t show "far_says K Q expected s b (hello K @ login_packets K pid db l) = concat (turned_away K (login_user l))"
    "fst (far_run K Q expected s b (hello K @ login_packets K pid db l)) =
      Inl (Permanent (failed_text (login_user l)))"
    by (simp_all add: far_says_def)
qed

lemma refused_script:
  fixes s :: "('k, 'h) session"
  assumes "parties K Q db l expected" and "\<not> (expected = None \<or> expected = Some l)"
  shows "scripted (near_says K pid db l sqls) (far_says K Q expected s) (near_over K pid db l sqls)
    (near_lines K pid db l []) (turned_away K (login_user l))"
proof -
  note refused = refused_in_turn [OF assms]
  have over: "near_over K pid db l sqls (concat (turned_away K (login_user l)))"
    by (simp add: near_over_def refused(2) sql_error_def Let_def waits_def)
  have "prefix (concat (take (Suc i) (near_lines K pid db l [])))
      (near_says K pid db l sqls (concat (take i (turned_away K (login_user l)))))" if "i < 2" for i
    using that near_opens [OF assms(1), of pid sqls]
    by (auto simp: less_2_cases_iff near_lines_def turned_away_def)
  moreover have "prefix (concat (take (Suc i) (turned_away K (login_user l))))
      (far_says K Q expected s False (concat (take (Suc i) (near_lines K pid db l []))))" if "i < 2" for i
    using that far_opens [OF assms(1), of s False] refused(3) [of s False pid]
    by (auto simp: less_2_cases_iff near_lines_def turned_away_def)
  ultimately show ?thesis
    using over refused(1) [of pid sqls] refused(3) [of s _ pid]
    by (simp add: scripted_def near_lines_def turned_away_def)
qed

lemma list_all_take: "list_all P xs \<Longrightarrow> list_all P (take j xs)"
  by (auto simp: list_all_iff dest: in_set_takeD)

lemma admitted_script:
  fixes s :: "('k, 'h) session"
  assumes "parties K Q db l expected" and "expected = None \<or> expected = Some l"
    and "list_all (\<lambda>sql. is_str sql \<and> length (encode_batch K sql) \<le> max_body K) sqls"
    and told: "told = replies Q sqls (s\<lparr>ss_login := new_login7 l db\<rparr>)"
    and fits: "list_all (\<lambda>a. answer_fits a \<and> length (encode_tokens K (answer_tokens a)) \<le> max_body K) (map fst told)"
  shows "scripted (near_says K pid db l sqls) (far_says K Q expected s) (near_over K pid db l sqls)
    (near_lines K pid db l sqls) (far_lines K db (map fst told))"
proof -
  have n: "length (map fst told) = length sqls" by (simp add: told length_replies)
  have parts: "list_all (\<lambda>a. answer_fits a \<and> length (encode_tokens K (answer_tokens a)) \<le> max_body K)
      (take j (map fst told))" "list_all (\<lambda>sql. is_str sql \<and> length (encode_batch K sql) \<le> max_body K) (take j sqls)" for j
    using fits assms(3) by (simp_all only: list_all_take)
  have near: "prefix (concat (take (Suc i) (near_lines K pid db l sqls)))
      (near_says K pid db l sqls (concat (take i (far_lines K db (map fst told)))))"
    if i: "i < Suc (Suc (length sqls))" for i
  proof (cases "i < 2")
    case True
    then show ?thesis using near_opens [OF assms(1), of pid sqls]
      by (auto simp: less_2_cases_iff near_lines_def far_lines_def)
  next
    case False
    then have "i = Suc (Suc (i - 2))" "i - 2 \<le> length sqls"
      using i by simp_all
    then obtain j where "i = Suc (Suc j)" "j \<le> length sqls" by blast
    with near_in_turn(1) [OF assms(1) _ parts(1) [of j], of sqls pid] n show ?thesis
      by (simp add: far_lines_def take_map)
  qed
  have far: "prefix (concat (take (Suc i) (far_lines K db (map fst told))))
      (far_says K Q expected s False (concat (take (Suc i) (near_lines K pid db l sqls))))" for i
  proof (cases i)
    case 0
    then show ?thesis using far_opens [OF assms(1), of s False] by (simp add: near_lines_def far_lines_def)
  next
    case (Suc j)
    with far_in_turn(1) [OF assms(1,2) parts(2) [of j] refl, of s False pid] show ?thesis
      by (simp add: near_lines_def far_lines_def take_map told replies_take)
  qed
  show ?thesis
    using near far near_in_turn [OF assms(1) _ fits, of sqls pid] n
      far_in_turn(1) [OF assms(1-3) told, of _ pid]
    by (simp add: scripted_def near_over_def) (simp add: near_lines_def far_lines_def)
qed

subsection \<open>Properties\<close>

text \<open>C2: However the connection cuts the two streams and in whatever order the pieces arrive, client
  and session never wait for each other in vain. A talk after any number of steps can take another,
  or it is over: client and session have returned, with every answer and every event, or with the
  refusal. And it has an end: no talk takes more steps than there are bytes to be said and one.\<close>

theorem no_talk_gets_stuck:
  fixes s :: "('k, 'h) session" and Q :: "('h, 'v, 'p, 'y) sql_crate_scheme"
  assumes "codec K" and "body_ceiling K" and "constant_time Q" and "presentable db l"
    and "pred_option (\<lambda>e. is_str (login_password e)) expected" and "65600 \<le> max_body K"
    and sqls: "list_all (\<lambda>sql. is_str sql \<and> length (encode_batch K sql) \<le> max_body K) sqls"
    and told: "told = replies Q sqls (s\<lparr>ss_login := new_login7 l db\<rparr>)"
    and fits: "list_all (\<lambda>a. answer_fits a \<and> length (encode_tokens K (answer_tokens a)) \<le> max_body K) (map fst told)"
    and talked: "talked (near_says K pid db l sqls) (far_says K Q expected s) (near_over K pid db l sqls) k t"
  shows "if expected = None \<or> expected = Some l then
      k \<le> Suc (length (concat (far_lines K db (map fst told))) + length (concat (near_lines K pid db l sqls))) \<and>
      ((\<exists>u. goes_on (near_says K pid db l sqls) (far_says K Q expected s) (near_over K pid db l sqls) t u) \<or>
       fst (near_run K pid db l sqls (near_heard t)) = Inr (map (answer_result \<circ> fst) told) \<and>
       fst (far_run K Q expected s (hung_up t) (far_heard t)) = Inr (map snd told))
    else
      k \<le> Suc (length (concat (turned_away K (login_user l))) + length (concat (near_lines K pid db l []))) \<and>
      ((\<exists>u. goes_on (near_says K pid db l sqls) (far_says K Q expected s) (near_over K pid db l sqls) t u) \<or>
       fst (near_run K pid db l sqls (near_heard t)) =
         Inl (sql_error (new_message LOGIN_FAILED 14 (failed_text (login_user l)))) \<and>
       fst (far_run K Q expected s (hung_up t) (far_heard t)) = Inl (Permanent (failed_text (login_user l))))"
proof (cases "expected = None \<or> expected = Some l")
  case True
  have parties: "parties K Q db l expected" using assms(1-6) by (simp add: parties_def)
  note script = admitted_script [OF parties True sqls told fits, of pid]
  have "length (map fst told) = length sqls" by (simp add: told length_replies)
  with True talk.talk_bounded [OF script talked] talk.talk_to_the_end [OF script talked]
    near_in_turn(2) [OF parties _ fits, of sqls pid] far_in_turn(2) [OF parties True sqls told, of pid]
  show ?thesis by auto
next
  case False
  have parties: "parties K Q db l expected" using assms(1-6) by (simp add: parties_def)
  note script = refused_script [OF parties False, of pid sqls s]
  from talk.talk_bounded [OF script talked] talk.talk_to_the_end [OF script talked]
    refused_in_turn(2) [OF parties False, of pid sqls] refused_in_turn(4) [OF parties False, of s True pid] False
  show ?thesis by (auto simp: near_lines_def)
qed

theorem no_talk_gets_stuck_witness:
  "\<exists>n t. talked
      (near_says reference 7 (lit ''orders'') sample_credentials [lit ''DELETE FROM t''])
      (far_says reference reference_sql (Some sample_credentials) (idle_session []))
      (near_over reference 7 (lit ''orders'') sample_credentials [lit ''DELETE FROM t'']) n t \<and>
    fst (near_run reference 7 (lit ''orders'') sample_credentials [lit ''DELETE FROM t''] (near_heard t)) =
      Inr [Inr \<lparr>qr_columns = [], qr_rows = [], qr_rows_affected = 0\<rparr>] \<and>
    fst (far_run reference reference_sql (Some sample_credentials) (idle_session []) (hung_up t) (far_heard t)) =
      Inr [Executed (lit ''DELETE FROM t'')]"
proof -
  have told: "sample_told = replies reference_sql sample_batches
      (idle_session []\<lparr>ss_login := new_login7 sample_credentials (lit ''orders'')\<rparr>)"
    by (rule sample_facts(3)) (simp add: idle_session_def new_session_def)
  note script = admitted_script [OF sample_parties _ sample_facts(1) told sample_facts(2), of 7]
  from talk.scripted_talk [OF script talked.opens] talk.end_of_script [OF script]
  obtain n t where t: "talked
      (near_says reference 7 (lit ''orders'') sample_credentials sample_batches)
      (far_says reference reference_sql (Some sample_credentials) (idle_session []))
      (near_over reference 7 (lit ''orders'') sample_credentials sample_batches) n t"
    "\<nexists>u. goes_on
      (near_says reference 7 (lit ''orders'') sample_credentials sample_batches)
      (far_says reference reference_sql (Some sample_credentials) (idle_session []))
      (near_over reference 7 (lit ''orders'') sample_credentials sample_batches) t u"
    by blast
  from no_talk_gets_stuck [OF partiesD(1,4-8) [OF sample_parties] sample_facts(1) told sample_facts(2) t(1)] t(2)
  have "fst (near_run reference 7 (lit ''orders'') sample_credentials sample_batches (near_heard t)) =
      Inr (map (answer_result \<circ> fst) sample_told) \<and>
    fst (far_run reference reference_sql (Some sample_credentials) (idle_session []) (hung_up t) (far_heard t)) =
      Inr (map snd sample_told)"
    by auto
  with t(1) show ?thesis
    by (intro exI [of _ n] exI [of _ t])
      (simp add: sample_batches_def sample_told_def answer_result_def)
qed

end
