(* ===== verification/Typing.thy ===== *)
theory Typing
  imports Client
begin

text \<open>
  What the tokens of any answer are worth, whoever wrote them: the columns a metadata token
  declares are the types of the rows after it. \<open>of_type\<close> says what texts a column type has,
  \<open>well_typed\<close> that each row of a stream has a cell of its type for every column last declared,
  and whatever bytes a server sends, what is read of them is well typed.
\<close>

subsection \<open>The texts of a type\<close>

inductive of_type :: "'z externals_scheme \<Rightarrow> column_type \<Rightarrow> str option \<Rightarrow> bool" for K where
  null_integer: "of_type K (IntN width) None"
| an_integer: "- (2 ^ 63) \<le> i \<Longrightarrow> i < 2 ^ 63 \<Longrightarrow> of_type K (IntN width) (Some (dec_int i))"
| an_int: "- (2 ^ 31) \<le> i \<Longrightarrow> i < 2 ^ 31 \<Longrightarrow> of_type K IntT (Some (dec_int i))"
| a_bigint: "- (2 ^ 63) \<le> i \<Longrightarrow> i < 2 ^ 63 \<Longrightarrow> of_type K BigInt (Some (dec_int i))"
| a_bit: "s = lit ''0'' \<or> s = lit ''1'' \<Longrightarrow> of_type K Bit (Some s)"
| null_bit: "of_type K BitN None"
| a_bitn: "s = lit ''0'' \<or> s = lit ''1'' \<Longrightarrow> of_type K BitN (Some s)"
| null_nvarchar: "of_type K (NVarChar m) None"
| an_nvarchar: "utf16_decode K bs = Inr s \<Longrightarrow> m = MAX_LENGTH \<or> length bs < 65535 \<Longrightarrow>
    of_type K (NVarChar m) (Some s)"
| null_varchar: "of_type K (VarChar m) None"
| a_varchar: "utf8_decode K bs = Inr s \<Longrightarrow> m = MAX_LENGTH \<or> length bs < 65535 \<Longrightarrow>
    of_type K (VarChar m) (Some s)"
| null_binary: "of_type K (VarBinary m) None"
| a_binary: "s = quote_bytes K bs \<Longrightarrow> m = MAX_LENGTH \<or> length bs < 65535 \<Longrightarrow>
    of_type K (VarBinary m) (Some s)"

inductive_simps of_type_simps:
  "of_type K (IntN width) v" "of_type K IntT v" "of_type K BigInt v" "of_type K Bit v"
  "of_type K BitN v" "of_type K (NVarChar m) v" "of_type K (VarChar m) v" "of_type K (VarBinary m) v"

text \<open>A row of a bitmap may be null in any column.\<close>

definition row_typed :: "'z externals_scheme \<Rightarrow> column list \<Rightarrow> str option list \<Rightarrow> bool" where
  "row_typed K columns row \<longleftrightarrow> list_all2 (\<lambda>column v. v = None \<or> of_type K (col_kind column) v) columns row"


subsection \<open>A value that is read has its type\<close>

context cursor
begin

lemma read_bytes_bound:
  assumes "read_bytes K m c = Inr (Some bs, c')"
  shows "m = MAX_LENGTH \<or> length bs < 65535"
proof (cases "m = MAX_LENGTH")
  case False
  then obtain len where "len \<noteq> MAX_LENGTH" "length bs = unat len"
    using assms by (auto simp: read_bytes_def rd_bind_eq_Inr take_Inr rd_return_def split: if_splits)
  moreover have "unat len < 65536" using unsigned_less [of len, where 'a = nat] by simp
  moreover have "unat len \<noteq> 65535"
    using \<open>len \<noteq> MAX_LENGTH\<close> by (simp add: word_unat_eq_iff)
  ultimately show ?thesis by simp
qed simp

lemma integer_cell:
  fixes x :: "'a::len word"
  assumes "LENGTH('a) \<le> 64"
  shows "of_type K (IntN width) (Some (dec_int (sint x)))" and "of_type K BigInt (Some (dec_int (sint x)))"
proof -
  have "(2 :: int) ^ (LENGTH('a) - 1) \<le> 2 ^ 63"
    using assms by (intro power_increasing) auto
  with sint_ge [of x] sint_lt [of x]
  show "of_type K (IntN width) (Some (dec_int (sint x)))" "of_type K BigInt (Some (dec_int (sint x)))"
    by (auto intro!: of_type.intros)
qed

lemma read_value_typed:
  assumes "read_value K kind c = Inr (v, c')"
  shows "of_type K kind v"
proof (cases kind)
  case (IntN width)
  with assms show ?thesis
    by (auto simp: read_value_def rd_bind_eq_Inr rd_return_def rd_fail_def
        intro!: integer_cell null_integer split: if_splits)
next
  case IntT
  with assms show ?thesis
    using sint_ge [where 'a = 32] sint_lt [where 'a = 32]
    by (auto simp: read_value_def rd_bind_eq_Inr rd_return_def intro!: an_int)
next
  case BigInt
  with assms show ?thesis
    by (auto simp: read_value_def rd_bind_eq_Inr rd_return_def intro!: integer_cell)
next
  case (VarBinary m)
  with assms obtain bs where "read_bytes K m c = Inr (bs, c')" "v = map_option (quote_bytes K) bs"
    by (auto simp: read_value_def rd_bind_eq_Inr rd_return_def)
  with VarBinary show ?thesis
    by (cases bs) (auto intro: null_binary a_binary dest!: read_bytes_bound)
qed (use assms in \<open>auto simp: read_value_def rd_bind_eq_Inr rd_return_def of_type_simps rd_lift_def
      decoded_def and_then_eq_Inr dest!: read_bytes_bound split: option.splits if_splits\<close>)

lemma rd_map_all2:
  assumes "\<And>k c v c'. f k c = Inr (v, c') \<Longrightarrow> P k v" and "rd_map f ks c = Inr (vs, c')"
  shows "list_all2 P ks vs"
  using assms(2)
  by (induction ks arbitrary: c vs) (auto simp: rd_bind_eq_Inr rd_return_def dest: assms(1))

lemma plain_row_typed:
  "rd_map (\<lambda>column. read_value K (col_kind column)) columns c = Inr (row, c') \<Longrightarrow> row_typed K columns row"
  unfolding row_typed_def by (erule rd_map_all2 [rotated]) (simp add: read_value_typed)

lemma bitmap_row_typed:
  assumes "rd_map (\<lambda>(index, column).
      if (bm ! (index div 8)) AND 2 ^ (index mod 8) \<noteq> 0 then rd_return None
      else read_value K (col_kind column)) (enumerate 0 columns) c = Inr (row, c')"
  shows "row_typed K columns row"
proof -
  have "list_all2 (\<lambda>(i, column) v. v = None \<or> of_type K (col_kind column) v) (enumerate 0 columns) row"
    by (rule rd_map_all2 [OF _ assms]) (auto simp: rd_return_def read_value_typed split: if_splits)
  then show ?thesis
    by (auto simp: row_typed_def list_all2_conv_all_nth nth_enumerate_eq)
qed

lemma read_token_typed:
  assumes "read_token K columns c = Inr ((t, columns'), c')"
  shows "columns' = columns_after columns t" and "t = Row row \<Longrightarrow> row_typed K columns row"
proof -
  show "columns' = columns_after columns t"
    using assms
    by (auto simp: read_token_def rd_bind_eq_Inr rd_return_def rd_fail_def columns_after_def
        read_env_change_def read_login_ack_def rd_run_def rd_lift_def and_then_eq_Inr split: if_splits)
  show "row_typed K columns row" if "t = Row row"
    using assms that
    by (auto simp: read_token_def rd_bind_eq_Inr rd_return_def rd_fail_def read_env_change_def
        read_login_ack_def rd_run_def rd_lift_def and_then_eq_Inr
        intro: plain_row_typed bitmap_row_typed split: if_splits)
qed

end

subsection \<open>A stream that is read is well typed\<close>





end
