(* ===== verification/Tests.thy ===== *)
theory Tests
  imports Client "HOL-Library.Sublist"
begin

text \<open>
  The tests of the message files, each as the conjunction of what it asserts, over any crates that
  do what \<open>bench\<close> says of them. A panic of a test, at a failed \<^verbatim>\<open>expect\<close> as at a
  failed assertion, is the conjunction being false. The tests that open sockets or threads are not
  here; what they drive is in \<open>Conversation\<close>, \<open>Loopback\<close> and \<open>Interleaving\<close>.
\<close>

text \<open>An error's \<open>message\<close>; \<open>retries\<close> below is its \<open>retryable\<close>.\<close>

definition error_text :: "terror \<Rightarrow> str" where
  "error_text e = (case e of
       Permanent s \<Rightarrow> s | Retryable s \<Rightarrow> s | Protocol s \<Rightarrow> s | Classified s _ \<Rightarrow> s | Diverged \<Rightarrow> [])"

definition says :: "string \<Rightarrow> terror + 'a \<Rightarrow> bool" where
  "says s r \<longleftrightarrow> isl r \<and> sublist (lit s) (error_text (projl r))"

text \<open>A slice of bytes as a reader.\<close>

definition bytes_reader :: "byte list \<Rightarrow> reader" where
  "bytes_reader bs = \<lparr>incoming = bs, ending = Closed\<rparr>"

text \<open>
  What the tests take of the crates they call, beside the laws: an unpaired surrogate is no text,
  the cursor says what ran past, an empty literal starts a binary one in lower case, and an error
  made permanent, or of the protocol, is not to be tried again. A message of 1500 bytes is under
  the ceiling.
\<close>

locale bench = crates K
  for K :: "'z externals_scheme" +
  fixes retries :: "terror \<Rightarrow> bool"
  assumes unpaired: "isl (utf16_decode K [0x00, 0xD8])"
    and runs_past: "sublist (lit ''runs past'') (error_text (overrun K n c))"
    and literal_form: "quote_bytes K bs = lit ''0x'' @ concat (map hex_byte bs)"
    and no_literal: "take 2 s \<noteq> lit ''0x'' \<Longrightarrow> bytes_of K s = None"
    and room: "1500 \<le> max_body K"
    and judged: "\<not> retries (Permanent s)" "retries (Retryable s)" "\<not> retries (Protocol s)"

subsection \<open>\<^verbatim>\<open>wire.rs\<close>\<close>

definition a_message_splits_into_packets_and_reads_back_whole :: "'z externals_scheme \<Rightarrow> bool" where
  "a_message_splits_into_packets_and_reads_back_whole K \<longleftrightarrow>
     (let payload = map (\<lambda>n. of_nat (n mod 251)) [0..<1500];
          bytes = packets K SQL_BATCH payload MIN_PACKET_SIZE in
       length bytes = length payload + 3 * HEADER_LENGTH \<and>
       take 4 bytes = [SQL_BATCH, 0, 0x02, 0x00] \<and>
       bytes ! 6 = 0 \<and>
       bytes ! (512 + 6) = 1 \<and>
       fst (read_message K (bytes_reader bytes)) = Inr (Some (SQL_BATCH, payload)) \<and>
       (let empty = packets K PRELOGIN [] DEFAULT_PACKET_SIZE in
         empty = [PRELOGIN, END_OF_MESSAGE, 0, 8, 0, 0, 0, 0] \<and>
         fst (read_message K (bytes_reader empty)) = Inr (Some (PRELOGIN, [])) \<and>
         fst (read_message K (bytes_reader [])) = Inr None))"

definition what_is_not_a_message_is_refused :: "(terror \<Rightarrow> bool) \<Rightarrow> 'z externals_scheme \<Rightarrow> bool" where
  "what_is_not_a_message_is_refused retries K \<longleftrightarrow>
     isl (fst (read_message K (bytes_reader [0x01, 0x01, 0, 4, 0, 0, 0, 0]))) \<and>
     isl (fst (read_message K (bytes_reader [0x01, 0x01, 0, 12, 0, 0, 0, 0, 1]))) \<and>
     (let two = packet K SQL_BATCH 0 (as_bytes (lit ''a'')) 0
            @ packet K LOGIN7 END_OF_MESSAGE (as_bytes (lit ''b'')) 1 in
       isl (fst (read_message K (bytes_reader two)))) \<and>
     (let open = packet K SQL_BATCH 0 (as_bytes (lit ''a'')) 0 in
       isl (fst (read_message K (bytes_reader open)))) \<and>
     (let error = fst (read_message K (bytes_reader
            (as_bytes (lit ''HTTP/1.1 400 Bad Request'' @ [13, 10, 13, 10])))) in
       says ''0x48'' error \<and> \<not> retries (projl error)) \<and>
     isl (fst (read_message K (bytes_reader [0x04, 0x01, 0x80, 0x01, 0, 0, 0, 0])))"

definition text_and_counted_strings_round_trip :: "'z externals_scheme \<Rightarrow> bool" where
  "text_and_counted_strings_round_trip K \<longleftrightarrow>
     (let body = put_u64_le K (put_i32_le K (put_u16_be K (put_u16_le K
            (write_us_varchar K (write_b_varchar K [] (lit ''id'')) (lit ''payload'')) 7) 7) (- 3)) 9 in
       (case rd_bind (read_b_varchar K) (\<lambda>b. rd_bind (read_us_varchar K) (\<lambda>us.
             rd_bind (cur_u16_le K) (\<lambda>le. rd_bind (cur_u16_be K) (\<lambda>be.
             rd_bind (cur_i32_le K) (\<lambda>i. rd_bind (cur_u64_le K) (\<lambda>u.
               rd_return (b, us, le, be, i, u))))))) body of
          Inl _ \<Rightarrow> False
        | Inr (read, rest) \<Rightarrow>
            read = (lit ''id'', lit ''payload'', 7, 7, - 3, 9) \<and> rest = [] \<and>
            says ''runs past'' (cur_byte K rest))) \<and>
     (let body = write_b_varchar K [] (replicate 300 120) in
       body ! 0 = 255 \<and> length body = 1 + 255 * 2)"

subsection \<open>\<^verbatim>\<open>batch.rs\<close>\<close>

definition a_batch_round_trips_behind_its_headers :: "'z externals_scheme \<Rightarrow> bool" where
  "a_batch_round_trips_behind_its_headers K \<longleftrightarrow>
     (let bytes = encode_batch K (lit ''SELECT 1'') in
       take 4 bytes = [22, 0, 0, 0] \<and>
       take 2 (drop 8 bytes) = [2, 0] \<and>
       length bytes = 22 + 16 \<and>
       read_batch K bytes = Inr (lit ''SELECT 1'') \<and>
       read_batch K (encode_batch K []) = Inr [])"

definition headers_that_are_not_headers_are_refused :: "'z externals_scheme \<Rightarrow> bool" where
  "headers_that_are_not_headers_are_refused K \<longleftrightarrow>
     isl (read_batch K [2, 0, 0, 0]) \<and>
     isl (read_batch K [40, 0, 0, 0, 0, 0]) \<and>
     isl (read_batch K [0, 0]) \<and>
     (let unpaired = encode_batch K [] @ [0x00, 0xD8] in isl (read_batch K unpaired))"

subsection \<open>\<^verbatim>\<open>prelogin.rs\<close>\<close>

definition a_prelogin_round_trips_and_its_table_is_where_the_spec_puts_it :: "'z externals_scheme \<Rightarrow> bool" where
  "a_prelogin_round_trips_and_its_table_is_where_the_spec_puts_it K \<longleftrightarrow>
     (let p = \<lparr>pl_version = [16, 0, 4, 0, 0, 1], pl_encryption = ENCRYPT_REQ,
            pl_instance = lit ''SQLEXPRESS'', pl_thread_id = 0x1234, pl_mars = True\<rparr>;
          bytes = encode_prelogin p in
       take 5 bytes = [VERSION, 0, 26, 0, 6] \<and>
       bytes ! 25 = TERMINATOR \<and>
       read_prelogin K bytes = Inr p \<and>
       (let plain = encode_prelogin default_prelogin in
         (case read_prelogin K plain of
            Inl _ \<Rightarrow> False
          | Inr r \<Rightarrow> pl_encryption r = ENCRYPT_NOT_SUP \<and> pl_instance r = [] \<and> \<not> pl_mars r)))"

definition what_is_missing_is_defaulted_and_what_is_wrong_is_refused :: "'z externals_scheme \<Rightarrow> bool" where
  "what_is_missing_is_defaulted_and_what_is_wrong_is_refused K \<longleftrightarrow>
     (let server = [ENCRYPTION, 0, 11, 0, 1, THREADID, 0, 12, 0, 0, TERMINATOR, ENCRYPT_OFF] in
       (case read_prelogin K server of
          Inl _ \<Rightarrow> False
        | Inr r \<Rightarrow> pl_encryption r = ENCRYPT_OFF \<and> pl_thread_id r = 0)) \<and>
     isl (read_prelogin K [VERSION, 0, 6, 0, 6]) \<and>
     isl (read_prelogin K [VERSION, 0, 6, 0, 60, TERMINATOR]) \<and>
     isl (read_prelogin K [ENCRYPTION, 0, 6, 0, 0, TERMINATOR])"

subsection \<open>\<^verbatim>\<open>login.rs\<close>\<close>

definition a_password_is_obscured_the_way_the_spec_draws_it :: bool where
  "a_password_is_obscured_the_way_the_spec_draws_it \<longleftrightarrow>
     obscure (as_bytes (lit ''a'')) = [0xB3] \<and>
     (let secret = map of_nat [0..<256] in reveal (obscure secret) = secret) \<and>
     obscure (as_bytes (lit ''secret'')) \<noteq> as_bytes (lit ''secret'')"

definition a_login_round_trips_with_its_table_where_the_spec_puts_it ::
    "32 word \<Rightarrow> 'z externals_scheme \<Rightarrow> bool" where
  "a_login_round_trips_with_its_table_where_the_spec_puts_it pid K \<longleftrightarrow>
     (let l = \<lparr>
            l7_login = \<lparr>login_user = lit ''xmip'', login_password = lit (''sec'' @ [CHR 39] @ ''ret'')\<rparr>,
            l7_database = lit ''orders'', l7_hostname = lit ''node-1'', l7_app_name = lit ''playground'',
            l7_server_name = lit ''db.example'', l7_library = lit ''xmip-core-transport-mssql'',
            l7_language = lit ''us_english'', l7_packet_size = 8000\<rparr>;
          bytes = encode_login7 K pid l in
       take 4 (drop 4 bytes) = [0x04, 0x00, 0x00, 0x74] \<and>
       take 2 (drop 36 bytes) = [94, 0] \<and>
       length bytes = 94 + 2 * (6 + 4 + 7 + 10 + 10 + 25 + 10 + 6) \<and>
       read_login7 K bytes = Inr l \<and>
       (let plain = encode_login7 K pid
              (new_login7 \<lparr>login_user = lit ''xmip'', login_password = []\<rparr> (lit ''orders'')) in
         (case read_login7 K plain of
            Inl _ \<Rightarrow> False
          | Inr read \<Rightarrow>
              login_user (l7_login read) = lit ''xmip'' \<and> login_password (l7_login read) = [] \<and>
              l7_hostname read = lit ''xmip'' \<and> l7_packet_size read = 4096)))"

definition what_is_not_a_login_is_refused :: "32 word \<Rightarrow> 'z externals_scheme \<Rightarrow> bool" where
  "what_is_not_a_login_is_refused pid K \<longleftrightarrow>
     (let old = encode_login7 K pid
            (new_login7 \<lparr>login_user = lit ''x'', login_password = lit ''y''\<rparr> (lit ''z'')) in
       isl (read_login7 K (old[7 := 0x71]))) \<and>
     isl (read_login7 K (replicate 40 0)) \<and>
     (let wild = encode_login7 K pid
            (new_login7 \<lparr>login_user = lit ''x'', login_password = lit ''y''\<rparr> (lit ''z'')) in
       isl (read_login7 K (wild[40 := 0xFF])))"

subsection \<open>\<^verbatim>\<open>column.rs\<close>\<close>

text \<open>The helper \<open>round_trip\<close>; \<open>None\<close> is its panic.\<close>

definition round_trip :: "'z externals_scheme \<Rightarrow> column_type \<Rightarrow> str option \<Rightarrow> str option option" where
  "round_trip K kind value =
     (let out = write_type_info [] kind; out = write_value K out kind value in
      case read_type_info K out of
        Inl _ \<Rightarrow> None
      | Inr (t, c) \<Rightarrow>
          if t \<noteq> kind then None
          else (case read_value K kind c of
              Inl _ \<Rightarrow> None
            | Inr (read, c) \<Rightarrow> if c = [] then Some read else None))"

definition every_type_round_trips_with_its_null :: "'z externals_scheme \<Rightarrow> bool" where
  "every_type_round_trips_with_its_null K \<longleftrightarrow>
     round_trip K (IntN 4) (Some (lit ''41'')) = Some (Some (lit ''41'')) \<and>
     round_trip K (IntN 8) (Some (lit ''-9'')) = Some (Some (lit ''-9'')) \<and>
     round_trip K (IntN 2) (Some (lit ''-2'')) = Some (Some (lit ''-2'')) \<and>
     round_trip K (IntN 1) (Some (lit ''7'')) = Some (Some (lit ''7'')) \<and>
     round_trip K (IntN 4) None = Some None \<and>
     round_trip K IntT (Some (lit ''3'')) = Some (Some (lit ''3'')) \<and>
     round_trip K BigInt None = Some (Some (lit ''0'')) \<and>
     round_trip K Bit (Some (lit ''true'')) = Some (Some (lit ''1'')) \<and>
     round_trip K BitN (Some (lit ''0'')) = Some (Some (lit ''0'')) \<and>
     round_trip K BitN None = Some None \<and>
     round_trip K (NVarChar MAX_LENGTH) (Some [114, 228, 107]) = Some (Some [114, 228, 107]) \<and>
     round_trip K (NVarChar MAX_LENGTH) (Some []) = Some (Some []) \<and>
     round_trip K (NVarChar MAX_LENGTH) None = Some None \<and>
     round_trip K (NVarChar 80) (Some (lit ''short'')) = Some (Some (lit ''short'')) \<and>
     round_trip K (NVarChar 80) None = Some None \<and>
     round_trip K (VarChar MAX_LENGTH) (Some (lit ''ISA*00*'')) = Some (Some (lit ''ISA*00*'')) \<and>
     round_trip K (VarChar 10) (Some (lit ''x'')) = Some (Some (lit ''x'')) \<and>
     round_trip K (VarBinary MAX_LENGTH) (Some (lit ''0xfffe'')) = Some (Some (lit ''0xfffe'')) \<and>
     round_trip K (VarBinary 8) (Some (lit ''0x00'')) = Some (Some (lit ''0x00'')) \<and>
     round_trip K (VarBinary 8) None = Some None \<and>
     round_trip K (VarBinary MAX_LENGTH) (Some (lit ''ab'')) = Some (Some (lit ''0x6162'')) \<and>
     (let long = replicate 70000 121 in round_trip K (VarChar MAX_LENGTH) (Some long) = Some (Some long))"

definition what_this_crate_does_not_read_is_refused_by_name :: "'z externals_scheme \<Rightarrow> bool" where
  "what_this_crate_does_not_read_is_refused_by_name K \<longleftrightarrow>
     says ''0x2a'' (read_type_info K [0x2A, 7]) \<and>
     isl (read_value K (IntN 3) [3, 0, 0, 0]) \<and>
     (let plp = le_bytes 8 (5 :: 64 word) @ le_bytes 4 (2 :: 32 word) @ as_bytes (lit ''ab'')
            @ le_bytes 4 (0 :: 32 word) in
       isl (read_plp K plp) \<and>
       (case read_plp K (le_bytes 8 PLP_UNKNOWN @ drop 8 plp) of
          Inl _ \<Rightarrow> False
        | Inr (v, _) \<Rightarrow> v = Some (as_bytes (lit ''ab'')))) \<and>
     isl (read_plp K [1, 0, 0, 0, 0, 0, 0, 0, 5, 0, 0, 0, 97])"

subsection \<open>\<^verbatim>\<open>token.rs\<close>\<close>

definition DONE_MORE :: "16 word" where [simp]: "DONE_MORE = 0x0001"

text \<open>The loop that collects the tokens, with the columns the stream ends with.\<close>

definition collect_round ::
    "'z externals_scheme \<Rightarrow> column list \<times> token list
       \<Rightarrow> ((column list \<times> token list) + (column list \<times> token list)) rd" where
  "collect_round K = (\<lambda>(columns, read) c.
     and_then (next_token K \<lparr>ts_cursor = c, ts_columns = columns\<rparr>) (\<lambda>(t, stream).
       case t of
         None \<Rightarrow> leave (stream_columns stream, read) (ts_cursor stream)
       | Some t \<Rightarrow> go_on (stream_columns stream, read @ [t]) (ts_cursor stream)))"

definition every_token_round_trips :: "'z externals_scheme \<Rightarrow> bool" where
  "every_token_round_trips K \<longleftrightarrow>
     (let tokens = [
            EnvChange ENV_DATABASE (lit ''orders'') (lit ''master''),
            Info (new_message 5701 0
              (lit (''Changed database context to '' @ [CHR 39] @ ''orders'' @ [CHR 39] @ ''.''))),
            LoginAck 0x74000004 (lit ''Microsoft SQL Server''),
            ColMetadata [
              new_column (lit ''id'') (IntN 4),
              text_column (lit ''payload''),
              new_column (lit ''raw'') (VarBinary MAX_LENGTH),
              new_column (lit ''flag'') BitN],
            Row [Some (lit ''41''), Some (lit ''ISA*00*''), None, Some (lit ''1'')],
            Row [None, None, Some (lit ''0xfffe''), None],
            Order [1],
            DoneInProc (DONE_COUNT OR DONE_MORE) 2,
            ReturnStatus (- 1),
            DoneProc DONE_MORE 0,
            Error (new_message 18456 14
              (lit (''Login failed for user '' @ [CHR 39] @ ''xmip'' @ [CHR 39] @ ''.''))),
            Done DONE_ERROR 0];
          bytes = encode_tokens K tokens in
       (case rd_loop (collect_round K) ([], []) bytes of
          Inl _ \<Rightarrow> False
        | Inr ((columns, read), _) \<Rightarrow> read = tokens \<and> length columns = 4))"

definition a_null_bitmap_row_reads_by_its_columns :: "'z externals_scheme \<Rightarrow> bool" where
  "a_null_bitmap_row_reads_by_its_columns K \<longleftrightarrow>
     (let bytes = encode_tokens K
            [ColMetadata [new_column (lit ''id'') IntT, text_column (lit ''payload'')]];
          bytes = bytes @ [NBCROW] @ [0b10] @ le_bytes 4 (7 :: 32 word) in
       (case next_token K (new_stream bytes) of
          Inl _ \<Rightarrow> False
        | Inr (_, stream) \<Rightarrow>
            (case next_token K stream of
               Inl _ \<Rightarrow> False
             | Inr (t, stream) \<Rightarrow>
                 t = Some (Row [Some (lit ''7''), None]) \<and>
                 (case next_token K stream of Inl _ \<Rightarrow> False | Inr (t, _) \<Rightarrow> t = None))))"

definition what_is_not_a_token_is_refused :: "'z externals_scheme \<Rightarrow> bool" where
  "what_is_not_a_token_is_refused K \<longleftrightarrow>
     isl (next_token K (new_stream [0x00])) \<and>
     isl (next_token K (new_stream [ERROR, 40, 0, 1])) \<and>
     isl (next_token K (new_stream [DONE, 0, 0])) \<and>
     (let empty = encode_tokens K [ColMetadata []] in
       drop 1 empty = [0xFF, 0xFF] \<and>
       (case next_token K (new_stream empty) of
          Inl _ \<Rightarrow> False
        | Inr (t, _) \<Rightarrow> t = Some (ColMetadata [])))"

subsection \<open>\<^verbatim>\<open>client.rs\<close>\<close>

definition an_error_is_judged_by_its_number :: "(terror \<Rightarrow> bool) \<Rightarrow> bool" where
  "an_error_is_judged_by_its_number retries \<longleftrightarrow>
     retries (sql_error (new_message 1205 13 (lit ''deadlock victim''))) \<and>
     retries (sql_error (new_message (- 2) 11 (lit ''timeout''))) \<and>
     retries (sql_error (new_message 40613 20 (lit ''database not available''))) \<and>
     \<not> retries (sql_error (new_message 18456 14 (lit ''Login failed''))) \<and>
     \<not> retries (sql_error (new_message 208 16 (lit ''Invalid object name'')))"

text \<open>
  What the far end's thread writes on one connection is what comes in there; \<open>connect\<close> is the
  test's closure. The fourth connection is first agreed with.
\<close>

definition a_server_that_requires_encryption_or_speaks_nonsense_is_refused ::
    "(terror \<Rightarrow> bool) \<Rightarrow> 32 word \<Rightarrow> 'z externals_scheme \<Rightarrow> bool" where
  "a_server_that_requires_encryption_or_speaks_nonsense_is_refused retries pid K \<longleftrightarrow>
     (let demand = encode_prelogin (default_prelogin\<lparr>pl_encryption := ENCRYPT_REQ\<rparr>);
          no_ack = encode_tokens K [Done 0 0];
          agreed = encode_prelogin default_prelogin;
          connect = (\<lambda>answer. connect K pid (Inr (bytes_reader answer, quiet_writer)) (lit ''orders'')
            \<lparr>login_user = lit ''xmip'', login_password = []\<rparr>) in
       (let error = connect (packets K TABULAR_RESULT demand DEFAULT_PACKET_SIZE) in
         isl error \<and> \<not> retries (projl error) \<and> says ''ADR-0033'' error) \<and>
       says ''0x01'' (connect (packets K SQL_BATCH demand DEFAULT_PACKET_SIZE)) \<and>
       (let error = connect (as_bytes (lit ''HTTP/1.1 400 Bad Request'' @ [13, 10, 13, 10])) in
         isl error \<and> \<not> retries (projl error)) \<and>
       says ''acknowledge'' (connect (packets K TABULAR_RESULT agreed DEFAULT_PACKET_SIZE
         @ packets K TABULAR_RESULT no_ack DEFAULT_PACKET_SIZE)))"

context bench
begin

lemma empty_text: "utf16_encode K [] = []"
  using utf16_length [of "[]"] by simp

lemma batch_tests:
  "a_batch_round_trips_behind_its_headers K" "headers_that_are_not_headers_are_refused K"
proof -
  have "read_batch K (encode_batch K s) = Inr s" if "is_str s" for s
    using batch_reads_back [OF codec_axioms that] .
  then show "a_batch_round_trips_behind_its_headers K"
    by (simp add: a_batch_round_trips_behind_its_headers_def Let_def)
      (simp add: encode_batch_def utf16_length le_bytes_expand)
  have "cur_skip K 18 (le_bytes 4 (18 :: 32 word) @ le_bytes 2 (2 :: 16 word)
      @ le_bytes 8 (0 :: 64 word) @ le_bytes 4 (1 :: 32 word) @ c) = Inr ((), c)" for c
    using skip_append [of "le_bytes 4 (18 :: 32 word) @ le_bytes 2 (2 :: 16 word)
      @ le_bytes 8 (0 :: 64 word) @ le_bytes 4 (1 :: 32 word)" 18 c] by simp
  then have "read_batch K (encode_batch K [] @ [0x00, 0xD8]) = utf16_decode K [0x00, 0xD8]"
    by (simp add: read_batch_def encode_batch_def empty_text rd_simps)
  with unpaired show "headers_that_are_not_headers_are_refused K"
    by (simp add: headers_that_are_not_headers_are_refused_def) (simp add: read_batch_def cursor_laws)
qed

lemma client_test: "an_error_is_judged_by_its_number retries"
  by (simp add: an_error_is_judged_by_its_number_def sql_error_def new_message_def judged Let_def)

lemma prelogin_tests:
  "a_prelogin_round_trips_and_its_table_is_where_the_spec_puts_it K"
  "what_is_missing_is_defaulted_and_what_is_wrong_is_refused K"
proof -
  define p where "p = \<lparr>pl_version = [16, 0, 4, 0, 0, 1], pl_encryption = ENCRYPT_REQ,
    pl_instance = lit ''SQLEXPRESS'', pl_thread_id = 0x1234, pl_mars = True\<rparr>"
  have p: "length (pl_version p) = 6" "is_str (pl_instance p)" "0 \<notin> set (pl_instance p)"
    "length (as_bytes (pl_instance p)) = 10"
    by (simp_all add: p_def lit_def as_bytes_def utf8_char_def is_scalar_def)
  have "take 5 (encode_prelogin p) = [VERSION, 0, 26, 0, 6]" "encode_prelogin p ! 25 = TERMINATOR"
    using p by (simp_all add: encode_prelogin_bytes entry_bytes_def be_bytes_def le_bytes_expand)
  moreover have "read_prelogin K (encode_prelogin p) = Inr p"
    using p by (intro prelogin_reads_back cursor_axioms) simp_all
  moreover have "read_prelogin K (encode_prelogin default_prelogin) = Inr default_prelogin"
    by (rule prelogin_reads_back [OF cursor_axioms]) (simp_all add: default_prelogin_def as_bytes_def)
  ultimately show "a_prelogin_round_trips_and_its_table_is_where_the_spec_puts_it K"
    unfolding a_prelogin_round_trips_and_its_table_is_where_the_spec_puts_it_def p_def [symmetric] Let_def
    by (simp add: default_prelogin_def)
  show "what_is_missing_is_defaulted_and_what_is_wrong_is_refused K"
  proof -
    let ?server = "[ENCRYPTION, 0, 11, 0, 1, THREADID, 0, 12, 0, 0, TERMINATOR, ENCRYPT_OFF]"
    have "read_prelogin K ?server = apply_options ?server [(ENCRYPTION, 11, 1), (THREADID, 12, 0)] default_prelogin"
      by (rule read_prelogin_of_table [OF cursor_axioms, where payload = "[ENCRYPT_OFF]"])
        (simp_all add: entry_bytes_def be_bytes_def le_bytes_expand)
    moreover have broken: "isl (read_prelogin K body)"
      if "body = entry_bytes (t, off, len) @ c" and "t \<noteq> TERMINATOR"
        and "isl (apply_options body [(t, off, len)] default_prelogin)" for body t off len c
    proof -
      have "isl (prelogin_round K body default_prelogin body)"
        using prelogin_round_entry [OF that(2), of body default_prelogin off len c] that(1,3)
        by (auto simp: and_then_def split: option.splits sum.splits)
      then obtain e where "prelogin_round K body default_prelogin body = Inl e" by (auto simp: isl_def)
      then show ?thesis by (simp add: read_prelogin_def prelogin_loop.loop_fails)
    qed
    have "isl (read_prelogin K [VERSION, 0, 6, 0, 6])"
      "isl (read_prelogin K [VERSION, 0, 6, 0, 60, TERMINATOR])"
      "isl (read_prelogin K [ENCRYPTION, 0, 6, 0, 0, TERMINATOR])"
      by (rule broken [of _ VERSION 6 6 "[]"] broken [of _ VERSION 6 60 "[TERMINATOR]"]
          broken [of _ ENCRYPTION 6 0 "[TERMINATOR]"];
          simp add: entry_bytes_def be_bytes_def le_bytes_expand slice_get_def set_option_def)+
    ultimately show ?thesis
      by (simp add: what_is_missing_is_defaulted_and_what_is_wrong_is_refused_def slice_get_def
          set_option_def default_prelogin_def)
  qed
qed

lemma wire_tests:
  "a_message_splits_into_packets_and_reads_back_whole K" "what_is_not_a_message_is_refused retries K"
  "text_and_counted_strings_round_trip K"
proof -
  have three: "packets K SQL_BATCH p MIN_PACKET_SIZE =
      packet K SQL_BATCH 0 (take 504 p) 0 @ packet K SQL_BATCH 0 (take 504 (drop 504 p)) 1
        @ packet K SQL_BATCH END_OF_MESSAGE (drop 1008 p) 2" if "length p = 1500" for p
  proof -
    have "chunks 504 p = [take 504 p, take 504 (drop 504 p), drop 1008 p]"
      using that by (simp add: chunks_rec flip: length_greater_0_conv)
    moreover have "p \<noteq> []" using that by auto
    ultimately show ?thesis
      by (simp add: packets_def clamp_size_def fits_or_def)
  qed
  define p where "p = map (\<lambda>n. of_nat (n mod 251) :: byte) [0..<1500]"
  have p: "length p = 1500" by (simp add: p_def)
  show "a_message_splits_into_packets_and_reads_back_whole K"
  proof -
    have "fst (read_message K (bytes_reader (packets K SQL_BATCH p MIN_PACKET_SIZE))) = Inr (Some (SQL_BATCH, p))"
      "fst (read_message K (bytes_reader (packets K PRELOGIN [] DEFAULT_PACKET_SIZE))) = Inr (Some (PRELOGIN, []))"
      using packets_read_back [OF byte_writer_axioms body_ceiling_axioms, of SQL_BATCH p MIN_PACKET_SIZE "[]" Closed]
        packets_read_back [OF byte_writer_axioms body_ceiling_axioms, of PRELOGIN "[]" DEFAULT_PACKET_SIZE "[]" Closed]
        p room by (simp_all add: bytes_reader_def is_packet_type_def)
    moreover have "length (packets K SQL_BATCH p MIN_PACKET_SIZE) = length p + 3 * HEADER_LENGTH"
      "take 4 (packets K SQL_BATCH p MIN_PACKET_SIZE) = [SQL_BATCH, 0, 0x02, 0x00]"
      "packets K SQL_BATCH p MIN_PACKET_SIZE ! 6 = 0" "packets K SQL_BATCH p MIN_PACKET_SIZE ! (512 + 6) = 1"
      unfolding three [OF p]
      by (simp_all add: packet_bytes p be_bytes_def le_bytes_expand fits_or_def nth_append)
    moreover have "packets K PRELOGIN [] DEFAULT_PACKET_SIZE = [PRELOGIN, END_OF_MESSAGE, 0, 8, 0, 0, 0, 0]"
      by (simp add: packets_def clamp_size_def packet_bytes be_bytes_def le_bytes_expand fits_or_def)
    moreover have "fst (read_message K (bytes_reader [])) = Inr None"
      by (simp add: bytes_reader_def read_message_def read_packets.simps [of K] read1_def)
    ultimately show ?thesis
      unfolding a_message_splits_into_packets_and_reads_back_whole_def p_def [symmetric] Let_def
      by blast
  qed
  have a: "as_bytes (lit ''a'') = [97]" "as_bytes (lit ''b'') = [98]"
    by (simp_all add: lit_def as_bytes_def utf8_char_def)
  have http: "as_bytes (lit ''HTTP/1.1 400 Bad Request'' @ [13, 10, 13, 10]) =
      0x48 # 0x54 # 0x54 # 0x50 # 0x2F # 0x31 # 0x2E # 0x31 # as_bytes (lit '' 400 Bad Request'' @ [13, 10, 13, 10])"
    by (simp add: lit_def as_bytes_def utf8_char_def)
  have within: "within_ceiling K n (max_body K) (lit ''Xmip reads in one message'') = Inr ()" if "n \<le> 8" for n
    using that room by (simp add: within_law)
  have named: "sublist (lit ''0x48'') (lit ''0x'' @ hex_byte 0x48 @ s)" for s
  proof -
    have "lit ''0x48'' = lit ''0x'' @ hex_byte 0x48" by (simp add: lit_def hex_byte_def hex_digit_def)
    then show ?thesis by (metis append.assoc prefix_imp_sublist prefixI)
  qed
  show "what_is_not_a_message_is_refused retries K"
    unfolding what_is_not_a_message_is_refused_def Let_def a http
    by (intro conjI) (simp_all add: named bytes_reader_def read_message_def read_packets.simps [of K] read1_def read_exact_def
      is_packet_type_def packet_bytes be_bytes_def le_bytes_expand fits_or_def of_be_def within says_def error_text_def
      hex04_def judged)
  show "text_and_counted_strings_round_trip K"
  proof -
    have "utf16_units (replicate 300 120) = 300" by (simp add: utf16_units_def sum_list_replicate)
    then have "write_b_varchar K [] (replicate 300 120) ! 0 = 255"
      "length (write_b_varchar K [] (replicate 300 120)) = 1 + 255 * 2"
      by (simp_all add: b_varchar_bytes length_counted)
    moreover have "put_u64_le K (put_i32_le K (put_u16_be K (put_u16_le K
        (write_us_varchar K (write_b_varchar K [] (lit ''id'')) (lit ''payload'')) 7) 7) (- 3)) 9 =
      write_b_varchar K [] (lit ''id'') @ write_us_varchar K [] (lit ''payload'') @
        le_bytes 2 (7 :: 16 word) @ be_bytes 2 (7 :: 16 word) @ le_bytes 4 (- 3 :: 32 word) @ le_bytes 8 (9 :: 64 word) @ []"
      by (simp only: wr_simps us_varchar_bytes append_assoc append_Nil append_Nil2)
    moreover have "cur_u64_le K (le_bytes 8 (9 :: 64 word)) = Inr (9, [])"
      using words_append(6) [of 9 "[]"] by simp
    moreover have "says ''runs past'' (cur_byte K [])"
      using runs_past by (simp add: says_def byte_law)
    ultimately show ?thesis
      unfolding text_and_counted_strings_round_trip_def Let_def
      by (simp add: rd_simps b_varchar_round us_varchar_round)
  qed
qed

lemma login_tests:
  "a_password_is_obscured_the_way_the_spec_draws_it"
  "a_login_round_trips_with_its_table_where_the_spec_puts_it pid K"
  "what_is_not_a_login_is_refused pid K"
proof -
  have rotl: "word_rotl 4 (0x61 :: byte) = 0x16" "word_rotl 4 (0x73 :: byte) = 0x37" by code_simp+
  show "a_password_is_obscured_the_way_the_spec_draws_it"
    by (simp add: a_password_is_obscured_the_way_the_spec_draws_it_def)
      (simp add: obscure_def lit_def as_bytes_def utf8_char_def rotl)
  have body: "\<exists>len rest. encode_login7 K pid l =
      login_message len (l7_packet_size l) pid (login_fields K l) rest
      \<and> length (encode_login7 K pid l) = 94 + 2 * sum_list (map utf16_units (login_strings l))" for l
    using encode_login7_message [of K pid l]
    by (auto simp: login_message_def login_fields_def login_strings_def utf16_length)
  let ?new = "\<lambda>u p d. new_login7 \<lparr>login_user = lit u, login_password = lit p\<rparr> (lit d)"
  have strings: "login_strings (new_login7 l d) = [lit ''xmip'', login_user l, login_password l,
      lit ''xmip'', [], lit ''xmip-core-transport-mssql'', [], d]" for l d
    by (simp add: login_strings_def new_login7_def)
  show "a_login_round_trips_with_its_table_where_the_spec_puts_it pid K"
  proof -
    define l where "l = \<lparr>
      l7_login = \<lparr>login_user = lit ''xmip'', login_password = lit (''sec'' @ [CHR 39] @ ''ret'')\<rparr>,
      l7_database = lit ''orders'', l7_hostname = lit ''node-1'', l7_app_name = lit ''playground'',
      l7_server_name = lit ''db.example'', l7_library = lit ''xmip-core-transport-mssql'',
      l7_language = lit ''us_english'', l7_packet_size = 8000\<rparr>"
    have units: "sum_list (map utf16_units (login_strings l)) = 6 + 4 + 7 + 10 + 10 + 25 + 10 + 6"
      by (simp add: l_def login_strings_def lit_def utf16_units_def)
    moreover have "list_all is_str (login_strings l)"
      by (simp add: l_def login_strings_def lit_def is_scalar_def)
    ultimately have "read_login7 K (encode_login7 K pid l) = Inr l"
      by (intro login_reads_back) (simp add: login_fits_def)
    moreover have "read_login7 K (encode_login7 K pid (new_login7
          \<lparr>login_user = lit ''xmip'', login_password = []\<rparr> (lit ''orders''))) =
        Inr (new_login7 \<lparr>login_user = lit ''xmip'', login_password = []\<rparr> (lit ''orders''))"
      by (rule login_reads_back)
        (simp add: login_fits_def strings lit_def utf16_units_def is_scalar_def)
    moreover obtain len rest where "encode_login7 K pid l =
        login_message len (l7_packet_size l) pid (login_fields K l) rest"
      "length (encode_login7 K pid l) = 94 + 2 * (6 + 4 + 7 + 10 + 10 + 25 + 10 + 6)"
      using body [of l] unfolding units by blast
    moreover from this(1) have "take 4 (drop 4 (encode_login7 K pid l)) = [0x04, 0x00, 0x00, 0x74]"
      "take 2 (drop 36 (encode_login7 K pid l)) = [94, 0]"
      by (simp_all add: login_message_def login_fields_def le_bytes_expand fits_or_def)
    ultimately show ?thesis
      unfolding a_login_round_trips_with_its_table_where_the_spec_puts_it_def l_def [symmetric] Let_def
      by (simp add: new_login7_def)
  qed
  show "what_is_not_a_login_is_refused pid K"
  proof -
    obtain len rest where it: "encode_login7 K pid (?new ''x'' ''y'' ''z'') =
        login_message len 4096 pid (login_fields K (?new ''x'' ''y'' ''z'')) rest"
      "length (encode_login7 K pid (?new ''x'' ''y'' ''z'')) = 166"
      using body [of "?new ''x'' ''y'' ''z''"]
      by (auto simp: strings) (simp add: new_login7_def lit_def utf16_units_def)
    have "(le_bytes 4 len @ le_bytes 4 TDS_7_4 @ c)[7 := 0x71] =
        le_bytes 4 len @ le_bytes 4 (0x71000004 :: 32 word) @ c" for c
      by (simp add: le_bytes_expand)
    then have "isl (read_login7 K ((encode_login7 K pid (?new ''x'' ''y'' ''z''))[7 := 0x71]))"
      by (simp add: it login_message_def login_version_refused [OF cursor_axioms])
    moreover have "replicate 40 0 = le_bytes 4 (0 :: 32 word) @ le_bytes 4 (0 :: 32 word) @ replicate 32 0"
      by (simp add: le_bytes_expand numeral_eq_Suc)
    then have "isl (read_login7 K (replicate 40 0))"
      by (simp add: login_version_refused [OF cursor_axioms])
    moreover have "isl (read_login7 K ((encode_login7 K pid (?new ''x'' ''y'' ''z''))[40 := 0xFF]))"
    proof -
      define as where "as = le_bytes 4 (0 :: 32 word) @ le_bytes 4 pid @ le_bytes 4 (0 :: 32 word)"
      define bs :: "byte list" where "bs = [0xE0, 0x02, 0x00, 0x00]"
      define cs where "cs = le_bytes 4 (0 :: 32 word) @ le_bytes 4 (0 :: 32 word)"
      define wild where "wild = (encode_login7 K pid (?new ''x'' ''y'' ''z''))[40 := 0xFF]"
      have "length as = 12" "length bs = 4" "length cs = 8" by (simp_all add: as_def bs_def cs_def)
      note skips = this [THEN skip_append]
      have "\<exists>c. wild = le_bytes 4 len @ le_bytes 4 TDS_7_4 @ le_bytes 4 (4096 :: 32 word) @ as @ bs @ cs
          @ le_bytes 2 (94 :: 16 word) @ le_bytes 2 (4 :: 16 word)
          @ le_bytes 2 (255 :: 16 word) @ le_bytes 2 (1 :: 16 word) @ c"
        unfolding wild_def it(1)
        by (simp add: login_message_def login_fields_def as_def bs_def cs_def
            le_bytes_expand fits_or_def new_login7_def utf16_length lit_def utf16_units_def)
      then obtain c where c: "wild = le_bytes 4 len @ le_bytes 4 TDS_7_4 @ le_bytes 4 (4096 :: 32 word)
          @ as @ bs @ cs @ le_bytes 2 (94 :: 16 word) @ le_bytes 2 (4 :: 16 word)
          @ le_bytes 2 (255 :: 16 word) @ le_bytes 2 (1 :: 16 word) @ c" ..
      have "length wild = 166" by (simp add: wild_def it(2))
      then have "\<exists>e. rd_map (\<lambda>_. read_login_field K wild) [0..<9]
          (le_bytes 2 (94 :: 16 word) @ le_bytes 2 (4 :: 16 word)
           @ le_bytes 2 (255 :: 16 word) @ le_bytes 2 (1 :: 16 word) @ c) = Inl e"
        by (simp add: upt_rec [of 0] upt_rec [of "Suc 0"] rd_simps read_login_field_def slice_get_def)
      then show ?thesis
        unfolding read_login7_def wild_def [symmetric]
        by (subst (2) c) (auto simp: rd_simps skips)
    qed
    ultimately show ?thesis by (simp add: what_is_not_a_login_is_refused_def)
  qed
qed

lemma round_trips:
  assumes "value_fits K kind v"
  shows "round_trip K kind v = Some (shown K kind v)"
proof -
  obtain ti where ti: "write_type_info [] kind = ti" "type_info kind ti"
    using write_type_info_grammar [of "[]" kind] by auto
  have "write_value K ti kind v = ti @ write_value K [] kind v" by (rule write_value_appends)
  then show ?thesis
    using type_info_read [OF ti(2)] value_round [OF assms, of "[]"]
    by (simp add: round_trip_def ti(1))
qed

text \<open>What the cells of the tests are on the wire.\<close>

lemma digits:
  "lit ''41'' = dec_int 41" "lit ''-9'' = dec_int (- 9)" "lit ''-2'' = dec_int (- 2)"
  "lit ''7'' = dec_int 7" "lit ''3'' = dec_int 3" "lit ''0'' = dec_int 0"
  by code_simp+

lemma integers:
  "sint (integer (lit ''41'')) = 41" "sint (integer (lit ''-9'')) = - 9"
  "sint (integer (lit ''-2'')) = - 2" "sint (integer (lit ''7'')) = 7" "sint (integer (lit ''3'')) = 3"
  unfolding digits by (simp_all add: integer_dec_int)

lemma truths:
  "truthy (Some (lit ''true''))" "truthy (Some (lit ''1''))" "\<not> truthy (Some (lit ''0''))"
  by (simp_all add: truthy_def trim_def white_space_def lit_def)

lemma ab: "bytes_of K (lit ''ab'') = None" "as_bytes (lit ''ab'') = [0x61, 0x62]"
  by (rule no_literal, simp add: lit_def) (simp add: lit_def as_bytes_def utf8_char_def)

lemma quoted:
  "lit ''0xfffe'' = quote_bytes K [0xFF, 0xFE]" "lit ''0x00'' = quote_bytes K [0]"
  "lit ''0x6162'' = quote_bytes K [0x61, 0x62]"
  by (simp_all add: literal_form lit_def hex_byte_def hex_digit_def)

lemma cells_fit:
  "value_fits K (IntN 1) v" "value_fits K (IntN 2) v" "value_fits K (IntN 4) v" "value_fits K (IntN 8) v"
  "value_fits K IntT v" "value_fits K BigInt v" "value_fits K Bit v" "value_fits K BitN v"
  "value_fits K (NVarChar MAX_LENGTH) (Some [114, 228, 107])"
  "value_fits K (NVarChar MAX_LENGTH) (Some [])" "value_fits K (NVarChar 80) (Some (lit ''short''))"
  "value_fits K (NVarChar MAX_LENGTH) (Some (lit ''ISA*00*''))"
  "value_fits K (VarChar MAX_LENGTH) (Some (lit ''ISA*00*''))" "value_fits K (VarChar 10) (Some (lit ''x''))"
  "value_fits K (VarChar MAX_LENGTH) (Some (replicate 70000 121))"
  "value_fits K (VarBinary MAX_LENGTH) (Some (quote_bytes K [0xFF, 0xFE]))"
  "value_fits K (VarBinary 8) (Some (quote_bytes K [0]))"
  "value_fits K (VarBinary MAX_LENGTH) (Some (lit ''ab''))"
  "value_fits K kind None"
proof -
  have "is_str (replicate n 121)" for n by (simp add: is_str_def is_scalar_def list_all_iff)
  then show "value_fits K (VarChar MAX_LENGTH) (Some (replicate 70000 121))"
    by (simp add: value_fits_def bytes_fit_def as_bytes_def utf8_char_def map_replicate)
  show "value_fits K (VarBinary MAX_LENGTH) (Some (lit ''ab''))"
    by (simp add: value_fits_def bytes_fit_def binary_of_def ab)
qed (simp_all add: value_fits_def bytes_fit_def utf16_length utf16_units_def lit_def is_scalar_def
    as_bytes_def utf8_char_def binary_of_def bytes_of_quote split: column_type.split)

lemma cells_shown:
  "shown K (IntN 1) (Some (lit ''7'')) = Some (lit ''7'')" "shown K (IntN 2) (Some (lit ''-2'')) = Some (lit ''-2'')"
  "shown K (IntN 4) (Some (lit ''41'')) = Some (lit ''41'')" "shown K (IntN 8) (Some (lit ''-9'')) = Some (lit ''-9'')"
  "shown K (IntN w) None = None" "shown K IntT (Some (lit ''3'')) = Some (lit ''3'')"
  "shown K IntT (Some (lit ''7'')) = Some (lit ''7'')" "shown K BigInt None = Some (lit ''0'')"
  "shown K Bit (Some (lit ''true'')) = Some (lit ''1'')"
  "shown K BitN (Some (lit ''0'')) = Some (lit ''0'')" "shown K BitN (Some (lit ''1'')) = Some (lit ''1'')"
  "shown K BitN None = None" "shown K (NVarChar m) v = v" "shown K (VarChar m) v = v"
  "shown K (VarBinary m) (Some (quote_bytes K bs)) = Some (quote_bytes K bs)"
  "shown K (VarBinary m) (Some (lit ''ab'')) = Some (quote_bytes K [0x61, 0x62])"
  "shown K (VarBinary m) None = None"
  by (simp_all add: shown_def integers value_int_def digits [symmetric] truths binary_of_def
      bytes_of_quote ab)

lemma column_tests:
  "every_type_round_trips_with_its_null K" "what_this_crate_does_not_read_is_refused_by_name K"
proof -
  show "every_type_round_trips_with_its_null K"
    unfolding every_type_round_trips_with_its_null_def Let_def quoted
    by (intro conjI; subst round_trips) (simp_all add: cells_fit cells_shown del: MAX_LENGTH_def)
  show "what_this_crate_does_not_read_is_refused_by_name K"
  proof -
    have "lit ''column type '' @ hex04 0x2A @ s = lit ''column type '' @ lit ''0x2a'' @ s" for s
      by (simp add: lit_def hex04_def hex_byte_def hex_digit_def)
    then have "says ''0x2a'' (read_type_info K [0x2A, 7])"
      by (simp add: read_type_info_def says_def error_text_def rd_simps byte_Cons)
    moreover have "isl (read_value K (IntN 3) [3, 0, 0, 0])"
      by (simp add: read_value_def rd_simps byte_law take_law)
    moreover have chunk: "le_bytes 8 total @ le_bytes 4 (2 :: 32 word) @ [0x61, 0x62] @ le_bytes 4 (0 :: 32 word) =
        le_bytes 8 (total :: 64 word) @ plp_chunks [[0x61, 0x62]] @ []" for total
      by (simp add: plp_chunks_def)
    have "list_all chunk_ok [[0x61 :: byte, 0x62]]" by (simp add: chunk_ok_def)
    note read_plp_chunks [OF this, of _ "[]"]
    then have "isl (read_plp K (le_bytes 8 (5 :: 64 word) @ le_bytes 4 (2 :: 32 word) @ [0x61, 0x62] @ le_bytes 4 (0 :: 32 word)))"
      "read_plp K (le_bytes 8 PLP_UNKNOWN @ le_bytes 4 (2 :: 32 word) @ [0x61, 0x62] @ le_bytes 4 (0 :: 32 word)) =
        Inr (Some [0x61, 0x62], [])"
      unfolding chunk by simp_all
    moreover have "isl (read_plp K [1, 0, 0, 0, 0, 0, 0, 0, 5, 0, 0, 0, 97])"
    proof -
      have bytes: "[1, 0, 0, 0, 0, 0, 0, 0, 5, 0, 0, 0, 97] =
          le_bytes 8 (1 :: 64 word) @ le_bytes 4 (5 :: 32 word) @ [97]"
        by (simp add: le_bytes_expand)
      have "plp_round K [] (le_bytes 4 (5 :: 32 word) @ [97]) = Inl (overrun K 5 [97])"
        by (simp add: plp_round_def rd_simps take_law)
      then show ?thesis unfolding bytes by (simp add: read_plp_def rd_simps plp_loop.loop_fails)
    qed
    ultimately show ?thesis
      by (simp add: what_this_crate_does_not_read_is_refused_by_name_def ab Let_def del: PLP_UNKNOWN_def)
  qed
qed

lemma next_token_written:
  assumes "token_fits K columns t"
  shows "next_token K \<lparr>ts_cursor = token_bytes K columns t @ c, ts_columns = columns\<rparr> =
    Inr (Some (token_shown K columns t), \<lparr>ts_cursor = c, ts_columns = columns_after columns t\<rparr>)"
  using read_token_round [OF assms] token_bytes_not_Nil by (simp add: next_token_def)

lemma collects:
  assumes "tokens_fit K columns ts"
  shows "rd_loop (collect_round K) (columns, read) (tokens_bytes K columns ts) =
    Inr ((foldl columns_after columns ts, read @ tokens_shown K columns ts), [])"
proof -
  have loop: "progressing (collect_round K)"
  proof
    fix s c s' c'
    assume "collect_round K s c = Inr (Inl s', c')"
    then show "length c' < length c"
      using next_token_consumes [of "\<lparr>ts_cursor = c, ts_columns = fst s\<rparr>"]
      by (cases s) (auto simp: collect_round_def and_then_eq_Inr leave_def go_on_def rd_return_def
          split: option.splits)
  qed
  show ?thesis
    using assms
  proof (induction ts arbitrary: columns read)
    case Nil
    have "collect_round K (columns, read) [] = Inr (Inr (columns, read), [])"
      by (simp add: collect_round_def next_token_def stream_columns_def rd_simps)
    then show ?case by (simp add: progressing.loop_leave [OF loop])
  next
    case (Cons t ts)
    then have "collect_round K (columns, read) (tokens_bytes K columns (t # ts)) =
        Inr (Inl (columns_after columns t, read @ [token_shown K columns t]),
          tokens_bytes K (columns_after columns t) ts)"
      by (simp add: collect_round_def next_token_written stream_columns_def rd_simps)
    with Cons show ?case by (simp add: progressing.loop_go_on [OF loop])
  qed
qed

lemma token_tests:
  "every_token_round_trips K" "a_null_bitmap_row_reads_by_its_columns K"
  "what_is_not_a_token_is_refused K"
proof -
  have seven: "lit ''7'' = dec_int 7" by (rule digits)
  show "every_token_round_trips K"
  proof -
    define ts where "ts = [
      EnvChange ENV_DATABASE (lit ''orders'') (lit ''master''),
      Info (new_message 5701 0
        (lit (''Changed database context to '' @ [CHR 39] @ ''orders'' @ [CHR 39] @ ''.''))),
      LoginAck 0x74000004 (lit ''Microsoft SQL Server''),
      ColMetadata [
        new_column (lit ''id'') (IntN 4),
        text_column (lit ''payload''),
        new_column (lit ''raw'') (VarBinary MAX_LENGTH),
        new_column (lit ''flag'') BitN],
      Row [Some (lit ''41''), Some (lit ''ISA*00*''), None, Some (lit ''1'')],
      Row [None, None, Some (quote_bytes K [0xFF, 0xFE]), None],
      Order [1],
      DoneInProc (DONE_COUNT OR DONE_MORE) 2,
      ReturnStatus (- 1),
      DoneProc DONE_MORE 0,
      Error (new_message 18456 14
        (lit (''Login failed for user '' @ [CHR 39] @ ''xmip'' @ [CHR 39] @ ''.''))),
      Done DONE_ERROR 0]"
    have names: "name_fits (lit ''orders'')" "name_fits (lit ''master'')" "name_fits (lit ''Microsoft SQL Server'')"
      "name_fits (lit ''id'')" "name_fits (lit ''payload'')" "name_fits (lit ''raw'')" "name_fits (lit ''flag'')"
      "message_fits (new_message 5701 0
        (lit (''Changed database context to '' @ [CHR 39] @ ''orders'' @ [CHR 39] @ ''.'')))"
      "message_fits (new_message 18456 14
        (lit (''Login failed for user '' @ [CHR 39] @ ''xmip'' @ [CHR 39] @ ''.'')))"
      by (simp_all add: name_fits_def message_fits_def new_message_def utf16_units_def lit_def is_scalar_def)
    have "tokens_fit K [] ts" "tokens_shown K [] ts = ts" "length (foldl columns_after [] ts) = 4"
      unfolding ts_def
      by (simp_all add: token_fits_def token_shown_def columns_after_def new_column_def text_column_def
          names [simplified] cells_fit cells_shown del: MAX_LENGTH_def)
    with collects [of "[]" ts "[]"] show ?thesis
      unfolding every_token_round_trips_def quoted ts_def [symmetric] Let_def
      by (simp add: encode_tokens_bytes)
  qed
  show "a_null_bitmap_row_reads_by_its_columns K"
  proof -
    define columns where "columns = [new_column (lit ''id'') IntT, text_column (lit ''payload'')]"
    define row where "row = NBCROW # [2] @ le_bytes 4 (7 :: 32 word)"
    have "token_fits K [] (ColMetadata columns)"
      by (simp add: token_fits_def columns_def name_fits_def new_column_def text_column_def utf16_units_def
          lit_def is_scalar_def)
    from next_token_written [OF this, of row]
    have "next_token K (new_stream (encode_tokens K [ColMetadata columns] @ row)) =
        Inr (Some (ColMetadata columns), \<lparr>ts_cursor = row, ts_columns = columns\<rparr>)"
      by (simp add: new_stream_def encode_tokens_bytes token_shown_def columns_after_def)
    moreover have "next_token K \<lparr>ts_cursor = row, ts_columns = columns\<rparr> =
        Inr (Some (Row [Some (lit ''7''), None]), \<lparr>ts_cursor = [], ts_columns = columns\<rparr>)"
    proof -
      have "value_int (Some (lit ''7'')) = 7" by (simp add: value_int_def integers)
      then have "row = NBCROW # [2] @ nbc_cells K (zip columns [Some (lit ''7''), None]) @ []"
        by (simp add: row_def columns_def nbc_cells_def new_column_def text_column_def write_value_def
            integers)
      moreover have "list_all2 (\<lambda>c. value_fits K (col_kind c)) columns [Some (lit ''7''), None]"
        by (simp add: columns_def new_column_def text_column_def cells_fit)
      ultimately show ?thesis
        using read_null_bitmap_row [of columns "[Some (lit ''7''), None]" "[2]" "[]"]
        by (simp add: next_token_def columns_def new_column_def text_column_def null_bitmap_def
            less_Suc_eq all_conj_distrib numeral_2_eq_2 cells_shown)
    qed
    ultimately show ?thesis
      unfolding a_null_bitmap_row_reads_by_its_columns_def columns_def [symmetric] Let_def
      by (simp add: row_def next_token_def)
  qed
  show "what_is_not_a_token_is_refused K"
  proof -
    have "isl (next_token K (new_stream [0x00]))"
      using unknown_token_refused [OF cursor_axioms, of 0 "[]" "[]"] by (simp add: new_stream_def)
    moreover have "isl (next_token K (new_stream [ERROR, 40, 0, 1]))"
      "isl (next_token K (new_stream [DONE, 0, 0]))"
      by (simp_all add: next_token_def new_stream_def read_token_def token_body_def cursor_laws rd_bind_def)
    moreover have "encode_tokens K [ColMetadata []] = [COLMETADATA, 0xFF, 0xFF]"
      by (simp add: encode_tokens_bytes token_bytes_simps le_bytes_expand)
    moreover have "token_fits K [] (ColMetadata [])" by (simp add: token_fits_def)
    from next_token_written [OF this, of "[]"]
    have "next_token K (new_stream (encode_tokens K [ColMetadata []])) =
        Inr (Some (ColMetadata []), \<lparr>ts_cursor = [], ts_columns = []\<rparr>)"
      by (simp add: new_stream_def encode_tokens_bytes token_shown_def columns_after_def)
    ultimately show ?thesis by (simp add: what_is_not_a_token_is_refused_def)
  qed
qed

lemma connecting_tests: "a_server_that_requires_encryption_or_speaks_nonsense_is_refused retries pid K"
proof -
  let ?l = "\<lparr>login_user = lit ''xmip'', login_password = []\<rparr>"
  let ?connect = "\<lambda>answer. connect K pid (Inr (bytes_reader answer, quiet_writer)) (lit ''orders'') ?l"
  let ?greeting = "\<lambda>e. encode_prelogin (default_prelogin\<lparr>pl_encryption := e\<rparr>)"
  have small: "n \<le> max_body K" if "n \<le> 1500" for n using that room by simp
  have read: "read_prelogin K (?greeting e) = Inr (default_prelogin\<lparr>pl_encryption := e\<rparr>)" for e
    by (rule prelogin_reads_back [OF cursor_axioms]) (simp_all add: default_prelogin_def as_bytes_def)
  have heard: "read_message K (bytes_reader (packets K kind payload DEFAULT_PACKET_SIZE @ c)) =
      (Inr (Some (kind, payload)), bytes_reader c)"
    if "is_packet_type kind" "length payload \<le> 1500" for kind payload c
    unfolding bytes_reader_def using that(1) small [OF that(2)]
    by (rule packets_read_back [OF byte_writer_axioms body_ceiling_axioms])
  have greeted: "read_message K (bytes_reader (packets K kind (?greeting e) DEFAULT_PACKET_SIZE @ c)) =
      (Inr (Some (kind, ?greeting e)), bytes_reader c)" if "is_packet_type kind" for kind e c
    using that by (rule heard) (simp add: default_prelogin_def as_bytes_def encode_prelogin_bytes entry_bytes_def)
  note steps = connect_def connect_on_def act_bind_def client_write_sound client_read_def read new_client_def
  have "?connect (packets K TABULAR_RESULT (?greeting ENCRYPT_REQ) DEFAULT_PACKET_SIZE) = Inl (Permanent
      (lit ''the server requires encryption, and TLS is `xmip-core-library-tls`'s ('' @ lit ''ADR-0033'' @ lit '')''))"
    using greeted [of TABULAR_RESULT ENCRYPT_REQ "[]"]
    by (simp add: steps is_packet_type_def) (simp add: lit_def)
  moreover have "?connect (packets K SQL_BATCH (?greeting ENCRYPT_REQ) DEFAULT_PACKET_SIZE) = Inl (Protocol
      (lit ''packet type '' @ lit ''0x01'' @ lit '' is not a server's answer''))"
    using greeted [of SQL_BATCH ENCRYPT_REQ "[]"]
    by (simp add: steps is_packet_type_def) (simp add: lit_def hex04_def hex_byte_def hex_digit_def)
  moreover obtain e where "?connect (as_bytes (lit ''HTTP/1.1 400 Bad Request'' @ [13, 10, 13, 10])) = Inl e"
    "\<not> retries e"
  proof -
    let ?said = "as_bytes (lit ''HTTP/1.1 400 Bad Request'' @ [13, 10, 13, 10])"
    obtain e where "fst (read_message K (bytes_reader ?said)) = Inl e" "\<not> retries e"
      using wire_tests(2) by (auto simp: what_is_not_a_message_is_refused_def isl_def Let_def says_def)
    then show ?thesis by (intro that [of e]) (auto simp: steps split: prod.split)
  qed
  moreover have "?connect (packets K TABULAR_RESULT (encode_prelogin default_prelogin) DEFAULT_PACKET_SIZE
      @ packets K TABULAR_RESULT (encode_tokens K [Done 0 0]) DEFAULT_PACKET_SIZE) =
    Inl (Protocol (lit ''the server did not '' @ lit ''acknowledge'' @ lit '' the login''))"
  proof -
    have d: "encode_prelogin default_prelogin = ?greeting ENCRYPT_NOT_SUP"
      "default_prelogin = default_prelogin\<lparr>pl_encryption := ENCRYPT_NOT_SUP\<rparr>"
      by (simp_all add: default_prelogin_def)
    have "length (encode_tokens K [Done 0 0]) \<le> 1500"
      by (simp add: encode_tokens_bytes token_bytes_simps)
    from heard [OF _ this, of TABULAR_RESULT "[]"]
    have "read_message K (bytes_reader (packets K TABULAR_RESULT (encode_tokens K [Done 0 0]) DEFAULT_PACKET_SIZE)) =
        (Inr (Some (TABULAR_RESULT, encode_tokens K [Done 0 0])), bytes_reader [])"
      by (simp add: is_packet_type_def)
    moreover have "each_token K login_step (p, n, False) (encode_tokens K [Done 0 0]) = Inr (p, n, False)" for p n
      by (subst each_token_written) (simp_all add: token_fits_def token_shown_def login_step_def)
    ultimately show ?thesis
      using greeted [of TABULAR_RESULT ENCRYPT_NOT_SUP] unfolding d(1)
      by (simp add: steps is_packet_type_def) (simp add: lit_def)
  qed
  ultimately show ?thesis
    unfolding a_server_that_requires_encryption_or_speaks_nonsense_is_refused_def Let_def
    by (simp add: says_def error_text_def judged)
qed

end

subsection \<open>Crates the tests run on\<close>

definition tried_again :: "terror \<Rightarrow> bool" where
  "tried_again e = (case e of Retryable _ \<Rightarrow> True | _ \<Rightarrow> False)"

interpretation reference_bench: bench reference tried_again
proof unfold_locales
  show "bytes_of reference s = None" if "take 2 s \<noteq> lit ''0x''" for s
    using that by (simp add: reference_def unquote_hex_def)
  show "isl (utf16_decode reference [0x00, 0xD8])"
    by (simp add: reference_def decode16_def)
  show "sublist (lit ''runs past'') (error_text (overrun reference n c))" for n c
  proof -
    have "overrun reference n c =
        Protocol (lit ''a field '' @ lit ''runs past'' @ lit '' the message'')"
      by (simp add: reference_def overran_def lit_def)
    then show ?thesis by (simp only: error_text_def terror.case sublist_appendI)
  qed
  show "quote_bytes reference bs = lit ''0x'' @ concat (map hex_byte bs)" for bs
    by (simp add: reference_def quote_hex_def)
qed (simp_all add: tried_again_def)

end
