(* ===== verification/Tests_Ends.thy ===== *)
theory Tests_Ends
  imports Tests Conversation
begin

text \<open>
  The tests of \<^verbatim>\<open>client.rs\<close> and \<^verbatim>\<open>session.rs\<close> that run a client against a session in a
  thread. One end is run on what the other is to say, the other on what that end said, and each
  test asserts besides that the first was right about what it would hear.
\<close>

text \<open>What these take of \<^verbatim>\<open>transport::sql\<close>: two verbs, and a table as it is given.\<close>

locale bench_of_two = bench K retries + constant_time Q
  for K :: "'z externals_scheme" and retries :: "terror \<Rightarrow> bool"
    and Q :: "('h, 'v, 'p, 'y) sql_crate_scheme" +
  fixes table :: "str list \<Rightarrow> str option list list \<Rightarrow> str list \<times> str option list list"
  assumes reads: "of_statement Q (lit ''SELECT id, payload FROM inbox'') = Some Select"
    and deletes: "of_statement Q (lit ''DELETE FROM inbox'') = Some OtherVerb"
    and as_given: "table cs rs = (cs, rs)"
    and roomy: "65600 \<le> max_body K"

subsection \<open>The tests\<close>

text \<open>The closures that answer.\<close>

definition boom :: "unit \<Rightarrow> str \<Rightarrow> answer option \<times> unit" where
  "boom k sql =
     (if sublist (lit ''boom'') sql then
        Some (AnswerError 208 (lit (''Invalid object name '' @ [CHR 39] @ ''boom'' @ [CHR 39] @ ''.'')))
      else None, k)"

definition truncates :: "unit \<Rightarrow> str \<Rightarrow> answer option \<times> unit" where
  "truncates k sql = (if take 8 sql = lit ''TRUNCATE'' then Some (Complete 0) else None, k)"

definition a_client_logs_in_queries_executes_and_is_told_of_an_error ::
    "(terror \<Rightarrow> bool) \<Rightarrow> 32 word \<Rightarrow> (str list \<Rightarrow> str option list list \<Rightarrow> str list \<times> str option list list)
       \<Rightarrow> 'h \<Rightarrow> 'z externals_scheme \<Rightarrow> ('h, 'v, 'p, 'y) sql_crate_scheme \<Rightarrow> bool" where
  "a_client_logs_in_queries_executes_and_is_told_of_an_error retries pid table binary K Q \<longleftrightarrow>
     (let l = \<lparr>login_user = lit ''xmip'', login_password = lit ''secret''\<rparr>;
          rows = [[Some (lit ''1''), None], [None, Some (lit ''x'')]];
          asked = lit ''SELECT id, payload FROM inbox''; emptied = lit ''DELETE FROM inbox'';
          failing = lit ''SELECT * FROM boom'';
          said = hello K @ login_packets K pid (lit ''orders'') l @ batch_packets K DEFAULT_PACKET_SIZE asked
            @ batch_packets K DEFAULT_PACKET_SIZE emptied @ batch_packets K DEFAULT_PACKET_SIZE failing in
       (case accept K Q (Inr (bytes_reader said, quiet_writer, lit ''peer'')) (Some l) () binary of
          Inl _ \<Rightarrow> False
        | Inr session \<Rightarrow>
            (let session = with_table table [lit ''id'', lit ''payload''] rows session;
                 session = answering boom session in
              (case serve K Q session of
                 (Inl _, _) \<Rightarrow> False
               | (Inr events, session) \<Rightarrow>
                   (case connect K pid (Inr (bytes_reader (sent (ss_writer session)), quiet_writer))
                       (lit ''orders'') l of
                      Inl _ \<Rightarrow> False
                    | Inr client \<Rightarrow>
                        sublist (lit ''SQL Server'') (cl_program client) \<and>
                        cl_packet_size client = DEFAULT_PACKET_SIZE \<and>
                        (case query K asked client of
                           (Inl _, _) \<Rightarrow> False
                         | (Inr result, client) \<Rightarrow>
                             qr_columns result = [lit ''id'', lit ''payload''] \<and>
                             qr_rows result = rows \<and>
                             qr_rows_affected result = 2 \<and>
                             (case execute K emptied client of (executed, client) \<Rightarrow>
                               executed = Inr 0 \<and>
                               (case query K failing client of (error, client) \<Rightarrow>
                                 says ''208'' error \<and> \<not> retries (projl error) \<and>
                                 close_client (Inr ()) = Inr () \<and>
                                 sent (cl_writer client) = said)))) \<and>
                   user session = lit ''xmip'' \<and>
                   database session = lit ''orders'' \<and>
                   length events = 3 \<and>
                   events ! 1 = Executed (lit ''DELETE FROM inbox'')))))"

definition without_an_expected_login_any_login_is_taken_and_a_stray_packet_is_refused ::
    "32 word \<Rightarrow> 'h \<Rightarrow> 'z externals_scheme \<Rightarrow> ('h, 'v, 'p, 'y) sql_crate_scheme \<Rightarrow> bool" where
  "without_an_expected_login_any_login_is_taken_and_a_stray_packet_is_refused pid binary K Q \<longleftrightarrow>
     (let l = \<lparr>login_user = lit ''anyone'', login_password = lit ''whatever''\<rparr>;
          truncate = lit ''TRUNCATE TABLE inbox'';
          stray = packets K PRELOGIN [] DEFAULT_PACKET_SIZE;
          said = hello K @ login_packets K pid (lit ''orders'') l
            @ batch_packets K DEFAULT_PACKET_SIZE truncate @ stray in
       (case accept K Q (Inr (bytes_reader said, quiet_writer, lit ''peer'')) None () binary of
          Inl _ \<Rightarrow> False
        | Inr session \<Rightarrow>
            (let session = answering truncates session in
              user session = lit ''anyone'' \<and>
              login_password (l7_login (session_login session)) = lit ''whatever'' \<and>
              l7_app_name (session_login session) = lit ''xmip'' \<and>
              (case next_event K Q session of (event, session) \<Rightarrow>
                event = Inr (Some (Executed truncate)) \<and>
                (case next_event K Q session of (error, session) \<Rightarrow>
                  says ''after the login'' error \<and>
                  (case connect K pid (Inr (bytes_reader (sent (ss_writer session)), quiet_writer))
                      (lit ''orders'') l of
                     Inl _ \<Rightarrow> False
                   | Inr client \<Rightarrow>
                       (case execute K truncate client of (executed, client) \<Rightarrow>
                         executed = Inr 0 \<and>
                         (case write_all stray (cl_writer client) of (wrote, w) \<Rightarrow>
                           wrote = Inr () \<and> close_client (Inr ()) = Inr () \<and>
                           sent w = said))))))))"

subsection \<open>Two ends in step\<close>

text \<open>Both ends past the login, with what is still to be heard and what has been said.\<close>

definition client_at :: "byte list \<Rightarrow> byte list \<Rightarrow> client" where
  "client_at bs out = \<lparr>cl_reader = bytes_reader bs, cl_writer = quiet_writer\<lparr>sent := out\<rparr>,
     cl_packet_size = DEFAULT_PACKET_SIZE, cl_program = lit ''Microsoft SQL Server (xmip)''\<rparr>"

definition session_at :: "('k, 'h) session \<Rightarrow> byte list \<Rightarrow> byte list \<Rightarrow> ('k, 'h) session" where
  "session_at s bs out = s\<lparr>ss_reader := bytes_reader bs, ss_writer := quiet_writer\<lparr>sent := out\<rparr>\<rparr>"

context bench_of_two
begin

lemma connects:
  assumes "presentable db l"
  shows "connect K pid (Inr (bytes_reader (hello_back K @ token_packets K (welcome_tokens db) @ bs), quiet_writer)) db l =
    Inr (client_at bs (hello K @ login_packets K pid db l))"
  by (simp add: connect_def connect_on_entered(1) [OF codec_axioms body_ceiling_axioms _ assms roomy, where rest = bs]
      client_at_def bytes_reader_def)

lemma accepts:
  assumes "presentable db l" and "expected = None \<or> expected = Some l"
  shows "accept K Q (Inr (bytes_reader (hello K @ login_packets K pid db l @ bs), quiet_writer, peer)) expected k binary =
    Inr (session_at ((new_session (bytes_reader []) quiet_writer peer k binary)\<lparr>ss_login := new_login7 l db\<rparr>)
      bs (hello_back K @ token_packets K (welcome_tokens db)))"
proof -
  let ?s = "new_session (bytes_reader (hello K @ login_packets K pid db l @ bs)) quiet_writer peer k binary"
  have "pred_option (\<lambda>e. is_str (login_password e)) expected"
    using assms by (auto simp: presentable_def login_fits_def login_strings_def)
  from accept_on_entered(1) [OF codec_axioms body_ceiling_axioms constant_time_axioms _ assms(1) this roomy, of ?s pid bs, OF _ _ assms(2)]
  have "accept_on K Q expected ?s = (Inr (), entered K db l bs ?s)"
    by (simp add: new_session_def bytes_reader_def)
  then show ?thesis
    by (simp add: accept_def entered_def session_at_def new_session_def bytes_reader_def)
qed

lemma queries_at:
  assumes "answer_fits a" and "length (encode_tokens K (answer_tokens a)) \<le> max_body K"
  shows "query K sql (client_at (answer_packets K a @ bs) out) =
    (answer_result a, client_at bs (out @ batch_packets K DEFAULT_PACKET_SIZE sql))"
  using query_answered [OF codec_axioms body_ceiling_axioms _ answer_tokens_shown(1) [OF assms(1)] assms(2),
      of "client_at (answer_packets K a @ bs) out" DEFAULT_PACKET_SIZE bs sql]
  by (simp add: client_at_def bytes_reader_def answer_packets_def batch_packets_def
      answer_tokens_shown(2) [OF assms(1)] answer_tokens_result)

lemma next_event_at:
  assumes "is_str sql" and "length (encode_batch K sql) \<le> max_body K" and "answer_batch Q sql s = ((a, ev), s)"
  shows "next_event K Q (session_at s (batch_packets K n sql @ bs) out) =
    (Inr (Some ev), session_at s bs (out @ answer_packets K a))"
proof -
  have "answer_batch Q sql (session_at s c out) = ((a, ev), session_at s c out)" for c
    by (simp add: session_at_def answer_batch_io assms(3))
  from next_event_batch [OF codec_axioms body_ceiling_axioms _ assms(1,2) _ this, where n = n and rest = bs]
  show ?thesis by (simp add: session_at_def bytes_reader_def batch_packets_def answer_packets_def)
qed

lemma serves_at:
  assumes "is_str sql" and "length (encode_batch K sql) \<le> max_body K" and "answer_batch Q sql s = ((a, ev), s)"
  shows "serve_from K Q events (session_at s (batch_packets K n sql @ bs) out) =
    serve_from K Q (events @ [ev]) (session_at s bs (out @ answer_packets K a))"
  by (subst serve_from.simps) (simp add: next_event_at [OF assms])

lemma served_at: "serve_from K Q events (session_at s [] out) = (Inr events, session_at s [] out)"
proof -
  have "read_message K (bytes_reader []) = (Inr None, bytes_reader [])"
    by (simp add: bytes_reader_def read_message_def read_packets.simps [of K] read1_def)
  then show ?thesis
    by (subst serve_from.simps) (simp add: next_event_def session_at_def)
qed

lemma setting_up:
  "answering f (session_at s bs out) = session_at (answering f s) bs out"
  "with_table table cs rs (session_at s bs out) = session_at (with_table table cs rs s) bs out"
  "user (session_at s bs out) = user s" "database (session_at s bs out) = database s"
  "session_login (session_at s bs out) = session_login s"
  by (simp_all add: session_at_def answering_def with_table_def user_def database_def session_login_def
      as_given)

lemma said_at:
  "sent (ss_writer (session_at s bs out)) = out" "sent (cl_writer (client_at bs out)) = out"
  "cl_writer (client_at bs out) = quiet_writer\<lparr>sent := out\<rparr>"
  "cl_program (client_at bs out) = lit ''Microsoft SQL Server (xmip)''"
  "cl_packet_size (client_at bs out) = DEFAULT_PACKET_SIZE"
  by (simp_all add: session_at_def client_at_def)

lemma client_test_of_two:
  "a_client_logs_in_queries_executes_and_is_told_of_an_error retries pid table binary K Q"
proof -
  define l where "l = \<lparr>login_user = lit ''xmip'', login_password = lit ''secret''\<rparr>"
  define rows where "rows = [[Some (lit ''1''), None], [None, Some (lit ''x'')]]"
  let ?asked = "lit ''SELECT id, payload FROM inbox''" and ?emptied = "lit ''DELETE FROM inbox''"
  let ?failing = "lit ''SELECT * FROM boom''"
  define invalid where "invalid = lit (''Invalid object name '' @ [CHR 39] @ ''boom'' @ [CHR 39] @ ''.'')"
  let ?name = "lit ''id''" and ?payload = "lit ''payload''"
  define s where "s = answering boom (with_table table [?name, ?payload] rows
    ((new_session (bytes_reader []) quiet_writer (lit ''peer'') () binary)\<lparr>ss_login := new_login7 l (lit ''orders'')\<rparr>))"
  have l: "presentable (lit ''orders'') l"
    by (simp add: presentable_def login_fits_def login_strings_def l_def new_login7_def name_fits_def
        utf16_units_def lit_def is_scalar_def)
  have sqls: "is_str ?asked" "is_str ?emptied" "is_str ?failing"
    "length (encode_batch K ?asked) \<le> max_body K" "length (encode_batch K ?emptied) \<le> max_body K"
    "length (encode_batch K ?failing) \<le> max_body K"
    using roomy by (simp_all add: encode_batch_def utf16_length utf16_units_def lit_def is_scalar_def)
  have verbs: "of_statement Q ?asked = Some Select" "of_statement Q ?emptied = Some OtherVerb"
    by (rule reads deletes)+
  have booms: "\<not> sublist (lit ''boom'') ?asked" "\<not> sublist (lit ''boom'') ?emptied" "sublist (lit ''boom'') ?failing"
    by (simp_all add: lit_def sublist_Cons_right)
  have answers: "answer_batch Q ?asked s = ((Rows [?name, ?payload] rows, Selected ?asked), s)"
    "answer_batch Q ?emptied s = ((Complete 0, Executed ?emptied), s)"
    "answer_batch Q ?failing s = ((AnswerError 208 invalid, Executed ?failing), s)"
    by (simp_all add: answer_batch_def s_def answering_def with_table_def as_given new_session_def boom_def
        booms verbs invalid_def Let_def)
  have fits: "answer_fits (Rows [?name, ?payload] rows)" "answer_fits (Complete 0)"
    "answer_fits (AnswerError 208 invalid)"
    by (simp_all add: answer_fits_def rows_def invalid_def name_fits_def lit_def utf16_units_def is_scalar_def)
  have "length (chunks 65535 (utf16_encode K [c])) \<le> 1 \<and> length (utf16_encode K [c]) \<le> 4" for c
    using utf16_length [of "[c]"] by (auto simp: chunks_rec utf16_units_def simp flip: length_0_conv)
  then have cells: "length (chunks 65535 (utf16_encode K (lit ''1''))) \<le> 1"
    "length (utf16_encode K (lit ''1'')) \<le> 4" "length (chunks 65535 (utf16_encode K (lit ''x''))) \<le> 1"
    "length (utf16_encode K (lit ''x'')) \<le> 4"
    by (simp_all add: lit_def)
  have "length (message_body K (new_message 208 16 invalid)) < 65536"
    by (rule message_body_length)
      (simp add: message_fits_def new_message_def invalid_def name_fits_def lit_def utf16_units_def is_scalar_def)
  then have sizes: "length (encode_tokens K (answer_tokens (Rows [?name, ?payload] rows))) \<le> max_body K"
    "length (encode_tokens K (answer_tokens (Complete 0))) \<le> max_body K"
    "length (encode_tokens K (answer_tokens (AnswerError 208 invalid))) \<le> max_body K"
    using roomy cells
    by (simp_all add: encode_tokens_bytes answer_tokens_def rows_def token_bytes_simps columns_after_def
        text_column_def new_column_def column_bytes_def push_column_bytes write_type_info_def b_varchar_bytes
        length_counted write_value_def write_bytes_def write_plp_chunks length_plp_chunks sized_def
        write_plp_def [of _ None])
  let ?p = "hello_back K @ token_packets K (welcome_tokens (lit ''orders''))"
  let ?a = "answer_packets K (Rows [?name, ?payload] rows)" and ?b = "answer_packets K (Complete 0)"
    and ?c = "answer_packets K (AnswerError 208 invalid)"
  let ?said = "hello K @ login_packets K pid (lit ''orders'') l @ batch_packets K DEFAULT_PACKET_SIZE ?asked
    @ batch_packets K DEFAULT_PACKET_SIZE ?emptied @ batch_packets K DEFAULT_PACKET_SIZE ?failing"
  have served: "serve K Q (session_at s (batch_packets K DEFAULT_PACKET_SIZE ?asked
      @ batch_packets K DEFAULT_PACKET_SIZE ?emptied @ batch_packets K DEFAULT_PACKET_SIZE ?failing) ?p) =
    (Inr [Selected ?asked, Executed ?emptied, Executed ?failing], session_at s [] (((?p @ ?a) @ ?b) @ ?c))"
    using serves_at [OF sqls(3,6) answers(3), where n = DEFAULT_PACKET_SIZE and bs = "[]"]
    by (simp add: serve_def serves_at [OF sqls(1,4) answers(1)] serves_at [OF sqls(2,5) answers(2)] served_at)
  have accepted: "accept K Q (Inr (bytes_reader ?said, quiet_writer, lit ''peer'')) (Some l) () binary =
      Inr (session_at ((new_session (bytes_reader []) quiet_writer (lit ''peer'') () binary)\<lparr>ss_login := new_login7 l (lit ''orders'')\<rparr>)
        (batch_packets K DEFAULT_PACKET_SIZE ?asked @ batch_packets K DEFAULT_PACKET_SIZE ?emptied
          @ batch_packets K DEFAULT_PACKET_SIZE ?failing) ?p)"
    by (rule accepts [OF l]) simp
  have connected: "connect K pid (Inr (bytes_reader (((?p @ ?a) @ ?b) @ ?c), quiet_writer)) (lit ''orders'') l =
      Inr (client_at (?a @ ?b @ ?c @ []) (hello K @ login_packets K pid (lit ''orders'') l))"
    using connects [OF l, of pid "?a @ ?b @ ?c @ []"] by simp
  have failed: "says ''208'' (Inl (sql_error (new_message 208 16 invalid)) :: terror + query_result)"
    "\<not> retries (sql_error (new_message 208 16 invalid))"
  proof -
    have "dec_int 208 = lit ''208''" by (simp add: dec_int_def dec_nat.simps lit_def)
    then have "sql_error (new_message 208 16 invalid) =
        Permanent (lit ''the server answered '' @ lit ''208'' @ lit '': '' @ invalid)"
      by (simp add: sql_error_def new_message_def)
    then show "says ''208'' (Inl (sql_error (new_message 208 16 invalid)) :: terror + query_result)"
      "\<not> retries (sql_error (new_message 208 16 invalid))"
      by (simp_all only: says_def error_text_def terror.case sum.sel sum.disc sublist_appendI judged simp_thms)
  qed
  have who: "user s = lit ''xmip''" "database s = lit ''orders''"
    by (simp_all add: s_def answering_def with_table_def as_given user_def database_def l_def)
  have program: "sublist (lit ''SQL Server'') (lit ''Microsoft SQL Server (xmip)'')"
    by (simp add: lit_def sublist_Cons_right)
  show ?thesis
    unfolding a_client_logs_in_queries_executes_and_is_told_of_an_error_def Let_def l_def [symmetric]
      rows_def [symmetric] accepted sum.case setting_up s_def [symmetric] served prod.case
      said_at connected queries_at [OF fits(1) sizes(1)]
    using queries_at [OF fits(3) sizes(3), where bs = "[]"]
    by (simp add: execute_def act_bind_def act_return_def answer_result_def queries_at [OF fits(2) sizes(2)]
        said_at who program failed rows_def close_client_def)
qed

lemma session_test_of_two:
  "without_an_expected_login_any_login_is_taken_and_a_stray_packet_is_refused pid binary K Q"
proof -
  define l where "l = \<lparr>login_user = lit ''anyone'', login_password = lit ''whatever''\<rparr>"
  let ?truncate = "lit ''TRUNCATE TABLE inbox''" and ?stray = "packets K PRELOGIN [] DEFAULT_PACKET_SIZE"
  let ?p = "hello_back K @ token_packets K (welcome_tokens (lit ''orders''))"
    and ?a = "answer_packets K (Complete 0)"
  define s where "s = answering truncates
    ((new_session (bytes_reader []) quiet_writer (lit ''peer'') () binary)\<lparr>ss_login := new_login7 l (lit ''orders'')\<rparr>)"
  have l: "presentable (lit ''orders'') l"
    by (simp add: presentable_def login_fits_def login_strings_def l_def new_login7_def name_fits_def
        utf16_units_def lit_def is_scalar_def)
  have sql: "is_str ?truncate" "length (encode_batch K ?truncate) \<le> max_body K"
    using roomy by (simp_all add: encode_batch_def utf16_length utf16_units_def lit_def is_scalar_def)
  have "take 8 ?truncate = lit ''TRUNCATE''" by (simp add: lit_def)
  then have answer: "answer_batch Q ?truncate s = ((Complete 0, Executed ?truncate), s)"
    by (simp add: answer_batch_def s_def answering_def new_session_def truncates_def Let_def)
  have fits: "answer_fits (Complete 0)" "length (encode_tokens K (answer_tokens (Complete 0))) \<le> max_body K"
    using roomy by (simp_all add: answer_fits_def answer_tokens_def encode_tokens_bytes token_bytes_simps)
  have strayed: "fst (next_event K Q (session_at s ?stray out)) =
      Inl (Protocol (lit ''packet type '' @ hex04 PRELOGIN @ lit '' '' @ lit ''after the login''))"
    "ss_writer (snd (next_event K Q (session_at s ?stray out))) = quiet_writer\<lparr>sent := out\<rparr>" for out
  proof -
    have "is_packet_type PRELOGIN" "incoming (bytes_reader ?stray) = ?stray @ []"
      by (simp_all add: is_packet_type_def bytes_reader_def)
    then have "read_message K (bytes_reader ?stray) = (Inr (Some (PRELOGIN, [])), (bytes_reader ?stray)\<lparr>incoming := []\<rparr>)"
      by (intro reader_message [OF byte_writer_axioms body_ceiling_axioms]) simp_all
    then show "fst (next_event K Q (session_at s ?stray out)) =
        Inl (Protocol (lit ''packet type '' @ hex04 PRELOGIN @ lit '' '' @ lit ''after the login''))"
      "ss_writer (snd (next_event K Q (session_at s ?stray out))) = quiet_writer\<lparr>sent := out\<rparr>"
      by (simp_all add: next_event_def session_at_def) (simp add: lit_def)
  qed
  have accepted: "accept K Q (Inr (bytes_reader (hello K @ login_packets K pid (lit ''orders'') l
        @ batch_packets K DEFAULT_PACKET_SIZE ?truncate @ ?stray), quiet_writer, lit ''peer'')) None () binary =
      Inr (session_at ((new_session (bytes_reader []) quiet_writer (lit ''peer'') () binary)\<lparr>ss_login := new_login7 l (lit ''orders'')\<rparr>)
        (batch_packets K DEFAULT_PACKET_SIZE ?truncate @ ?stray) ?p)"
    by (rule accepts [OF l]) simp
  have connected: "connect K pid (Inr (bytes_reader (hello_back K @ token_packets K (welcome_tokens (lit ''orders'')) @ ?a),
        quiet_writer)) (lit ''orders'') l =
      Inr (client_at ?a (hello K @ login_packets K pid (lit ''orders'') l))"
    by (rule connects [OF l])
  have after: "sublist (lit ''after the login'') (lit ''packet type '' @ hex04 18 @ lit '' '' @ lit ''after the login'')"
    using sublist_appendI [of "lit ''after the login''" "lit ''packet type '' @ hex04 18 @ lit '' ''" "[]"] by simp
  have who: "user s = lit ''anyone''" "login_password (l7_login (session_login s)) = lit ''whatever''"
    "l7_app_name (session_login s) = lit ''xmip''"
    by (simp_all add: s_def answering_def user_def session_login_def l_def new_login7_def)
  show ?thesis
    unfolding without_an_expected_login_any_login_is_taken_and_a_stray_packet_is_refused_def Let_def
      l_def [symmetric] accepted sum.case setting_up s_def [symmetric] who
      next_event_at [OF sql answer] prod.case
    using strayed [of "?p @ ?a"] queries_at [OF fits, where bs = "[]"]
    by (simp add: split_beta connected execute_def act_bind_def act_return_def answer_result_def said_at
        write_all_sound close_client_def after says_def error_text_def)
qed

end

interpretation reference_bench_of_two: bench_of_two reference tried_again reference_sql Pair
  by unfold_locales (simp_all add: reference_sql_def, simp_all add: lit_def)

subsection \<open>The tests pass\<close>

text \<open>C31: The tests beside the code hold of the model: with crates that keep their laws, every
  assertion of the tests of packets, batches, pre-logins, logins, columns and tokens is true, to
  the byte where a test spells bytes, and so is every assertion of the tests of the client and
  the session, run against each other and against servers that demand encryption, speak
  something else or do not acknowledge.\<close>

theorem crate_tests_hold:
  fixes Q :: "('h, 'v, 'p, 'y) sql_crate_scheme"
  assumes "bench_of_two K retries Q table"
  shows "a_message_splits_into_packets_and_reads_back_whole K
    \<and> what_is_not_a_message_is_refused retries K
    \<and> text_and_counted_strings_round_trip K
    \<and> a_batch_round_trips_behind_its_headers K
    \<and> headers_that_are_not_headers_are_refused K
    \<and> a_prelogin_round_trips_and_its_table_is_where_the_spec_puts_it K
    \<and> what_is_missing_is_defaulted_and_what_is_wrong_is_refused K
    \<and> a_password_is_obscured_the_way_the_spec_draws_it
    \<and> a_login_round_trips_with_its_table_where_the_spec_puts_it pid K
    \<and> what_is_not_a_login_is_refused pid K
    \<and> every_type_round_trips_with_its_null K
    \<and> what_this_crate_does_not_read_is_refused_by_name K
    \<and> every_token_round_trips K
    \<and> a_null_bitmap_row_reads_by_its_columns K
    \<and> what_is_not_a_token_is_refused K
    \<and> an_error_is_judged_by_its_number retries
    \<and> a_server_that_requires_encryption_or_speaks_nonsense_is_refused retries pid K
    \<and> a_client_logs_in_queries_executes_and_is_told_of_an_error retries pid table binary K Q
    \<and> without_an_expected_login_any_login_is_taken_and_a_stray_packet_is_refused pid binary K Q"
proof -
  have bench: "bench K retries" using assms by (simp add: bench_of_two_def)
  show ?thesis
    by (intro conjI bench.wire_tests [OF bench] bench.batch_tests [OF bench] bench.prelogin_tests [OF bench]
        bench.login_tests [OF bench] bench.column_tests [OF bench] bench.token_tests [OF bench]
        bench.client_test [OF bench] bench.connecting_tests [OF bench]
        bench_of_two.client_test_of_two [OF assms] bench_of_two.session_test_of_two [OF assms])
qed

theorem crate_tests_hold_witness:
  "every_token_round_trips reference \<and> every_type_round_trips_with_its_null reference
    \<and> a_client_logs_in_queries_executes_and_is_told_of_an_error tried_again 4711 Pair () reference reference_sql
    \<and> without_an_expected_login_any_login_is_taken_and_a_stray_packet_is_refused 4711 () reference reference_sql"
  using crate_tests_hold [OF reference_bench_of_two.bench_of_two_axioms, of 4711 "()"] by blast

end
