(* ===== verification/Inserts.thy ===== *)
theory Inserts
  imports Session
begin

text \<open>
  What the transport's far end takes: the first value a client inserts, everything before it
  answered on the way. The loop is the transport capability's \<^verbatim>\<open>sql::next_insert\<close>, stated by
  what it does with one event; it is only relied on to go on where an event took bytes off the
  connection, which every event of a session does.
\<close>

locale insert_taker =
  fixes first_insert :: "('k, 'h, 'p) insert_loop"
  assumes fails: "ev s = (Inl e, t) \<Longrightarrow> first_insert f ev s = (Inl e, t)"
    and closes: "ev s = (Inr None, t) \<Longrightarrow> first_insert f ev s = (Inr None, t)"
    and takes: "ev s = (Inr (Some x), t) \<Longrightarrow> f x = Some y \<Longrightarrow> first_insert f ev s = (Inr (Some y), t)"
    and passes: "ev s = (Inr (Some x), t) \<Longrightarrow> f x = None \<Longrightarrow>
      length (incoming (ss_reader t)) < length (incoming (ss_reader s)) \<Longrightarrow>
      first_insert f ev s = first_insert f ev t"

text \<open>A loop that keeps the laws, for the witnesses; it gives up where an event took nothing.\<close>

function reference_first_insert :: "('k, 'h, 'p) insert_loop" where
  "reference_first_insert f ev s = (case ev s of
       (Inl e, t) \<Rightarrow> (Inl e, t)
     | (Inr None, t) \<Rightarrow> (Inr None, t)
     | (Inr (Some x), t) \<Rightarrow> (case f x of
         Some y \<Rightarrow> (Inr (Some y), t)
       | None \<Rightarrow> if length (incoming (ss_reader t)) < length (incoming (ss_reader s))
           then reference_first_insert f ev t else (Inr None, t)))"
  by pat_completeness auto
termination
  by (relation "measure (\<lambda>(f, ev, s). length (incoming (ss_reader s)))") auto

declare reference_first_insert.simps [simp del]

interpretation reference_inserts: insert_taker reference_first_insert
  by unfold_locales (simp_all add: reference_first_insert.simps)

text \<open>The first insert among the replies, and the replies up to it.\<close>

fun taken_of :: "(answer \<times> 'p event) list \<Rightarrow> (str \<times> 'p) option \<times> (answer \<times> 'p event) list" where
  "taken_of [] = (None, [])"
| "taken_of (x # xs) = (case inserted (snd x) of
       Some y \<Rightarrow> (Some y, [x])
     | None \<Rightarrow> (case taken_of xs of (r, ys) \<Rightarrow> (r, x # ys)))"

text \<open>A session that reads nothing it has not been sent, up to its reader and writer.\<close>

context insert_taker
begin

lemma taken_in_order:
  assumes "codec K" and "body_ceiling K"
    and "list_all (\<lambda>sql. is_str sql \<and> length (encode_batch K sql) \<le> max_body K) sqls"
    and "sound (ss_writer s)" and "ending (ss_reader s) = Closed"
    and "incoming (ss_reader s) = concat (map (batch_packets K n) sqls)"
  shows "\<exists>t. next_insert K Q first_insert s = (Inr (fst (taken_of (replies Q sqls s))), t) \<and>
    sent (ss_writer t) = sent (ss_writer s)
      @ concat (map (\<lambda>x. answer_packets K (fst x)) (snd (taken_of (replies Q sqls s)))) \<and>
    incoming (ss_reader t) =
      concat (map (batch_packets K n) (drop (length (snd (taken_of (replies Q sqls s)))) sqls))"
  using assms(3-)
proof (induction sqls arbitrary: s)
  case Nil
  then have "read_message K (ss_reader s) = (Inr None, ss_reader s)"
    by (simp add: read_message_def read_packets.simps [of K] read1_def)
  with Nil.prems(4) closes show ?case by (simp add: next_insert_def next_event_def)
next
  case (Cons sql sqls)
  obtain a ev s1 where a: "answer_batch Q sql s = ((a, ev), s1)"
    by (metis surj_pair)
  define s2 where "s2 = s1\<lparr>ss_reader := (ss_reader s)
      \<lparr>incoming := concat (map (batch_packets K n) sqls)\<rparr>,
    ss_writer := (ss_writer s)\<lparr>sent := sent (ss_writer s) @ answer_packets K a\<rparr>\<rparr>"
  have "incoming (ss_reader s) =
      packets K SQL_BATCH (encode_batch K sql) n @ concat (map (batch_packets K n) sqls)"
    using Cons.prems(4) by (simp add: batch_packets_def [of K n sql])
  from next_event_batch [OF assms(1,2) _ _ _ this a] Cons.prems
  have event: "next_event K Q s = (Inr (Some ev), s2)"
    by (simp add: s2_def answer_packets_def)
  have same: "replies Q sqls s2 = replies Q sqls s1"
    unfolding s2_def by (rule replies_io)
  show ?case
  proof (cases "inserted ev")
    case (Some y)
    with takes [of "next_event K Q" s ev s2 inserted, OF event] show ?thesis
      by (simp add: next_insert_def a) (simp add: s2_def)
  next
    case None
    have "next_insert K Q first_insert s = next_insert K Q first_insert s2"
      using passes [of "next_event K Q" s ev s2 inserted, OF event None next_event_takes [OF event]]
      by (simp add: next_insert_def)
    moreover have "\<exists>t. next_insert K Q first_insert s2 = (Inr (fst (taken_of (replies Q sqls s2))), t) \<and>
      sent (ss_writer t) = sent (ss_writer s2)
        @ concat (map (\<lambda>x. answer_packets K (fst x)) (snd (taken_of (replies Q sqls s2)))) \<and>
      incoming (ss_reader t) =
        concat (map (batch_packets K n) (drop (length (snd (taken_of (replies Q sqls s2)))) sqls))"
      by (rule Cons.IH) (use Cons.prems in \<open>simp_all add: s2_def\<close>)
    ultimately show ?thesis
      using None by (auto simp: a same split_beta) (simp add: s2_def)
  qed
qed

end

text \<open>C18: The next insert of a session is the first value the client inserted, with where it was
  inserted; every statement before it and the insert itself have been answered, in order, and
  what the client sent after it is still to be read. A client that inserts nothing gives nothing.\<close>

theorem next_insert_takes_first:
  assumes "insert_taker first_insert" and "codec K" and "body_ceiling K"
    and "list_all (\<lambda>sql. is_str sql \<and> length (encode_batch K sql) \<le> max_body K) sqls"
    and "sound (ss_writer s)" and "ending (ss_reader s) = Closed"
    and "incoming (ss_reader s) = concat (map (batch_packets K n) sqls)"
    and "taken_of (replies Q sqls s) = (taken, answered)"
  shows "\<exists>t. next_insert K Q first_insert s = (Inr taken, t) \<and>
    sent (ss_writer t) = sent (ss_writer s) @ concat (map (\<lambda>x. answer_packets K (fst x)) answered) \<and>
    incoming (ss_reader t) = concat (map (batch_packets K n) (drop (length answered) sqls))"
  using insert_taker.taken_in_order [OF assms(1-7), of Q] assms(8) by simp

theorem next_insert_takes_first_witness:
  "fst (next_insert reference reference_sql reference_first_insert (idle_session
     (concat (map (batch_packets reference 512)
       [lit ''SELECT 1'', lit ''INSERT INTO [t] ([c]) VALUES (0x0AFF)'', lit ''DELETE FROM t''])))) =
   Inr (Some (lit ''mssql://peer//t/c'', [0x0A, 0xFF]))"
proof -
  let ?sqls = "[lit ''SELECT 1'', lit ''INSERT INTO [t] ([c]) VALUES (0x0AFF)'', lit ''DELETE FROM t'']"
  have "taken_of (replies reference_sql ?sqls (idle_session bs)) =
      (Some (lit ''mssql://peer//t/c'', [0x0A, 0xFF]),
       [(Rows [] [], Selected (lit ''SELECT 1'')),
        (Complete 1, Inserted (lit ''mssql://peer//t/c'') [0x0A, 0xFF])])" for bs
    by code_simp
  moreover have "length (encode_batch reference s) = 22 + 2 * utf16_units s" for s
    by (simp add: encode_batch_def reference_laws(3) [THEN text_forms.utf16_length])
  ultimately show ?thesis
    using next_insert_takes_first [OF reference_inserts.insert_taker_axioms reference_laws(4,5), of ?sqls
        "idle_session (concat (map (batch_packets reference 512) ?sqls))" 512 reference_sql]
    by auto
qed

end
