(* ===== verification/Pool.thy ===== *)
theory Pool
  imports Transport
begin

text \<open>
  The connections a transport keeps. The pool is the transport capability's, the locale \<open>pool\<close>
  what this crate relies on it for: a connection kept after an exchange was kept before, or is
  the one the step ran on, and it is kept under the exchange's key. \<open>operated\<close> is the states
  the operations of a transport, in any order, with any servers behind them, bring it to;
  \<open>reaches\<close> says which sockets lead to which server, and a dial gives one that leads to the server
  it was asked for.
\<close>

locale pool =
  fixes C :: "('h, 'r, 'c, 's, 'verdict, 'arrived) capability"
    and kept :: "'s \<Rightarrow> 'c \<Rightarrow> str \<Rightarrow> client \<Rightarrow> bool"
  assumes unit_keeps: "exchange_unit C p key conn step s = (x, s') \<Longrightarrow> kept s' q k c \<Longrightarrow>
      kept s q k c \<or> k = key \<and> (\<exists>c0. (kept s p key c0 \<or> conn = Inr c0) \<and> c = snd (step c0))"
    and query_keeps: "exchange_query C p key conn ask s = (y, s') \<Longrightarrow> kept s' q k c \<Longrightarrow>
      kept s q k c \<or> k = key \<and> (\<exists>c0. (kept s p key c0 \<or> conn = Inr c0) \<and> c = snd (ask c0))"
    and arrivals_keep: "arrivals C rows refused origin name bytes verdict s = (z, s') \<Longrightarrow>
      kept s' q k c \<Longrightarrow> kept s q k c"
    and unit_runs: "exchange_unit C p key conn step s = (x, s') \<Longrightarrow> \<forall>c0. \<not> kept s p key c0 \<Longrightarrow>
      x = (case conn of Inl e \<Rightarrow> Inl e | Inr c0 \<Rightarrow> fst (step c0))"
    and query_runs: "exchange_query C p key conn ask s = (y, s') \<Longrightarrow> \<forall>c0. \<not> kept s p key c0 \<Longrightarrow>
      y = (case conn of Inl e \<Rightarrow> Inl e | Inr c0 \<Rightarrow> fst (ask c0))"

text \<open>A server's name holds no slash, and a target on such a server names one.\<close>

definition plain_server :: "str \<Rightarrow> bool" where
  "plain_server server \<longleftrightarrow> 47 \<notin> set server"

locale addresses =
  fixes C :: "('h, 'r, 'c, 's, 'verdict, 'arrived) capability"
  assumes destination_plain: "destination C schemes target server db = Inr d \<Longrightarrow>
      plain_server server \<Longrightarrow> plain_server (to_server d)"

text \<open>A key names its server and database.\<close>

lemma pool_key_names:
  assumes "plain_server server" and "plain_server server'"
    and "pool_key server db = pool_key server' db'"
  shows "server = server' \<and> db = db'"
proof -
  have "takeWhile (\<lambda>c. c \<noteq> 47) (pool_key server db) = server" if "plain_server server" for server db
    using that by (induction server) (simp_all add: pool_key_def plain_server_def lit_def)
  from this [OF assms(1)] this [OF assms(2)] assms(3) have "server = server'" by metis
  with assms(3) show ?thesis by (simp add: pool_key_def)
qed

subsection \<open>A connection after its batches\<close>

inductive used :: "'z externals_scheme \<Rightarrow> client \<Rightarrow> client \<Rightarrow> bool" for K c0 where
  fresh: "used K c0 c0"
| asked: "used K c0 c \<Longrightarrow> used K c0 (snd (query K sql c))"

lemma run_statement_asks: "snd (run_statement K sql c) = snd (query K sql c)"
  by (cases "query K sql c") (auto simp: run_statement_def execute_def act_bind_def split: sum.split)

lemma run_statement_result:
  "fst (run_statement K sql c) = (case fst (query K sql c) of Inl e \<Rightarrow> Inl e | Inr _ \<Rightarrow> Inr ())"
  by (cases "query K sql c") (auto simp: run_statement_def execute_def act_bind_def split: sum.split)

text \<open>What it is to be logged in to a database of a server, on a socket that leads to that server, as
  a transport does.\<close>

type_synonym leading = "str \<Rightarrow> reader \<Rightarrow> writer \<Rightarrow> bool"

definition dials_truly :: "leading \<Rightarrow> 'd dialling \<Rightarrow> bool" where
  "dials_truly reaches dial \<longleftrightarrow> (\<forall>server timeout r w. dial server timeout = Inr (r, w) \<longrightarrow> reaches server r w)"

definition logged_in ::
    "'z externals_scheme \<Rightarrow> 32 word \<Rightarrow> leading \<Rightarrow> ('h, 'd, 'r, 'c) mssql_transport \<Rightarrow> str \<Rightarrow> str \<Rightarrow> client \<Rightarrow> bool" where
  "logged_in K pid reaches t server db c \<longleftrightarrow>
     (\<exists>r w c0. reaches server r w \<and> connect K pid (Inr (r, w)) db (transport_login t) = Inr c0 \<and> used K c0 c)"

lemma logged_in_dialled:
  assumes "dials_truly reaches dial" and "connect_to K pid dial t' server db = Inr c"
    and "transport_login t' = transport_login t"
  shows "logged_in K pid reaches t server db c"
proof -
  obtain r w where opened: "dial server (tr_timeout t') = Inr (r, w)"
    using assms(2) by (auto simp: connect_to_def connect_def and_then_eq_Inr)
  then have "connect K pid (Inr (r, w)) db (transport_login t) = Inr c"
    using assms(2,3) by (simp add: connect_to_def)
  moreover have "reaches server r w"
    using assms(1) opened by (simp add: dials_truly_def)
  ultimately show ?thesis unfolding logged_in_def using used.fresh by blast
qed

subsection \<open>A transport at work\<close>

inductive operated ::
    "'z externals_scheme \<Rightarrow> 32 word \<Rightarrow> leading \<Rightarrow> ('h, 'r, 'c, 's, 'verdict, 'arrived) capability
       \<Rightarrow> ('h, 'd, 'r, 'c) mssql_transport \<Rightarrow> 's \<Rightarrow> 's \<Rightarrow> bool"
  for K pid reaches C t s0 where
  idle: "operated K pid reaches C t s0 s0"
| sent_one: "operated K pid reaches C t s0 s \<Longrightarrow> dials_truly reaches dial \<Longrightarrow>
    operated K pid reaches C t s0 (snd (send K pid dial C t target bytes s))"
| sent_elsewhere: "operated K pid reaches C t s0 s \<Longrightarrow> dials_truly reaches dial \<Longrightarrow> plain_server address \<Longrightarrow>
    operated K pid reaches C t s0 (snd (send_to K pid dial C t address payload s))"
| received: "operated K pid reaches C t s0 s \<Longrightarrow> dials_truly reaches dial \<Longrightarrow>
    operated K pid reaches C t s0 (snd (receive K pid dial C t s))"
| row_accepted: "operated K pid reaches C t s0 s \<Longrightarrow> dials_truly reaches dial \<Longrightarrow>
    operated K pid reaches C t s0 (snd (run_accept K pid dial C (clone_transport C t) sql s))"

text \<open>Every kept connection is logged in where its key says.\<close>

definition well_kept ::
    "'z externals_scheme \<Rightarrow> 32 word \<Rightarrow> leading \<Rightarrow> ('h, 'd, 'r, 'c) mssql_transport
       \<Rightarrow> ('s \<Rightarrow> 'c \<Rightarrow> str \<Rightarrow> client \<Rightarrow> bool) \<Rightarrow> 's \<Rightarrow> bool" where
  "well_kept K pid reaches t kept s \<longleftrightarrow> (\<forall>q k c. kept s q k c \<longrightarrow>
     (\<exists>server db. plain_server server \<and> k = pool_key server db \<and> logged_in K pid reaches t server db c))"

lemma well_keptD:
  assumes "well_kept K pid reaches t kept s" and "kept s q (pool_key server db) c" and "plain_server server"
  shows "logged_in K pid reaches t server db c"
  using assms pool_key_names unfolding well_kept_def by metis

text \<open>An exchange under the key of a server and a database, whose step asks one statement.\<close>

lemma exchange_well_kept:
  assumes "well_kept K pid reaches t kept s" and "plain_server server"
    and "\<And>q k c. kept s' q k c \<Longrightarrow> kept s q k c \<or> k = pool_key server db \<and>
      (\<exists>c0. (kept s p (pool_key server db) c0 \<or> connect_to K pid dial t' server db = Inr c0)
        \<and> c = snd (query K sql c0))"
    and "transport_login t' = transport_login t" and "dials_truly reaches dial"
  shows "well_kept K pid reaches t kept s'"
  unfolding well_kept_def
proof (intro allI impI)
  fix q k c assume "kept s' q k c"
  from assms(3) [OF this] show "\<exists>server db. plain_server server \<and> k = pool_key server db
      \<and> logged_in K pid reaches t server db c"
  proof
    assume "kept s q k c"
    with assms(1) show ?thesis by (simp add: well_kept_def)
  next
    assume "k = pool_key server db \<and> (\<exists>c0. (kept s p (pool_key server db) c0
      \<or> connect_to K pid dial t' server db = Inr c0) \<and> c = snd (query K sql c0))"
    then obtain c0 where c0: "k = pool_key server db" "c = snd (query K sql c0)"
      "kept s p (pool_key server db) c0 \<or> connect_to K pid dial t' server db = Inr c0"
      by blast
    from c0(3) have "logged_in K pid reaches t server db c0"
    proof
      assume "connect_to K pid dial t' server db = Inr c0"
      then show ?thesis by (rule logged_in_dialled [OF assms(5) _ assms(4)])
    qed (rule well_keptD [OF assms(1) _ assms(2)])
    then have "logged_in K pid reaches t server db c"
      unfolding logged_in_def c0(2) using used.asked by blast
    with c0(1) assms(2) show ?thesis by blast
  qed
qed


text \<open>What the operations of a transport have of its login, and of a clone's.\<close>

lemma login_of_clones:
  "transport_login (clone_transport C t) = transport_login t"
  "tr_server (clone_transport C t) = tr_server t"
  "transport_login (t\<lparr>tr_server := a\<rparr>) = transport_login t"
  by (simp_all add: transport_login_def clone_transport_def)

text \<open>Each operation keeps the pool well, its own server plain.\<close>

lemma send_well_kept:
  assumes "pool C kept" and "addresses C" and "well_kept K pid reaches t kept s"
    and "plain_server (tr_server t')" and "transport_login t' = transport_login t"
    and "dials_truly reaches dial"
  shows "well_kept K pid reaches t kept (snd (send K pid dial C t' target bytes s))"
proof (cases "destination C SCHEMES target (tr_server t') (tr_database t')")
  case (Inr d)
  note d = this
  show ?thesis
  proof (cases "literal C (tr_column t') bytes")
    case (Inr l)
    define s' where "s' = snd (send K pid dial C t' target bytes s)"
    obtain x where x: "exchange_unit C (tr_connections t') (pool_key (to_server d) (to_database d))
        (connect_to K pid dial t' (to_server d) (to_database d))
        (run_statement K (insert_statement C (to_table d) (to_column d) l)) s = (x, s')"
      by (simp add: s'_def send_def d Inr prod_eq_iff)
    note plain = addresses.destination_plain [OF assms(2) d assms(4)]
    show ?thesis
      unfolding s'_def [symmetric]
      by (rule exchange_well_kept [OF assms(3) plain _ assms(5,6)])
        (use pool.unit_keeps [OF assms(1) x] in \<open>simp add: run_statement_asks\<close>)
  qed (use assms(3) d in \<open>simp add: send_def\<close>)
qed (use assms(3) in \<open>simp add: send_def\<close>)

lemma accept_well_kept:
  assumes "pool C kept" and "well_kept K pid reaches t kept s"
    and "plain_server (tr_server t')" and "transport_login t' = transport_login t"
    and "dials_truly reaches dial"
  shows "well_kept K pid reaches t kept (snd (run_accept K pid dial C t' sql s))"
proof -
  define s' where "s' = snd (run_accept K pid dial C t' sql s)"
  obtain x where x: "exchange_unit C (tr_connections t') (pool_key (tr_server t') (tr_database t'))
      (connect_to K pid dial t' (tr_server t') (tr_database t')) (run_statement K sql) s = (x, s')"
    by (simp add: s'_def run_accept_def transport_connect_def prod_eq_iff)
  show ?thesis
    unfolding s'_def [symmetric]
    by (rule exchange_well_kept [OF assms(2,3) _ assms(4,5)])
      (use pool.unit_keeps [OF assms(1) x] in \<open>simp add: run_statement_asks\<close>)
qed

lemma receive_well_kept:
  assumes "pool C kept" and "well_kept K pid reaches t kept s" and "plain_server (tr_server t)"
    and "dials_truly reaches dial"
  shows "well_kept K pid reaches t kept (snd (receive K pid dial C t s))"
proof -
  obtain y s1 where y: "exchange_query C (tr_connections t) (pool_key (tr_server t) (tr_database t))
      (connect_to K pid dial t (tr_server t) (tr_database t)) (query K (tr_query t)) s = (y, s1)"
    by fastforce
  have s1: "well_kept K pid reaches t kept s1"
    by (rule exchange_well_kept [OF assms(2,3) pool.query_keeps [OF assms(1) y] refl assms(4)])
  have "well_kept K pid reaches t kept s'" if "arrivals C rows m n i b v s1 = (z, s')" for rows m n i b v z s'
    unfolding well_kept_def
  proof (intro allI impI)
    fix q k c assume "kept s' q k c"
    from pool.arrivals_keep [OF assms(1) that this] s1
    show "\<exists>server db. plain_server server \<and> k = pool_key server db \<and> logged_in K pid reaches t server db c"
      by (simp add: well_kept_def)
  qed
  with s1 y show ?thesis
    by (cases y) (auto simp: receive_def act_bind_def transport_connect_def Let_def split: prod.split,
      metis prod.collapse)
qed

subsection \<open>A transport capability\<close>

text \<open>
  One that keeps the laws, for the witnesses: one pool, a connection kept under its key while its
  steps succeed, a target that is a table and a column,
  columns that hold bytes, a row that is its name and its value.
\<close>

definition reference_exchange ::
    "unit \<Rightarrow> str \<Rightarrow> terror + client \<Rightarrow> (client, 'a) act \<Rightarrow> (str \<Rightarrow> client option, 'a) act" where
  "reference_exchange p key conn step s =
     (case (case s key of Some c \<Rightarrow> Inr c | None \<Rightarrow> conn) of
        Inl e \<Rightarrow> (Inl e, s)
      | Inr c \<Rightarrow> (case step c of
          (Inl e, _) \<Rightarrow> (Inl e, s(key := None))
        | (Inr x, c) \<Rightarrow> (Inr x, s(key := Some c))))"

fun reference_arrived ::
    "str option list list \<Rightarrow> (str \<Rightarrow> str) \<Rightarrow> (str \<Rightarrow> str) \<Rightarrow> (str \<Rightarrow> terror + byte list)
       \<Rightarrow> terror + (str \<times> byte list) list" where
  "reference_arrived [] origin value bytes = Inr []"
| "reference_arrived (row # rows) origin value bytes = (case (row, last row) of
       (Some name # _, cell) \<Rightarrow> and_then (case cell of None \<Rightarrow> Inr [] | Some x \<Rightarrow> bytes (value x)) (\<lambda>b.
         and_then (reference_arrived rows origin value bytes) (\<lambda>more. Inr ((origin name, b) # more)))
     | _ \<Rightarrow> reference_arrived rows origin value bytes)"

text \<open>A target in pieces: a table and a column, or a server and a database before them, which is what
  a target with a scheme names.\<close>

fun pieces :: "str \<Rightarrow> str list" where
  "pieces [] = [[]]"
| "pieces (c # s) = (if c = 47 then [] # pieces s
     else (case pieces s of p # ps \<Rightarrow> (c # p) # ps | [] \<Rightarrow> [[c]]))"

definition bares :: "str list \<Rightarrow> str \<Rightarrow> str list" where
  "bares schemes target = List.map_filter (\<lambda>scheme.
     if take (length scheme + 3) target = scheme @ lit ''://'' then Some (drop (length scheme + 3) target) else None) schemes"

definition in_full :: "str list \<Rightarrow> terror + dest" where
  "in_full ps = (case ps of
     [a, d, t, c] \<Rightarrow> Inr \<lparr>to_server = a, to_database = d, to_table = t, to_column = c\<rparr>
   | _ \<Rightarrow> Inl (Permanent (lit ''not a table and a column'')))"

definition reference_destination :: "str list \<Rightarrow> str \<Rightarrow> str \<Rightarrow> str \<Rightarrow> terror + dest" where
  "reference_destination schemes target server db = (case bares schemes target of
     bare # _ \<Rightarrow> in_full (pieces bare)
   | [] \<Rightarrow> (case pieces target of
       [t, c] \<Rightarrow> Inr \<lparr>to_server = server, to_database = db, to_table = t, to_column = c\<rparr>
     | ps \<Rightarrow> in_full ps))"

lemma pieces_cut [simp]: "47 \<notin> set p \<Longrightarrow> pieces p = [p]"
  "47 \<notin> set p \<Longrightarrow> pieces (p @ 47 # s) = p # pieces s"
  by (induction p) auto

lemma pieces_plain: "p \<in> set (pieces s) \<Longrightarrow> 47 \<notin> set p"
  by (induction s arbitrary: p) (auto split: if_splits list.splits)

lemma bares_none: "58 \<notin> set target \<Longrightarrow> bares schemes target = []"
proof -
  assume "58 \<notin> set target"
  then have "take n target \<noteq> scheme @ lit ''://''" for n scheme
    by (auto simp: lit_def dest!: arg_cong [where f = set] in_set_takeD [of 58])
  then show ?thesis by (induction schemes) (simp_all add: bares_def List.map_filter_simps)
qed

lemma reference_destination_table:
  assumes "47 \<notin> set t" and "58 \<notin> set t" and "47 \<notin> set c" and "58 \<notin> set c"
  shows "reference_destination schemes (t @ 47 # c) server db =
    Inr \<lparr>to_server = server, to_database = db, to_table = t, to_column = c\<rparr>"
  using assms by (simp add: reference_destination_def bares_none)

lemma reference_destination_inbox [simp]:
  "reference_destination schemes (lit ''inbox/payload'') server db =
    Inr \<lparr>to_server = server, to_database = db, to_table = lit ''inbox'', to_column = lit ''payload''\<rparr>"
  using reference_destination_table [of "lit ''inbox''" "lit ''payload''" schemes server db] by (simp add: lit_def)

definition reference_capability ::
    "(unit, unit, unit, str \<Rightarrow> client option, unit, str \<times> byte list) capability" where
  "reference_capability = \<lparr>
     destination = reference_destination,
     literal = (\<lambda>_ bytes. Inr (quote_hex bytes)),
     bytes_in = (\<lambda>_ s. case unquote_hex s of Some b \<Rightarrow> Inr b | None \<Rightarrow> Inl (Protocol [])),
     insert_statement = (\<lambda>t c l. lit ''INSERT INTO ['' @ t @ lit ''] (['' @ c @ lit '']) VALUES ('' @ l @ lit '')''),
     clone_pool = (\<lambda>p. p),
     exchange_query = reference_exchange,
     exchange_unit = reference_exchange,
     accepting = (\<lambda>_ _ _. ()),
     arrivals = (\<lambda>rows _ origin value bytes _ s. (reference_arrived rows origin value bytes, s))\<rparr>"

definition reference_kept :: "(str \<Rightarrow> client option) \<Rightarrow> unit \<Rightarrow> str \<Rightarrow> client \<Rightarrow> bool" where
  "reference_kept s q k c \<longleftrightarrow> s k = Some c"

lemma reference_exchange_keeps:
  "reference_exchange p key conn step s = (x, s') \<Longrightarrow> reference_kept s' q k c \<Longrightarrow>
     reference_kept s q k c \<or>
     k = key \<and> (\<exists>c0. (reference_kept s p key c0 \<or> conn = Inr c0) \<and> c = snd (step c0))"
  by (auto simp: reference_exchange_def reference_kept_def split: option.splits sum.splits
      prod.splits if_splits)

lemma reference_exchange_fresh:
  "step c = (Inr x, d) \<Longrightarrow> reference_exchange p key (Inr c) step Map.empty = (Inr x, [key \<mapsto> d])"
  by (simp add: reference_exchange_def)

lemma reference_exchange_runs:
  "reference_exchange p key conn step s = (x, s') \<Longrightarrow> \<forall>c0. \<not> reference_kept s p key c0 \<Longrightarrow>
     x = (case conn of Inl e \<Rightarrow> Inl e | Inr c0 \<Rightarrow> fst (step c0))"
  by (cases "s key") (auto simp: reference_exchange_def reference_kept_def split: sum.splits prod.splits)

interpretation reference_pool: pool reference_capability reference_kept
  by unfold_locales (auto simp: reference_capability_def dest: reference_exchange_keeps reference_exchange_runs)

lemma in_full_server: "in_full ps = Inr d \<Longrightarrow> to_server d \<in> set ps"
  by (auto simp: in_full_def split: list.splits)

lemma reference_destination_plain:
  assumes "reference_destination schemes target server db = Inr d" and "plain_server server"
  shows "plain_server (to_server d)"
proof -
  have full: "plain_server (to_server d)" if "in_full (pieces s) = Inr d" for s
    using in_full_server [OF that] pieces_plain unfolding plain_server_def by blast
  show ?thesis
  proof (cases "bares schemes target")
    case Nil
    then have "to_server d = server \<or> in_full (pieces target) = Inr d"
      using assms(1) by (auto simp: reference_destination_def split: list.splits)
    then show ?thesis using full assms(2) by auto
  qed (use assms(1) full in \<open>simp add: reference_destination_def\<close>)
qed

interpretation reference_addresses: addresses reference_capability
  by unfold_locales (simp add: reference_capability_def reference_destination_plain)

subsection \<open>Properties\<close>

text \<open>C7: Whatever a transport sent, received and accepted, in whatever order and whatever the
  servers answered, a connection it keeps under the key of a server and a database was opened on a
  socket that leads to that server, was logged in there to that database with this transport's
  login, and was only asked statements since. So the connection an exchange finds under its key
  leads to the exchange's own server and database.\<close>

theorem kept_connections_named:
  assumes "pool C kept" and "addresses C" and "plain_server (tr_server t)"
    and "operated K pid reaches C t s0 s" and "\<forall>q k c. \<not> kept s0 q k c"
    and "kept s q (pool_key server db) c" and "plain_server server"
  shows "logged_in K pid reaches t server db c"
proof -
  have "well_kept K pid reaches t kept s"
    using assms(4)
  proof induction
    case idle
    then show ?case using assms(5) by (simp add: well_kept_def)
  next
    case (sent_one s dial target bytes)
    then show ?case by (intro send_well_kept assms(1-3) refl)
  next
    case (sent_elsewhere s dial address payload)
    then show ?case
      unfolding send_to_def by (intro send_well_kept assms(1,2)) (simp_all add: login_of_clones)
  next
    case (received s dial)
    then show ?case by (intro receive_well_kept assms(1,3))
  next
    case (row_accepted s dial sql)
    then show ?case
      using assms(3) by (intro accept_well_kept assms(1)) (simp_all add: login_of_clones)
  qed
  from well_keptD [OF this assms(6,7)] show ?thesis .
qed


text \<open>A transport, and a server that logs it in and answers one statement.\<close>

definition sample_transport :: "(unit, unit, unit, unit) mssql_transport" where
  "sample_transport = with_password (lit ''secret'')
     (new_transport \<lparr>binary_column = (), nothing_refused = (), new_pool = ()\<rparr>
       (lit ''sql:1433'') (lit ''orders'') (lit ''xmip''))"

definition sample_server :: reader where
  "sample_server = \<lparr>incoming =
     packets reference TABULAR_RESULT (encode_prelogin default_prelogin) 4096
     @ packets reference TABULAR_RESULT (encode_tokens reference [LoginAck TDS_7_4 (lit ''SQL'')]) 4096
     @ packets reference TABULAR_RESULT (encode_tokens reference [Done DONE_COUNT 1]) 4096 @ [],
     ending = Closed\<rparr>"

text \<open>The sockets of the sample lead to one server only.\<close>

definition sample_reaches :: leading where
  "sample_reaches server r w \<longleftrightarrow> server = lit ''sql:1433'' \<and> r = sample_server \<and> w = quiet_writer"

definition sample_dial :: "unit dialling" where
  "sample_dial server timeout =
     (if server = lit ''sql:1433'' then Inr (sample_server, quiet_writer) else Inl (Protocol []))"

lemma sample_send:
  "\<exists>c. snd (send reference 7 sample_dial reference_capability
      sample_transport (lit ''inbox/payload'') [1] Map.empty) =
    [pool_key (lit ''sql:1433'') (lit ''orders'') \<mapsto> c]"
proof -
  obtain c where c: "connect_to reference 7 sample_dial sample_transport (lit ''sql:1433'') (lit ''orders'') = Inr c"
    "incoming (cl_reader c) =
      packets reference TABULAR_RESULT (encode_tokens reference [Done DONE_COUNT 1]) 4096 @ []"
    "sound (cl_writer c)"
    using connect_answered [OF reference_laws(4,5) quiet_writer_sound(1) greeting_facts(1-5),
        of sample_server 4096 4096 _ 7 "lit ''orders''" "transport_login sample_transport"]
    unfolding greeting_facts(7) connect_to_def by (simp add: sample_server_def sample_dial_def)
  have fits: "tokens_fit reference [] [Done DONE_COUNT 1]"
    "length (encode_tokens reference [Done DONE_COUNT 1]) \<le> max_body reference"
    by (simp_all add: token_fits_def codec.encode_tokens_bytes [OF reference_laws(4)]
        codec.token_bytes_simps [OF reference_laws(4)])
  have "fst (run_statement reference sql c) = Inr ()" for sql
    using query_answered [OF reference_laws(4,5) c(3) fits c(2), of sql]
    by (simp add: run_statement_result batch_answer_def token_shown_def token_views)
  then have "\<exists>d. run_statement reference sql c = (Inr (), d)" for sql
    by (metis surjective_pairing)
  then have "\<exists>d. reference_exchange () key (Inr c) (run_statement reference sql) Map.empty =
      (Inr (), [key \<mapsto> d])" for key sql
    by (metis (no_types, lifting) reference_exchange_fresh)
  with c(1) show ?thesis
    by (simp add: send_def reference_capability_def sample_transport_def with_password_def
        new_transport_def) (metis snd_conv)
qed

theorem kept_connections_named_witness:
  "\<exists>s c. reference_kept s () (pool_key (lit ''sql:1433'') (lit ''orders'')) c \<and>
     logged_in reference 7 sample_reaches sample_transport (lit ''sql:1433'') (lit ''orders'') c \<and>
     \<not> logged_in reference 7 sample_reaches sample_transport (lit ''other:1433'') (lit ''orders'') c"
proof -
  let ?key = "pool_key (lit ''sql:1433'') (lit ''orders'')"
  obtain c where c: "snd (send reference 7 sample_dial reference_capability
      sample_transport (lit ''inbox/payload'') [1] Map.empty) = [?key \<mapsto> c]"
    using sample_send by blast
  have "dials_truly sample_reaches sample_dial"
    by (simp add: dials_truly_def sample_dial_def sample_reaches_def)
  then have "operated reference 7 sample_reaches reference_capability sample_transport Map.empty [?key \<mapsto> c]"
    unfolding c [symmetric] by (intro operated.intros)
  moreover have "plain_server (lit ''sql:1433'')" "plain_server (tr_server sample_transport)"
    by (simp_all add: plain_server_def lit_def sample_transport_def with_password_def new_transport_def)
  moreover have "\<forall>q k c. \<not> reference_kept Map.empty q k c" "reference_kept [?key \<mapsto> c] () ?key c"
    by (simp_all add: reference_kept_def)
  ultimately have "logged_in reference 7 sample_reaches sample_transport (lit ''sql:1433'') (lit ''orders'') c"
    using kept_connections_named [OF reference_pool.pool_axioms reference_addresses.addresses_axioms]
    by blast
  moreover have "\<not> logged_in reference 7 sample_reaches sample_transport (lit ''other:1433'') (lit ''orders'') c"
    by (simp add: logged_in_def sample_reaches_def lit_def)
  ultimately show ?thesis using \<open>reference_kept [?key \<mapsto> c] () ?key c\<close> by blast
qed

end
