(* ===== verification/Loopback.thy ===== *)
theory Loopback
  imports Conversation Inserts Pool
begin

text \<open>
  The transport against itself: what one end sends, the other takes. \<open>insert_forms\<close> is what the
  two ends rely on the SQL crate for, that a far end takes apart the INSERT a send writes.
\<close>

text \<open>A table or a column named in letters, digits and underscores.\<close>

definition plain_name :: "str \<Rightarrow> bool" where
  "plain_name n \<longleftrightarrow> list_all (\<lambda>c. 48 \<le> c \<and> c \<le> 57 \<or> 65 \<le> c \<and> c \<le> 90 \<or> 97 \<le> c \<and> c \<le> 122 \<or> c = 95) n"

locale insert_forms =
  fixes C :: "('h, 'r, 'c, 's, 'verdict, 'arrived) capability"
    and Q :: "('h, 'v, byte list, 'y) sql_crate_scheme"
  assumes is_insert: "literal C h bytes = Inr l \<Longrightarrow> plain_name t \<Longrightarrow> plain_name c \<Longrightarrow>
      of_statement Q (insert_statement C t c l) = Some Insert"
    and is_text: "literal C h bytes = Inr l \<Longrightarrow> plain_name t \<Longrightarrow> plain_name c \<Longrightarrow>
      is_str (insert_statement C t c l)"
    and taken_apart: "literal C h bytes = Inr l \<Longrightarrow> plain_name t \<Longrightarrow> plain_name c \<Longrightarrow>
      \<exists>v. parse_insert_literal Q (insert_statement C t c l) = Some (t, c, v) \<and> stored Q h v = bytes"
begin

lemma insert_answered:
  assumes "literal C (ss_column s) bytes = Inr l" and "plain_name t" and "plain_name c"
    and "ss_answering s = None"
  shows "answer_batch Q (insert_statement C t c l) s =
    ((Complete 1, Inserted (lit ''mssql://'' @ ss_peer s @ lit ''/'' @ database s @ lit ''/''
      @ t @ lit ''/'' @ c) bytes), s)"
  using is_insert [OF assms(1-3)] taken_apart [OF assms(1-3)] assms(4)
  by (auto simp: answer_batch_def Let_def)

end

context insert_taker
begin

lemma next_insert_says:
  "sound (ss_writer s) \<Longrightarrow> sound (ss_writer (snd (next_insert K Q first_insert s))) \<and>
    (\<exists>z. sent (ss_writer (snd (next_insert K Q first_insert s))) = sent (ss_writer s) @ z)"
proof (induction "length (incoming (ss_reader s))" arbitrary: s rule: less_induct)
  case less
  obtain x t where x: "next_event K Q s = (x, t)" by fastforce
  obtain z where t: "sound (ss_writer t)" "sent (ss_writer t) = sent (ss_writer s) @ z"
    using speaksD [OF next_event_speaks less.prems, of K Q] x by auto
  show ?case
  proof (cases "\<exists>ev. x = Inr (Some ev) \<and> inserted ev = None")
    case True
    then obtain ev where ev: "x = Inr (Some ev)" "inserted ev = None" by blast
    have shorter: "length (incoming (ss_reader t)) < length (incoming (ss_reader s))"
      using next_event_takes x ev(1) by metis
    have "next_insert K Q first_insert s = next_insert K Q first_insert t"
      unfolding next_insert_def by (rule passes) (use x ev shorter in simp_all)
    with less.hyps [OF shorter t(1)] t(2) show ?thesis by auto
  next
    case False
    have "snd (next_insert K Q first_insert s) = t"
    proof (cases x)
      case (Inr found)
      show ?thesis
      proof (cases found)
        case None
        with x Inr closes show ?thesis by (simp add: next_insert_def)
      next
        case (Some ev)
        with False Inr obtain y where "inserted ev = Some y" by auto
        with x Inr Some takes [of "next_event K Q" s ev t inserted y] show ?thesis
          by (simp add: next_insert_def)
      qed
    qed (use x fails in \<open>simp add: next_insert_def\<close>)
    with t show ?thesis by simp
  qed
qed

lemma next_insert_speaks: "speaks ss_writer (next_insert K Q first_insert)"
  by (simp add: speaks_def next_insert_says)

end


text \<open>What the far end's login check is given, as \<open>accept_one\<close> gives it.\<close>

definition demanded :: "('h, 'd, 'r, 'c) mssql_transport \<Rightarrow> login option" where
  "demanded t = map_option (\<lambda>_. transport_login t) (tr_password t)"

text \<open>The far end takes the value of the first statement, answering that it is done.\<close>

lemma insert_taken:
  fixes s :: "('k, 'h) session"
  assumes "codec K" and "body_ceiling K" and "insert_taker first_insert" and "insert_forms C Q"
    and "literal C h bytes = Inr l" and "plain_name table" and "plain_name column"
    and "sql = insert_statement C table column l" and "length (encode_batch K sql) \<le> max_body K"
    and "sound (ss_writer s)" and "ss_answering s = None"
    and t: "t = entered K db login (concat (map (batch_packets K n) [sql])) s"
  shows "\<exists>t'. next_insert K Q first_insert (holding h t) = (Inr (Some (lit ''mssql://'' @ ss_peer s
      @ lit ''/'' @ db @ lit ''/'' @ table @ lit ''/'' @ column, bytes)), t') \<and>
    sent (ss_writer t') = sent (ss_writer t) @ concat (map (answer_packets K) [Complete 1])"
proof -
  have answer: "answer_batch Q sql (holding h t) = ((Complete 1, Inserted (lit ''mssql://'' @ ss_peer s
      @ lit ''/'' @ db @ lit ''/'' @ table @ lit ''/'' @ column) bytes), holding h t)"
    using insert_forms.insert_answered [OF assms(4) _ assms(6,7), of "holding h t" bytes l] assms(5,8,11)
    by (simp add: t holding_def entered_def database_def)
  have heard: "incoming (ss_reader (holding h t)) = packets K SQL_BATCH (encode_batch K sql) n @ []"
    and sound: "sound (ss_writer (holding h t))"
    using assms(10) by (simp_all add: t entered_def holding_def batch_packets_def)
  have "is_str sql"
    using insert_forms.is_text [OF assms(4,5,6,7)] assms(8) by simp
  from next_event_batch [OF assms(1,2) sound this assms(9) heard answer]
  obtain t' where "next_event K Q (holding h t) = (Inr (Some (Inserted (lit ''mssql://'' @ ss_peer s
      @ lit ''/'' @ db @ lit ''/'' @ table @ lit ''/'' @ column) bytes)), t')"
    "sent (ss_writer t') = sent (ss_writer t) @ answer_packets K (Complete 1)"
    by (simp add: answer_packets_def holding_def)
  then show ?thesis
    using insert_taker.takes [OF assms(3), of "next_event K Q" "holding h t" _ t' inserted]
    by (auto simp: next_insert_def inserted_def)
qed

lemma done_answer:
  assumes "codec K" and "65600 \<le> max_body K"
  shows "list_all (\<lambda>a. answer_fits a \<and> length (encode_tokens K (answer_tokens a)) \<le> max_body K) [Complete n]"
  using assms(2) by (simp add: answer_fits_def answer_tokens_def codec.encode_tokens_bytes [OF assms(1)]
      codec.token_bytes_simps [OF assms(1)])

text \<open>What a near end that connects and runs one statement says of connecting, and of running it.\<close>

lemma near_end_query:
  assumes "fst (near_end K pid db l [sql] (new_client r w)) = Inr [result]"
  shows "\<exists>c. connect K pid (Inr (r, w)) db l = Inr c \<and> fst (query K sql c) = result"
proof -
  obtain x c where c: "connect_on K pid db l (new_client r w) = (x, c)" by fastforce
  with assms have "x = Inr ()" "fst (query K sql c) = result"
    by (cases x; simp add: near_end_def act_bind_def split_beta)+
  with c show ?thesis by (simp add: connect_def)
qed

subsection \<open>An INSERT written and taken apart\<close>

lemma takeWhile_stop: "list_all P xs \<Longrightarrow> \<not> P y \<Longrightarrow> takeWhile P (xs @ y # ys) = xs"
  by (induction xs) simp_all

lemma plain_name_facts:
  assumes "plain_name n"
  shows "list_all (\<lambda>c. c \<noteq> 93) n" and "is_str n"
  using assms by (auto simp: plain_name_def is_str_def is_scalar_def list_all_iff)

lemma quote_hex_plain: "list_all (\<lambda>c. c \<noteq> 41) (quote_hex bs)"
proof -
  have "list_all (\<lambda>c. c \<noteq> 41) (hex_byte b)" for b
    by (simp add: hex_byte_def hex_digit_def)
  then show ?thesis by (induction bs) (simp_all add: quote_hex_def lit_def)
qed

lemma parse_insert_written:
  assumes "plain_name t" and "plain_name c"
  shows "parse_insert (lit ''INSERT INTO ['' @ t @ lit ''] (['' @ c @ lit '']) VALUES ('' @ quote_hex bs @ lit '')'') =
    Some (t, c, bs)"
proof -
  have "takeWhile (\<lambda>c. c \<noteq> 93) (t @ lit ''] (['' @ r) = t" for r
    using takeWhile_stop [OF plain_name_facts(1) [OF assms(1)], of 93] by (simp add: lit_def)
  moreover have "takeWhile (\<lambda>c. c \<noteq> 93) (c @ lit '']) VALUES ('' @ r) = c" for r
    using takeWhile_stop [OF plain_name_facts(1) [OF assms(2)], of 93] by (simp add: lit_def)
  moreover have "takeWhile (\<lambda>c. c \<noteq> 41) (quote_hex bs @ lit '')'') = quote_hex bs"
    using takeWhile_stop [OF quote_hex_plain, of 41] by (simp add: lit_def)
  moreover have "unquote_hex (quote_hex bs) = Some bs"
    by (simp add: unquote_hex_def quote_hex_def hex_pairs_bytes lit_def)
  ultimately show ?thesis
    by (simp add: parse_insert_def Let_def)
qed

interpretation reference_forms: insert_forms reference_capability reference_sql
proof
  fix h :: unit and bytes l t c
  assume l: "literal reference_capability h bytes = Inr l" and names: "plain_name t" "plain_name c"
  then have written: "insert_statement reference_capability t c l =
      lit ''INSERT INTO ['' @ t @ lit ''] (['' @ c @ lit '']) VALUES ('' @ quote_hex bytes @ lit '')''"
    by (simp add: reference_capability_def)
  show "of_statement reference_sql (insert_statement reference_capability t c l) = Some Insert"
    unfolding written by (simp add: reference_sql_def lit_def)
  show "is_str (insert_statement reference_capability t c l)"
    unfolding written using names plain_name_facts(2) by (simp add: is_str_quote_hex)
  show "\<exists>v. parse_insert_literal reference_sql (insert_statement reference_capability t c l) =
      Some (t, c, v) \<and> stored reference_sql h v = bytes"
    unfolding written using parse_insert_written [OF names] by (simp add: reference_sql_def)
qed

text \<open>A session that has let a client in answers its first batch.\<close>

lemma first_answer:
  fixes s :: "('k, 'h) session"
  assumes "codec K" and "body_ceiling K" and "is_str sql" and "length (encode_batch K sql) \<le> max_body K"
    and "sound (ss_writer s)" and "answer_batch Q sql (s\<lparr>ss_login := new_login7 l db\<rparr>) = ((a, ev), s1)"
    and t: "t = entered K db l (concat (map (batch_packets K n) [sql])) s"
  shows "fst (next_event K Q t) = Inr (Some ev) \<and>
    sent (ss_writer (snd (next_event K Q t))) = sent (ss_writer t) @ concat (map (answer_packets K) [a])"
proof -
  have heard: "incoming (ss_reader t) = packets K SQL_BATCH (encode_batch K sql) n @ []"
    and sound: "sound (ss_writer t)"
    using assms(5) by (simp_all add: t entered_def batch_packets_def)
  have "t = (s\<lparr>ss_login := new_login7 l db\<rparr>)\<lparr>ss_reader := ss_reader t, ss_writer := ss_writer t\<rparr>"
    by (rule session.equality) (simp_all add: t entered_def)
  then have "answer_batch Q sql t = ((a, ev), s1\<lparr>ss_reader := ss_reader t, ss_writer := ss_writer t\<rparr>)"
    using answer_batch_io [where Q = Q and sql = sql and s = "s\<lparr>ss_login := new_login7 l db\<rparr>"
        and r = "ss_reader t" and w = "ss_writer t"] assms(6) by simp
  from next_event_batch [OF assms(1,2) sound assms(3,4) heard this] show ?thesis
    by (simp add: answer_packets_def)
qed

subsection \<open>A transport and its far end, for the witnesses\<close>

lemma sample_transport_simps [simp]:
  "tr_server sample_transport = lit ''sql:1433''" "tr_database sample_transport = lit ''orders''"
  "tr_password sample_transport = Some (lit ''secret'')" "tr_connections sample_transport = ()"
  "transport_login sample_transport = sample_credentials"
  by (simp_all add: sample_transport_def with_password_def new_transport_def transport_login_def
      sample_credentials_def)

text \<open>What the two ends hear over one statement and its answer.\<close>

definition near_hears :: "answer \<Rightarrow> reader" where
  "near_hears a = \<lparr>incoming = hello_back reference @ token_packets reference (welcome_tokens (lit ''orders''))
     @ concat (map (answer_packets reference) [a]), ending = Closed\<rparr>"

definition far_hears :: "str \<Rightarrow> reader" where
  "far_hears sql = \<lparr>incoming = hello reference @ login_packets reference 7 (lit ''orders'') sample_credentials
     @ concat (map (batch_packets reference DEFAULT_PACKET_SIZE) [sql]), ending = Closed\<rparr>"

definition sample_session :: "str \<Rightarrow> (unit, unit) session" where
  "sample_session sql = new_session (far_hears sql) quiet_writer (lit ''peer'') () ()"

lemma sample_session_simps [simp]:
  "ss_reader (sample_session sql) = far_hears sql" "ss_writer (sample_session sql) = quiet_writer"
  "ss_answering (sample_session sql) = None" "ss_peer (sample_session sql) = lit ''peer''"
  by (simp_all add: sample_session_def new_session_def)

lemma sample_demanded: "demanded sample_transport = Some sample_credentials"
  by (simp add: demanded_def)

lemma sample_talk:
  fixes s :: "(unit, unit) session"
  assumes "ss_reader s = far_hears sql" and "ss_writer s = quiet_writer"
    and "t = entered reference (lit ''orders'') sample_credentials
      (concat (map (batch_packets reference DEFAULT_PACKET_SIZE) [sql])) s"
    and "sent (ss_writer (snd (rest t))) = sent (ss_writer t) @ concat (map (answer_packets reference) [a])"
  shows "conversing (near_end reference 7 (lit ''orders'') sample_credentials [sql])
    (new_client (near_hears a) quiet_writer)
    (far_end reference reference_sql (demanded sample_transport) rest) s"
  unfolding sample_demanded
  by (rule conversation_exists [where rest = rest and t = t and as = "[a]"])
    (use sample_parties assms in \<open>simp_all only: near_hears_def far_hears_def reader.simps
      quiet_writer_sound simp_thms\<close>)

subsection \<open>Properties\<close>

text \<open>C3: What one transport sends, another takes: a send to a table and a column on a fresh
  connection comes back done, and the far end, demanding the login given or none, hands up the
  very bytes that were sent, as inserted into that table and column of that database. Nothing is
  assumed of what the two say to each other but that each hears the other.\<close>

theorem sent_is_taken:
  assumes "codec K" and "body_ceiling K" and "constant_time Q" and "insert_taker first_insert"
    and "insert_forms C Q" and "pool C kept" and "65600 \<le> max_body K"
    and "destination C SCHEMES target (tr_server near) (tr_database near) = Inr d"
    and "plain_name (to_table d)" and "plain_name (to_column d)"
    and "literal C (tr_column near) bytes = Inr l" and "tr_column far = tr_column near"
    and "presentable (to_database d) (transport_login near)"
    and "tr_password far = None \<or> transport_login far = transport_login near"
    and sql: "sql = insert_statement C (to_table d) (to_column d) l"
    and "length (encode_batch K sql) \<le> max_body K"
    and "dial (to_server d) (tr_timeout near) = Inr (r, w)"
    and "\<forall>c. \<not> kept st (tr_connections near) (pool_key (to_server d) (to_database d)) c"
    and talk: "conversing (near_end K pid (to_database d) (transport_login near) [sql]) (new_client r w)
      (far_end K Q (demanded far) (\<lambda>s. next_insert K Q first_insert (holding (tr_column far) s)))
      (new_session r' w' peer k held)"
  shows "fst (send K pid dial C near target bytes st) = Inr () \<and>
    take_one K Q first_insert (Inr (r', w', peer)) k held far =
      Inr (lit ''mssql://'' @ peer @ lit ''/'' @ to_database d @ lit ''/'' @ to_table d @ lit ''/''
        @ to_column d, bytes)"
proof -
  let ?s = "new_session r' w' peer k held" and ?db = "to_database d" and ?login = "transport_login near"
  let ?rest = "\<lambda>s. next_insert K Q first_insert (holding (tr_column far) s)"
  define t where "t = entered K ?db ?login (concat (map (batch_packets K DEFAULT_PACKET_SIZE) [sql])) ?s"
  have let_in: "demanded far = None \<or> demanded far = Some ?login"
    using assms(14) by (auto simp: demanded_def)
  have "pred_option (\<lambda>e. is_str (login_password e)) (demanded far)"
    using let_in assms(13) by (auto simp: presentable_def login_fits_def login_strings_def)
  then have parties: "parties K Q ?db ?login (demanded far)"
    using assms(1-3,7,13) by (simp add: parties_def)
  have speaks: "speaks ss_writer ?rest"
    using insert_taker.next_insert_says [OF assms(4), of "holding (tr_column far) s" K Q for s]
    by (simp add: speaks_def) (simp add: holding_def)
  have "ss_answering ?s = None" "ss_peer ?s = peer" by (simp_all add: new_session_def)
  with insert_taken [OF assms(1,2,4,5) assms(11) assms(9,10) sql assms(16) conversingD(2) [OF talk] _ t_def]
  obtain t' where t': "?rest t = (Inr (Some (lit ''mssql://'' @ peer @ lit ''/'' @ ?db @ lit ''/''
      @ to_table d @ lit ''/'' @ to_column d, bytes)), t')"
    "sent (ss_writer t') = sent (ss_writer t) @ concat (map (answer_packets K) [Complete 1])"
    using assms(12) by auto
  have "fst (near_end K pid ?db ?login [sql] (new_client r w)) = Inr (map answer_result [Complete 1])"
    and accepted: "accept_on K Q (demanded far) ?s = (Inr (), t)"
    using conversation_admitted [OF parties speaks talk let_in _ done_answer [OF assms(1,7)],
        unfolded Let_def, folded t_def] t' by simp_all
  then obtain c where c: "connect_to K pid dial near (to_server d) ?db = Inr c"
    "fst (run_statement K sql c) = Inr ()"
    using near_end_query [of K pid ?db ?login sql r w] assms(17)
    by (auto simp: answer_result_def connect_to_def run_statement_result)
  have "fst (send K pid dial C near target bytes st) = Inr ()"
    using pool.unit_runs [OF assms(6) surjective_pairing assms(18), of "Inr c" "run_statement K sql"] c
    by (simp add: send_def assms(8,11) sql)
  moreover have "accept_one K Q (Inr (r', w', peer)) k held far = Inr (holding (tr_column far) t)"
    using accepted by (simp add: accept_one_def accept_def demanded_def)
  then have "take_one K Q first_insert (Inr (r', w', peer)) k held far = Inr (lit ''mssql://'' @ peer
      @ lit ''/'' @ ?db @ lit ''/'' @ to_table d @ lit ''/'' @ to_column d, bytes)"
    using t'(1) by (simp add: take_one_def)
  ultimately show ?thesis ..
qed


theorem sent_is_taken_witness:
  "\<exists>r r'. fst (send reference 7 (\<lambda>_ _. Inr (r, quiet_writer)) reference_capability sample_transport
      (lit ''inbox/payload'') [1, 2] Map.empty) = Inr () \<and>
    take_one reference reference_sql reference_first_insert (Inr (r', quiet_writer, lit ''peer'')) () () sample_transport =
      Inr (lit ''mssql://peer/orders/inbox/payload'', [1, 2])"
proof -
  let ?d = "\<lparr>to_server = lit ''sql:1433'', to_database = lit ''orders'',
    to_table = lit ''inbox'', to_column = lit ''payload''\<rparr>"
  let ?rest = "\<lambda>s :: (unit, unit) session. next_insert reference reference_sql reference_first_insert
    (holding (tr_column sample_transport) s)"
  define sql where "sql = insert_statement reference_capability (to_table ?d) (to_column ?d) (quote_hex [1, 2])"
  have target: "destination reference_capability SCHEMES (lit ''inbox/payload'') (tr_server sample_transport)
      (tr_database sample_transport) = Inr ?d"
    by (simp add: reference_capability_def)
  have names: "plain_name (to_table ?d)" "plain_name (to_column ?d)"
    by (simp_all add: plain_name_def lit_def)
  have literal: "literal reference_capability h [1, 2] = Inr (quote_hex [1, 2])" for h
    by (simp add: reference_capability_def)
  have size: "length (encode_batch reference sql) \<le> max_body reference"
    by (simp add: encode_batch_def reference_laws(3) [THEN text_forms.utf16_length] sql_def
        reference_capability_def quote_hex_def hex_byte_def hex_digit_def)
  have "sound (ss_writer (sample_session sql))" "ss_answering (sample_session sql) = None" by simp_all
  from insert_taken [OF reference_laws(4,5) reference_inserts.insert_taker_axioms
      reference_forms.insert_forms_axioms literal names sql_def size this refl, of "tr_column sample_transport"]
  have "sent (ss_writer (snd (?rest t))) = sent (ss_writer t) @ concat (map (answer_packets reference) [Complete 1])"
    if "t = entered reference (lit ''orders'') sample_credentials
      (concat (map (batch_packets reference DEFAULT_PACKET_SIZE) [sql])) (sample_session sql)" for t
    unfolding that by (metis snd_conv)
  from sample_talk [where rest = ?rest and s = "sample_session sql", OF _ _ refl this [OF refl]]
  have talk: "conversing (near_end reference 7 (to_database ?d) (transport_login sample_transport) [sql])
      (new_client (near_hears (Complete 1)) quiet_writer)
      (far_end reference reference_sql (demanded sample_transport) ?rest)
      (new_session (far_hears sql) quiet_writer (lit ''peer'') () ())"
    by (simp add: sample_session_def [symmetric])
  have "presentable (to_database ?d) (transport_login sample_transport)"
    using partiesD(6) [OF sample_parties] by simp
  moreover have "\<forall>c. \<not> reference_kept Map.empty () (pool_key (to_server ?d) (to_database ?d)) c"
    by (simp add: reference_kept_def)
  ultimately show ?thesis
    using sent_is_taken [OF reference_laws(4,5) reference_constant_time.constant_time_axioms
        reference_inserts.insert_taker_axioms reference_forms.insert_forms_axioms reference_pool.pool_axioms
        _ target names literal refl _ _ sql_def size _ _ talk,
        of "\<lambda>_ _. Inr (near_hears (Complete 1), quiet_writer)" Map.empty]
    by (auto simp: lit_def)
qed

text \<open>C6: A receive hands up what the far end answers its query with: on a fresh connection, the
  rows go to the arrivals cell for cell and in order, each named by the server and the database
  it was read from, its verdict set to run the accept statement on them; an error the far end
  answers is the receive's. Nothing is assumed of what the two say but that each hears the other.\<close>

theorem received_is_answered:
  assumes "codec K" and "body_ceiling K" and "constant_time Q" and "pool C kept" and "65600 \<le> max_body K"
    and "presentable (tr_database near) (transport_login near)"
    and "tr_password far = None \<or> transport_login far = transport_login near"
    and "is_str (tr_query near)" and "length (encode_batch K (tr_query near)) \<le> max_body K"
    and "dial (tr_server near) (tr_timeout near) = Inr (r, w)"
    and "\<forall>c. \<not> kept st (tr_connections near) (pool_key (tr_server near) (tr_database near)) c"
    and answer: "answer_batch Q (tr_query near)
      (s\<lparr>ss_login := new_login7 (transport_login near) (tr_database near)\<rparr>) = ((a, ev), s1)"
    and fits: "answer_fits a" "length (encode_tokens K (answer_tokens a)) \<le> max_body K"
    and talk: "conversing (near_end K pid (tr_database near) (transport_login near) [tr_query near])
      (new_client r w) (far_end K Q (demanded far) (next_event K Q)) s"
  shows "fst (far_end K Q (demanded far) (next_event K Q) s) = Inr (Some ev) \<and>
    (\<exists>st'. receive K pid dial C near st = (case answer_result a of
        Inl e \<Rightarrow> (Inl e, st')
      | Inr result \<Rightarrow> arrivals C (qr_rows result) (tr_refused near)
          (\<lambda>name. lit ''mssql://'' @ tr_server near @ lit ''/'' @ tr_database near @ lit ''?row='' @ name)
          (\<lambda>value. value) (bytes_in C (tr_column near))
          (\<lambda>name. accepting C (tr_accept near) name (run_accept K pid dial C (clone_transport C near))) st'))"
proof -
  let ?db = "tr_database near" and ?login = "transport_login near" and ?sql = "tr_query near"
  define t where "t = entered K ?db ?login (concat (map (batch_packets K DEFAULT_PACKET_SIZE) [?sql])) s"
  have let_in: "demanded far = None \<or> demanded far = Some ?login"
    using assms(7) by (auto simp: demanded_def)
  have "pred_option (\<lambda>e. is_str (login_password e)) (demanded far)"
    using let_in assms(6) by (auto simp: presentable_def login_fits_def login_strings_def)
  then have parties: "parties K Q ?db ?login (demanded far)"
    using assms(1-3,5,6) by (simp add: parties_def)
  note answered = first_answer [OF assms(1,2,8,9) conversingD(2) [OF talk] answer t_def]
  have "list_all (\<lambda>a. answer_fits a \<and> length (encode_tokens K (answer_tokens a)) \<le> max_body K) [a]"
    using fits by simp
  from conversation_admitted [OF parties next_event_speaks talk let_in _ this, unfolded Let_def, folded t_def]
    answered
  have near: "fst (near_end K pid ?db ?login [?sql] (new_client r w)) = Inr [answer_result a]"
    and accepted: "accept_on K Q (demanded far) s = (Inr (), t)"
    by simp_all
  then obtain c where c: "connect K pid (Inr (r, w)) ?db ?login = Inr c" "fst (query K ?sql c) = answer_result a"
    using near_end_query [OF near] by blast
  obtain st' where st': "exchange_query C (tr_connections near) (pool_key (tr_server near) ?db)
      (transport_connect K pid dial near) (query K ?sql) st = (answer_result a, st')"
    using pool.query_runs [OF assms(4) surjective_pairing assms(11), of "Inr c" "query K ?sql"] c
    by (simp add: transport_connect_def connect_to_def assms(10)) (metis surjective_pairing)
  have "fst (far_end K Q (demanded far) (next_event K Q) s) = Inr (Some ev)"
    using accepted answered by (simp add: act_bind_def)
  moreover have "receive K pid dial C near st = (case answer_result a of
        Inl e \<Rightarrow> (Inl e, st')
      | Inr result \<Rightarrow> arrivals C (qr_rows result) (tr_refused near)
          (\<lambda>name. lit ''mssql://'' @ tr_server near @ lit ''/'' @ ?db @ lit ''?row='' @ name)
          (\<lambda>value. value) (bytes_in C (tr_column near))
          (\<lambda>name. accepting C (tr_accept near) name (run_accept K pid dial C (clone_transport C near))) st')"
    using st' by (simp add: receive_def act_bind_def Let_def split: sum.split)
  ultimately show ?thesis by blast
qed


theorem received_is_answered_witness:
  "\<exists>r s. fst (receive reference 7 (\<lambda>_ _. Inr (r, quiet_writer)) reference_capability sample_transport Map.empty) =
      Inr [(lit ''mssql://sql:1433/orders?row=7'', [0x0A])] \<and>
    fst (far_end reference reference_sql (demanded sample_transport)
      (next_event reference reference_sql) (s :: (unit, unit) session)) = Inr (Some (Selected DEFAULT_QUERY))"
proof -
  let ?a = "Rows [lit ''id'', lit ''payload''] [[Some (lit ''7''), Some (lit ''0x0a'')]]"
  let ?db = "tr_database sample_transport" and ?login = "transport_login sample_transport"
    and ?sql = "tr_query sample_transport" and ?r = "near_hears ?a"
  define s where "s = (sample_session ?sql)
    \<lparr>ss_columns := [lit ''id'', lit ''payload''], ss_rows := [[Some (lit ''7''), Some (lit ''0x0a'')]]\<rparr>"
  have query: "?sql = DEFAULT_QUERY"
    by (simp add: sample_transport_def with_password_def new_transport_def)
  have answer: "answer_batch reference_sql ?sql (s\<lparr>ss_login := new_login7 ?login ?db\<rparr>) =
      ((?a, Selected DEFAULT_QUERY), s\<lparr>ss_login := new_login7 ?login ?db\<rparr>)"
    unfolding query by (simp add: answer_batch_def s_def reference_sql_def DEFAULT_QUERY_def lit_def)
  have size: "is_str ?sql" "length (encode_batch reference ?sql) \<le> max_body reference"
    unfolding query by (simp_all add: DEFAULT_QUERY_def encode_batch_def
        reference_laws(3) [THEN text_forms.utf16_length])
  have fits: "answer_fits ?a" by (simp add: answer_fits_def name_fits_def)
  have answer_size: "length (encode_tokens reference (answer_tokens ?a)) \<le> max_body reference"
    by (simp add: answer_tokens_def codec.encode_tokens_bytes [OF reference_laws(4)]
        codec.token_bytes_simps [OF reference_laws(4)] columns_after_def column_bytes_def
        codec.push_column_bytes [OF reference_laws(4)] text_column_def new_column_def
        write_type_info_def codec.b_varchar_bytes [OF reference_laws(4)]
        codec.length_counted [OF reference_laws(4)] write_value_def write_bytes_def write_plp_chunks
        length_plp_chunks length_chunks reference_laws(3) [THEN text_forms.utf16_length])
  have quiet: "ss_reader s = far_hears ?sql" "ss_writer s = quiet_writer" "sound (ss_writer s)"
    by (simp_all add: s_def)
  note answered = first_answer [OF reference_laws(4,5) size quiet(3) answer refl]
  have talk: "conversing (near_end reference 7 ?db ?login [?sql]) (new_client ?r quiet_writer)
      (far_end reference reference_sql (demanded sample_transport) (next_event reference reference_sql)) s"
    using sample_talk [OF quiet(1,2) refl, of "next_event reference reference_sql" ?a] answered by simp
  have fresh: "\<forall>c. \<not> reference_kept Map.empty (tr_connections sample_transport)
      (pool_key (tr_server sample_transport) ?db) c"
    by (simp add: reference_kept_def)
  have arrived: "fst (arrivals reference_capability [[Some (lit ''7''), Some (lit ''0x0a'')]] u
      (\<lambda>name. lit ''mssql://'' @ lit ''sql:1433'' @ lit ''/'' @ lit ''orders'' @ lit ''?row='' @ name)
      (\<lambda>value. value) (bytes_in reference_capability h) v st) =
    Inr [(lit ''mssql://sql:1433/orders?row=7'', [0x0A])]" for u h v st
    by (simp add: reference_capability_def) (simp add: lit_def unquote_hex_def hex_value_def)
  have "fst (far_end reference reference_sql (demanded sample_transport)
      (next_event reference reference_sql) s) = Inr (Some (Selected DEFAULT_QUERY)) \<and>
    fst (receive reference 7 (\<lambda>_ _. Inr (?r, quiet_writer)) reference_capability sample_transport Map.empty) =
      Inr [(lit ''mssql://sql:1433/orders?row=7'', [0x0A])]"
    using received_is_answered [where K = reference and Q = reference_sql and C = reference_capability
        and kept = reference_kept and near = sample_transport and far = sample_transport and s = s
        and dial = "\<lambda>_ _. Inr (?r, quiet_writer)" and st = Map.empty and r = ?r and w = quiet_writer
        and pid = 7 and a = ?a and ev = "Selected DEFAULT_QUERY"]
      reference_laws(4,5) reference_constant_time.constant_time_axioms reference_pool.pool_axioms
      partiesD(6) [OF sample_parties] size fresh answer fits answer_size talk query
    by (auto simp: answer_result_def arrived)
  then show ?thesis by blast
qed

end
