(* ===== verification/Reuse.thy ===== *)
theory Reuse
  imports Loopback
begin

text \<open>
  Many exchanges on one connection. \<open>exchanging\<close> is what this crate relies on an exchange of the
  pool for: a kept connection is used again while it is alive, a new one is opened, and counted,
  when none is, and what has just served is kept. Servers close connections between exchanges,
  which is a change of the state the laws say nothing of. Here are also the two ends of many
  exchanges in turn, and a pool that keeps the laws.
\<close>

definition only_kept ::
    "('s \<Rightarrow> 'c \<Rightarrow> str \<Rightarrow> client \<Rightarrow> bool) \<Rightarrow> 's \<Rightarrow> 'c \<Rightarrow> str \<Rightarrow> client \<Rightarrow> bool" where
  "only_kept kept s p key c \<longleftrightarrow> (\<forall>d. kept s p key d \<longleftrightarrow> d = c)"

text \<open>Nothing is kept that could be used: a new connection is needed.\<close>

definition anew ::
    "('s \<Rightarrow> 'c \<Rightarrow> str \<Rightarrow> client \<Rightarrow> bool) \<Rightarrow> ('s \<Rightarrow> writer \<Rightarrow> bool) \<Rightarrow> 's \<Rightarrow> 'c \<Rightarrow> str \<Rightarrow> bool" where
  "anew kept alive s p key \<longleftrightarrow> (\<forall>d. kept s p key d \<longrightarrow> \<not> usable (alive s) d)"

text \<open>An exchange has its connection: the kept one, or what connecting gives.\<close>

definition runs_on ::
    "('s \<Rightarrow> 'c \<Rightarrow> str \<Rightarrow> client \<Rightarrow> bool) \<Rightarrow> ('s \<Rightarrow> writer \<Rightarrow> bool) \<Rightarrow> 's \<Rightarrow> 'c \<Rightarrow> str
       \<Rightarrow> terror + client \<Rightarrow> client \<Rightarrow> bool" where
  "runs_on kept alive s p key conn c \<longleftrightarrow>
     only_kept kept s p key c \<and> usable (alive s) c \<or> anew kept alive s p key \<and> conn = Inr c"

lemma kept_serves:
  assumes "only_kept kept s p key c" and "usable (alive s) c"
  shows "runs_on kept alive s p key conn c" and "\<not> anew kept alive s p key"
  using assms by (auto simp: runs_on_def anew_def only_kept_def)

text \<open>Actions one after another, until one fails.\<close>

fun in_turn :: "('s, 'a) act list \<Rightarrow> ('s, 'a list) act" where
  "in_turn [] = act_return []"
| "in_turn (m # ms) = act_bind m (\<lambda>x. act_bind (in_turn ms) (\<lambda>xs. act_return (x # xs)))"

lemma in_turn_Cons:
  "in_turn (m # ms) s = (Inr us, t) \<longleftrightarrow>
     (\<exists>u s' us'. m s = (Inr u, s') \<and> in_turn ms s' = (Inr us', t) \<and> us = u # us')"
  by (auto simp: act_bind_eq)

lemma in_turn_speaks:
  "(\<And>m. m \<in> set ms \<Longrightarrow> speaks W m) \<Longrightarrow> speaks W (in_turn ms)"
  by (induction ms) (auto intro!: speaking)

declare in_turn.simps(2) [simp del]

lemma act_bind_return: "act_bind m act_return = m"
  by (rule ext) (simp add: act_bind_def split: prod.split sum.split)

subsection \<open>The pool\<close>

locale exchanging =
  fixes ex :: "'c \<Rightarrow> str \<Rightarrow> terror + client \<Rightarrow> (client, 'a) act \<Rightarrow> ('s, 'a) act"
    and kept :: "'s \<Rightarrow> 'c \<Rightarrow> str \<Rightarrow> client \<Rightarrow> bool" and alive :: "'s \<Rightarrow> writer \<Rightarrow> bool"
    and opened :: "'s \<Rightarrow> 'c \<Rightarrow> nat"
  assumes runs: "ex p key conn step s = (x, s') \<Longrightarrow> runs_on kept alive s p key conn c \<Longrightarrow>
      x = fst (step c) \<and> opened s' p = opened s p + (if anew kept alive s p key then 1 else 0)"
    and keeps: "ex p key conn step s = (x, s') \<Longrightarrow> runs_on kept alive s p key conn c \<Longrightarrow>
      step c = (Inr u, c') \<Longrightarrow> only_kept kept s' p key c' \<and> usable (alive s') c'"
begin

lemma exchanged:
  assumes "runs_on kept alive s p key conn c" and "step c = (Inr u, c')"
  obtains s' where "ex p key conn step s = (Inr u, s')" and "only_kept kept s' p key c'"
    and "usable (alive s') c'" and "opened s' p = opened s p + (if anew kept alive s p key then 1 else 0)"
proof -
  obtain x s' where x: "ex p key conn step s = (x, s')" by fastforce
  from that [of s'] runs [OF x assms(1)] keeps [OF x assms] assms(2) x show thesis by simp
qed

text \<open>Steps that succeed one after another do so as exchanges, all on the one connection, in states
  that keep \<open>I\<close>.\<close>

lemma exchanges_keeping:
  assumes "runs_on kept alive s p key conn c" and "in_turn steps c = (Inr us, c')"
    and "I s" and "\<forall>step s. I s \<longrightarrow> I (snd (ex p key conn step s))"
    and "\<And>u s. u \<in> set us \<Longrightarrow> I s \<Longrightarrow> \<exists>z s'. after u s = (Inr z, s') \<and> I s' \<and>
      kept s' = kept s \<and> alive s' = alive s \<and> opened s' = opened s"
  shows "\<exists>zs s'. in_turn (map (\<lambda>step. act_bind (ex p key conn step) after) steps) s = (Inr zs, s') \<and>
    list_all2 (\<lambda>z u. \<exists>s s'. I s \<and> after u s = (Inr z, s')) zs us \<and> I s' \<and>
    (steps \<noteq> [] \<longrightarrow> only_kept kept s' p key c' \<and> usable (alive s') c') \<and>
    opened s' p = opened s p + (if steps \<noteq> [] \<and> anew kept alive s p key then 1 else 0)"
  using assms
proof (induction steps arbitrary: s c us)
  case (Cons step steps)
  obtain u d us' where u: "step c = (Inr u, d)" "in_turn steps d = (Inr us', c')" "us = u # us'"
    using Cons.prems(2) by (auto simp: in_turn_Cons)
  obtain s1 where s1: "ex p key conn step s = (Inr u, s1)" "only_kept kept s1 p key d"
    "usable (alive s1) d" "opened s1 p = opened s p + (if anew kept alive s p key then 1 else 0)"
    by (rule exchanged [where step = step and c = c, OF Cons.prems(1) u(1)])
  have I1: "I s1" using Cons.prems(3,4) s1(1) by (metis snd_conv)
  obtain z s2 where z: "after u s1 = (Inr z, s2)" "I s2" "kept s2 = kept s1" "alive s2 = alive s1" "opened s2 = opened s1"
    using Cons.prems(5) [OF _ I1, of u] u(3) by auto
  have others: "\<exists>z s'. after v s = (Inr z, s') \<and> I s' \<and>
      kept s' = kept s \<and> alive s' = alive s \<and> opened s' = opened s" if "v \<in> set us'" "I s" for v s
    using Cons.prems(5) [OF _ that(2), of v] u(3) that(1) by simp
  have d: "only_kept kept s2 p key d" "usable (alive s2) d"
    using s1(2,3) by (simp_all add: only_kept_def z)
  obtain zs s' where zs: "in_turn (map (\<lambda>step. act_bind (ex p key conn step) after) steps) s2 = (Inr zs, s')"
    "list_all2 (\<lambda>z u. \<exists>s s'. I s \<and> after u s = (Inr z, s')) zs us'" "I s'"
    "steps \<noteq> [] \<longrightarrow> only_kept kept s' p key c' \<and> usable (alive s') c'"
    "opened s' p = opened s2 p + (if steps \<noteq> [] \<and> anew kept alive s2 p key then 1 else 0)"
    using Cons.IH [OF kept_serves(1) [where alive = alive, OF d] u(2) z(2) Cons.prems(4) others] by blast
  have "in_turn (map (\<lambda>step. act_bind (ex p key conn step) after) (step # steps)) s = (Inr (z # zs), s')"
    using s1(1) z(1) zs(1) by (simp add: in_turn_Cons act_bind_eq)
  moreover have "steps = [] \<Longrightarrow> s' = s2 \<and> d = c'"
    using zs(1) u(2) by simp
  moreover have "\<exists>s s'. I s \<and> after u s = (Inr z, s')" using z(1) I1 by blast
  ultimately show ?case
    using zs s1(4) d u(3) kept_serves(2) [where alive = alive, OF d] by (auto simp: z)
qed simp

lemma exchanges_in_turn:
  assumes "runs_on kept alive s p key conn c" and "in_turn steps c = (Inr us, c')"
    and "\<And>u s. u \<in> set us \<Longrightarrow> \<exists>z s'. after u s = (Inr z, s') \<and> kept s' = kept s \<and> alive s' = alive s \<and> opened s' = opened s"
  shows "\<exists>zs s'. in_turn (map (\<lambda>step. act_bind (ex p key conn step) after) steps) s = (Inr zs, s') \<and>
    list_all2 (\<lambda>z u. \<exists>s s'. after u s = (Inr z, s')) zs us \<and>
    (steps \<noteq> [] \<longrightarrow> only_kept kept s' p key c' \<and> usable (alive s') c') \<and>
    opened s' p = opened s p + (if steps \<noteq> [] \<and> anew kept alive s p key then 1 else 0)"
  using exchanges_keeping [OF assms(1,2), of "\<lambda>_. True" after] assms(3) by simp

end

text \<open>
  The pool's exchanges of both kinds, one count of what they opened; making Streams of rows
  leaves the pool alone.
\<close>

locale reusing_pool = pool C kept
    + effects: exchanging "exchange_unit C" kept alive opened
    + rows: exchanging "exchange_query C" kept alive opened
  for C :: "('h, 'r, 'c, 's, 'verdict, 'arrived) capability"
    and kept :: "'s \<Rightarrow> 'c \<Rightarrow> str \<Rightarrow> client \<Rightarrow> bool" and alive :: "'s \<Rightarrow> writer \<Rightarrow> bool"
    and opened :: "'s \<Rightarrow> 'c \<Rightarrow> nat" +
  assumes arrivals_apart: "arrivals C rs refused origin name bytes verdict s = (z, s') \<Longrightarrow>
      kept s' = kept s \<and> alive s' = alive s \<and> opened s' = opened s"

subsection \<open>The near end\<close>

lemma queries_length: "length (fst (queries K sqls c)) = length sqls"
  by (induction sqls arbitrary: c) (simp_all add: split_beta)

lemma queries_in_turn:
  assumes "fst (queries K sqls c) = map Inr rs"
  shows "in_turn (map (query K) sqls) c = (Inr rs, snd (queries K sqls c))"
    and "in_turn (map (run_statement K) sqls) c = (Inr (map (\<lambda>_. ()) rs), snd (queries K sqls c))"
proof -
  have "in_turn (map (query K) sqls) c = (Inr rs, snd (queries K sqls c)) \<and>
      in_turn (map (run_statement K) sqls) c = (Inr (map (\<lambda>_. ()) rs), snd (queries K sqls c))"
    using assms
  proof (induction sqls arbitrary: c rs)
    case (Cons sql sqls)
    obtain r rs' d where rs: "rs = r # rs'" "query K sql c = (Inr r, d)" "fst (queries K sqls d) = map Inr rs'"
      using Cons.prems by (cases "query K sql c"; cases rs) (auto simp: split_beta)
    moreover have "run_statement K sql c = (Inr (), d)"
      using run_statement_result [of K sql c] run_statement_asks [of K sql c] rs(2)
      by (cases "run_statement K sql c") simp
    ultimately show ?case
      using Cons.IH [OF rs(3)] by (auto simp: in_turn_Cons split_beta)
  qed simp
  then show "in_turn (map (query K) sqls) c = (Inr rs, snd (queries K sqls c))"
    and "in_turn (map (run_statement K) sqls) c = (Inr (map (\<lambda>_. ()) rs), snd (queries K sqls c))"
    by simp_all
qed

text \<open>Two transports of one login are parties to a conversation.\<close>

lemma parties_demanded:
  assumes "codec K" and "body_ceiling K" and "constant_time Q" and "65600 \<le> max_body K"
    and "presentable db l" and "demanded far = None \<or> demanded far = Some l"
  shows "parties K Q db l (demanded far)"
  using assms by (auto simp: parties_def presentable_def login_fits_def login_strings_def)

text \<open>What comes of two ends that hear each other, the client let in and each statement answered.\<close>

lemma one_login:
  fixes rest :: "(('k, 'h) session, 'b) act"
  assumes parties: "parties K Q db l expected" and speaks: "speaks ss_writer rest"
    and talk: "conversing (near_end K pid db l sqls) (new_client r w) (far_end K Q expected rest) s"
    and let_in: "expected = None \<or> expected = Some l" and "length sqls = length as"
    and "list_all (\<lambda>a. answer_fits a \<and> length (encode_tokens K (answer_tokens a)) \<le> max_body K) as"
    and t: "t = entered K db l (concat (map (batch_packets K DEFAULT_PACKET_SIZE) sqls)) s"
    and "sent (ss_writer (snd (rest t))) = sent (ss_writer t) @ concat (map (answer_packets K) as)"
  obtains c where "connect_on K pid db l (new_client r w) = (Inr (), c)"
    and "fst (queries K sqls c) = map answer_result as"
    and "sent (cl_writer (snd (queries K sqls c))) = sent w @ hello K @ login_packets K pid db l
      @ concat (map (batch_packets K DEFAULT_PACKET_SIZE) sqls)"
    and "fst (far_end K Q expected rest s) = fst (rest t)"
proof -
  let ?near = "near_end K pid db l sqls (new_client r w)"
  note laws = conversingD [OF talk]
  note admitted = conversation_admitted [OF assms(1-6), unfolded Let_def, folded t, OF assms(8)]
  then obtain c where c: "connect_on K pid db l (new_client r w) = (Inr (), c)"
    "fst (queries K sqls c) = map answer_result as" "snd ?near = snd (queries K sqls c)"
    by (cases "connect_on K pid db l (new_client r w)", cases "fst (connect_on K pid db l (new_client r w))")
      (auto simp: near_end_def act_bind_def split_beta)
  obtain bs where bs: "incoming (ss_reader s) = hello K @ login_packets K pid db l @ bs"
    using conversation_opens [OF assms(1-3)] by blast
  then have "accept_on K Q expected s = (Inr (), entered K db l bs s)"
    using accept_on_entered(1) [OF _ _ _ laws(2) _ _ _ bs let_in] partiesD [OF parties] by blast
  with admitted have "incoming (ss_reader (entered K db l bs s)) = incoming (ss_reader t)" by simp
  then have "bs = concat (map (batch_packets K DEFAULT_PACKET_SIZE) sqls)" by (simp add: t entered_def)
  then have "sent (cl_writer (snd ?near)) = sent w @ hello K @ login_packets K pid db l
      @ concat (map (batch_packets K DEFAULT_PACKET_SIZE) sqls)"
    using laws(3) bs by simp
  moreover have "fst (far_end K Q expected rest s) = fst (rest t)"
    using admitted by (simp add: act_bind_def)
  ultimately show thesis using that c by simp
qed

subsection \<open>The far end\<close>

lemma speaks_held: "speaks ss_writer m \<Longrightarrow> speaks ss_writer (\<lambda>s. m (holding h s))"
proof -
  assume m: "speaks ss_writer m"
  have "ss_writer (holding h s) = ss_writer s" for s :: "('a, 'b) session" by (simp add: holding_def)
  with m show ?thesis unfolding speaks_def by metis
qed

lemma events_in_turn:
  assumes "codec K" and "body_ceiling K"
    and "list_all (\<lambda>sql. is_str sql \<and> length (encode_batch K sql) \<le> max_body K) sqls"
    and "sound (ss_writer s)" and "incoming (ss_reader s) = concat (map (batch_packets K n) sqls)"
  shows "\<exists>t. in_turn (replicate (length sqls) (next_event K Q)) s = (Inr (map (Some \<circ> snd) (replies Q sqls s)), t) \<and>
    sent (ss_writer t) = sent (ss_writer s) @ concat (map (answer_packets K) (map fst (replies Q sqls s)))"
  using assms(3-5)
proof (induction sqls arbitrary: s)
  case (Cons sql sqls)
  obtain a ev s1 where a: "answer_batch Q sql s = ((a, ev), s1)"
    by (metis surj_pair)
  define s2 where "s2 = s1\<lparr>ss_reader := (ss_reader s)\<lparr>incoming := concat (map (batch_packets K n) sqls)\<rparr>,
    ss_writer := (ss_writer s)\<lparr>sent := sent (ss_writer s) @ answer_packets K a\<rparr>\<rparr>"
  have "incoming (ss_reader s) = packets K SQL_BATCH (encode_batch K sql) n @ concat (map (batch_packets K n) sqls)"
    using Cons.prems(3) by (simp add: batch_packets_def [of K n sql])
  from next_event_batch [OF assms(1,2) _ _ _ this a] Cons.prems
  have event: "next_event K Q s = (Inr (Some ev), s2)"
    by (simp add: s2_def answer_packets_def)
  have same: "replies Q sqls s2 = replies Q sqls s1"
    unfolding s2_def by (rule replies_io)
  obtain t where "in_turn (replicate (length sqls) (next_event K Q)) s2 = (Inr (map (Some \<circ> snd) (replies Q sqls s2)), t)"
    "sent (ss_writer t) = sent (ss_writer s2) @ concat (map (answer_packets K) (map fst (replies Q sqls s2)))"
    using Cons.IH [of s2] Cons.prems by (auto simp: s2_def)
  with event show ?case
    by (auto simp: in_turn_Cons a same) (simp add: s2_def)
qed simp

subsection \<open>A pool that keeps the laws\<close>

text \<open>
  For the witnesses: what is kept under each key, which connections their server has not closed,
  and how many were opened. All else is as in the capability without liveness.
\<close>

record pool_state =
  ps_kept :: "str \<Rightarrow> client option"
  ps_live :: "writer \<Rightarrow> bool"
  ps_opened :: nat

definition no_connections :: pool_state where
  "no_connections = \<lparr>ps_kept = Map.empty, ps_live = (\<lambda>_. True), ps_opened = 0\<rparr>"

definition kept_live :: "pool_state \<Rightarrow> str \<Rightarrow> client option" where
  "kept_live s key = (case ps_kept s key of
     Some c \<Rightarrow> if usable (ps_live s) c then Some c else None
   | None \<Rightarrow> None)"

definition served :: "str \<Rightarrow> (client, 'a) act \<Rightarrow> client \<Rightarrow> (pool_state, 'a) act" where
  "served key step c s = (case step c of
     (Inl e, _) \<Rightarrow> (Inl e, s\<lparr>ps_kept := (ps_kept s)(key := None)\<rparr>)
   | (Inr x, c') \<Rightarrow> (Inr x, s\<lparr>ps_kept := (ps_kept s)(key \<mapsto> c'), ps_live := (ps_live s)(cl_writer c' := True)\<rparr>))"

definition pooled_exchange ::
    "unit \<Rightarrow> str \<Rightarrow> terror + client \<Rightarrow> (client, 'a) act \<Rightarrow> (pool_state, 'a) act" where
  "pooled_exchange p key conn step s = (case kept_live s key of
     Some c \<Rightarrow> served key step c s
   | None \<Rightarrow> (case conn of
       Inl e \<Rightarrow> (Inl e, s)
     | Inr c \<Rightarrow> served key step c (s\<lparr>ps_opened := Suc (ps_opened s)\<rparr>)))"

definition pooling_capability :: "(unit, unit, unit, pool_state, unit, str \<times> byte list) capability" where
  "pooling_capability = \<lparr>
     destination = destination reference_capability,
     literal = literal reference_capability,
     bytes_in = bytes_in reference_capability,
     insert_statement = insert_statement reference_capability,
     clone_pool = clone_pool reference_capability,
     exchange_query = pooled_exchange,
     exchange_unit = pooled_exchange,
     accepting = (\<lambda>_ _ _. ()),
     arrivals = (\<lambda>rows _ origin value bytes _ s. (reference_arrived rows origin value bytes, s))\<rparr>"

definition pooled :: "pool_state \<Rightarrow> unit \<Rightarrow> str \<Rightarrow> client \<Rightarrow> bool" where
  "pooled s q k c \<longleftrightarrow> ps_kept s k = Some c"

definition counted_open :: "pool_state \<Rightarrow> unit \<Rightarrow> nat" where
  "counted_open s q = ps_opened s"

lemmas pooling_defs = pooled_exchange_def served_def pooled_def kept_live_def

lemma anew_pooled: "anew pooled ps_live s p key \<longleftrightarrow> kept_live s key = None"
  by (auto simp: anew_def pooled_def kept_live_def split: option.split)

lemma only_pooled: "only_kept pooled s p key c \<longleftrightarrow> ps_kept s key = Some c"
  by (auto simp: only_kept_def pooled_def)

lemma runs_on_pooled:
  "runs_on pooled ps_live s p key conn c \<longleftrightarrow>
     kept_live s key = Some c \<or> kept_live s key = None \<and> conn = Inr c"
  by (auto simp: runs_on_def anew_pooled only_pooled kept_live_def split: option.splits if_splits)

lemma pooled_exchange_keeps:
  "pooled_exchange p key conn step s = (x, s') \<Longrightarrow> pooled s' q k c \<Longrightarrow>
     pooled s q k c \<or> k = key \<and> (\<exists>c0. (pooled s p key c0 \<or> conn = Inr c0) \<and> c = snd (step c0))"
  by (auto simp: pooling_defs split: option.splits sum.splits prod.splits if_splits)

lemma pooled_exchange_runs:
  "pooled_exchange p key conn step s = (x, s') \<Longrightarrow> \<forall>c0. \<not> pooled s p key c0 \<Longrightarrow>
     x = (case conn of Inl e \<Rightarrow> Inl e | Inr c0 \<Rightarrow> fst (step c0))"
  by (cases "ps_kept s key") (auto simp: pooling_defs split: sum.splits prod.splits)

interpretation pooled_exchanges: exchanging pooled_exchange pooled ps_live counted_open
proof
  fix p key conn and step :: "(client, 'a) act" and s x s' c u c'
  assume x: "pooled_exchange p key conn step s = (x, s')" and on: "runs_on pooled ps_live s p key conn c"
  then show "x = fst (step c) \<and>
      counted_open s' p = counted_open s p + (if anew pooled ps_live s p key then 1 else 0)"
    by (auto simp: runs_on_pooled anew_pooled pooled_exchange_def served_def counted_open_def
        split: sum.splits prod.splits)
  assume "step c = (Inr u, c')"
  with x on show "only_kept pooled s' p key c' \<and> usable (ps_live s') c'"
    by (auto simp: runs_on_pooled only_pooled usable_def pooled_exchange_def served_def)
qed

interpretation pooling: reusing_pool pooling_capability pooled ps_live counted_open
  by unfold_locales
    (auto simp: pooling_capability_def pooled_exchanges.runs pooled_exchanges.keeps
      dest: pooled_exchange_keeps pooled_exchange_runs)

interpretation pooling_forms: insert_forms pooling_capability reference_sql
  by unfold_locales
    (simp_all add: pooling_capability_def reference_forms.is_insert reference_forms.is_text reference_forms.taken_apart)

end
