(* ===== verification/Sends.thy ===== *)
theory Sends
  imports Reuse
begin

text \<open>
  Many sends on one connection: a transport logs in once however often it sends, and the far
  end's one session hands up everything that was sent, in order.
\<close>

definition send_all ::
    "'z externals_scheme \<Rightarrow> 32 word \<Rightarrow> 'd dialling
       \<Rightarrow> ('h, 'r, 'c, 's, 'verdict, 'arrived) capability \<Rightarrow> ('h, 'd, 'r, 'c) mssql_transport
       \<Rightarrow> str \<Rightarrow> byte list list \<Rightarrow> ('s, unit list) act" where
  "send_all K pid dial C t target bs = in_turn (map (send K pid dial C t target) bs)"

definition take_inserts ::
    "nat \<Rightarrow> 'z externals_scheme \<Rightarrow> ('h, 'v, 'p, 'y) sql_crate_scheme \<Rightarrow> ('k, 'h, 'p) insert_loop
       \<Rightarrow> (('k, 'h) session, (str \<times> 'p) option list) act" where
  "take_inserts n K Q first_insert = in_turn (replicate n (next_insert K Q first_insert))"

subsection \<open>The near end\<close>

lemma send_is_exchange:
  assumes "destination C SCHEMES target (tr_server t) (tr_database t) = Inr d"
    and "literal C (tr_column t) bytes = Inr l"
  shows "send K pid dial C t target bytes =
    exchange_unit C (tr_connections t) (pool_key (to_server d) (to_database d))
      (connect_to K pid dial t (to_server d) (to_database d))
      (run_statement K (insert_statement C (to_table d) (to_column d) l))"
  by (rule ext) (simp add: send_def assms)

context reusing_pool
begin

lemma sends_run:
  assumes "destination C SCHEMES target (tr_server t) (tr_database t) = Inr d"
    and literals: "list_all2 (\<lambda>b l. literal C (tr_column t) b = Inr l) bs ls" and "bs \<noteq> []"
    and on: "runs_on kept alive st (tr_connections t) (pool_key (to_server d) (to_database d))
      (connect_to K pid dial t (to_server d) (to_database d)) c"
    and sqls: "sqls = map (insert_statement C (to_table d) (to_column d)) ls"
    and answered: "fst (queries K sqls c) = map Inr rs"
  obtains st' where "send_all K pid dial C t target bs st = (Inr (map (\<lambda>_. ()) bs), st')"
    and "only_kept kept st' (tr_connections t) (pool_key (to_server d) (to_database d)) (snd (queries K sqls c))"
    and "opened st' (tr_connections t) = opened st (tr_connections t)
      + (if anew kept alive st (tr_connections t) (pool_key (to_server d) (to_database d)) then 1 else 0)"
proof -
  let ?exchange = "exchange_unit C (tr_connections t) (pool_key (to_server d) (to_database d))
    (connect_to K pid dial t (to_server d) (to_database d))"
  have "map (send K pid dial C t target) bs = map ?exchange (map (run_statement K) sqls)"
    using literals unfolding sqls
    by (induction rule: list_all2_induct) (simp_all add: send_is_exchange [OF assms(1)])
  moreover have "length rs = length bs" "sqls \<noteq> []"
    using arg_cong [OF answered, of length] list_all2_lengthD [OF literals] assms(3)
    by (auto simp: sqls queries_length)
  moreover have "zs = map (\<lambda>_. ()) bs" if "length zs = length bs" for zs
    using that by (simp add: list_eq_iff_nth_eq)
  ultimately show thesis
    using effects.exchanges_in_turn [OF on queries_in_turn(2) [OF answered], of act_return] that
    by (auto simp: send_all_def act_bind_return list_all2_lengthD simp del: map_map)
qed

end

subsection \<open>The far end\<close>

lemma take_inserts_speaks:
  assumes "insert_taker first_insert"
  shows "speaks ss_writer (take_inserts n K Q first_insert)"
  unfolding take_inserts_def by (intro in_turn_speaks) (simp add: insert_taker.next_insert_speaks [OF assms])

lemma inserts_taken:
  fixes s :: "('k, 'h) session"
  assumes "codec K" and "body_ceiling K" and "insert_taker first_insert" and "insert_forms C Q"
    and "plain_name table" and "plain_name column"
    and "list_all2 (\<lambda>b l. literal C h b = Inr l) bs ls"
    and "list_all (\<lambda>l. length (encode_batch K (insert_statement C table column l)) \<le> max_body K) ls"
    and "ss_column s = h" and "ss_answering s = None" and "sound (ss_writer s)"
    and "incoming (ss_reader s) = concat (map (batch_packets K n) (map (insert_statement C table column) ls))"
  shows "\<exists>t. take_inserts (length bs) K Q first_insert s =
      (Inr (map (\<lambda>b. Some (lit ''mssql://'' @ ss_peer s @ lit ''/'' @ database s @ lit ''/'' @ table
        @ lit ''/'' @ column, b)) bs), t) \<and>
    sent (ss_writer t) = sent (ss_writer s) @ concat (map (answer_packets K) (replicate (length bs) (Complete 1)))"
  using assms(7-12)
proof (induction bs ls arbitrary: s rule: list_all2_induct)
  case (Cons b bs l ls)
  let ?sql = "insert_statement C table column l" and ?more = "map (insert_statement C table column) ls"
  let ?at = "lit ''mssql://'' @ ss_peer s @ lit ''/'' @ database s @ lit ''/'' @ table @ lit ''/'' @ column"
  define t where "t = s\<lparr>ss_reader := (ss_reader s)\<lparr>incoming := concat (map (batch_packets K n) ?more)\<rparr>,
    ss_writer := (ss_writer s)\<lparr>sent := sent (ss_writer s) @ answer_packets K (Complete 1)\<rparr>\<rparr>"
  have literal: "literal C (ss_column s) b = Inr l" using Cons.hyps(1) Cons.prems(2) by simp
  have answer: "answer_batch Q ?sql s = ((Complete 1, Inserted ?at b), s)"
    by (rule insert_forms.insert_answered [OF assms(4) literal assms(5,6) Cons.prems(3)])
  have "incoming (ss_reader s) = packets K SQL_BATCH (encode_batch K ?sql) n @ concat (map (batch_packets K n) ?more)"
    using Cons.prems(5) by (simp add: batch_packets_def [of K n ?sql])
  from next_event_batch [OF assms(1,2) Cons.prems(4) insert_forms.is_text [OF assms(4) literal assms(5,6)] _ this answer]
  have event: "next_event K Q s = (Inr (Some (Inserted ?at b)), t)"
    using Cons.prems(1) by (simp add: t_def answer_packets_def)
  have first: "next_insert K Q first_insert s = (Inr (Some (?at, b)), t)"
    using insert_taker.takes [OF assms(3), of "next_event K Q" s _ t inserted, OF event]
    by (simp add: next_insert_def inserted_def)
  have "ss_peer t = ss_peer s" "database t = database s" by (simp_all add: t_def database_def)
  with Cons.IH [of t] Cons.prems first show ?case
    by (auto simp: t_def take_inserts_def in_turn_Cons)
qed (simp add: take_inserts_def)

subsection \<open>Properties\<close>

text \<open>C4: However much one transport sends to one place, it logs in once, and it does so whenever
  what it kept, if anything, has been closed by the server: every payload goes as a batch over one
  new connection, the only one opened, which says the greeting, the login and the batches and
  nothing else and is what the pool keeps; and the one session the far end accepted, demanding the
  login given or none, hands up the payloads one after another, in order and byte for byte.\<close>

theorem sends_log_in_once:
  assumes "codec K" and "body_ceiling K" and "constant_time Q" and "insert_taker first_insert"
    and "insert_forms C Q" and "reusing_pool C kept alive opened" and "65600 \<le> max_body K"
    and "destination C SCHEMES target (tr_server near) (tr_database near) = Inr d"
    and "plain_name (to_table d)" and "plain_name (to_column d)"
    and literals: "list_all2 (\<lambda>b l. literal C (tr_column near) b = Inr l) payloads ls" and "payloads \<noteq> []"
    and "tr_column far = tr_column near"
    and "presentable (to_database d) (transport_login near)"
    and "tr_password far = None \<or> transport_login far = transport_login near"
    and sqls: "sqls = map (insert_statement C (to_table d) (to_column d)) ls"
    and "list_all (\<lambda>sql. length (encode_batch K sql) \<le> max_body K) sqls"
    and "dial (to_server d) (tr_timeout near) = Inr (r, w)"
    and "\<forall>c. kept st (tr_connections near) (pool_key (to_server d) (to_database d)) c \<longrightarrow> \<not> usable (alive st) c"
    and talk: "conversing (near_end K pid (to_database d) (transport_login near) sqls) (new_client r w)
      (far_end K Q (demanded far) (\<lambda>s. take_inserts (length payloads) K Q first_insert (holding (tr_column far) s)))
      (new_session r' w' peer k held)"
  shows "\<exists>st' c. send_all K pid dial C near target payloads st = (Inr (map (\<lambda>_. ()) payloads), st') \<and>
    only_kept kept st' (tr_connections near) (pool_key (to_server d) (to_database d)) c \<and>
    opened st' (tr_connections near) = Suc (opened st (tr_connections near)) \<and>
    sent (cl_writer c) = sent w @ hello K @ login_packets K pid (to_database d) (transport_login near)
      @ concat (map (batch_packets K DEFAULT_PACKET_SIZE) sqls) \<and>
    fst (far_end K Q (demanded far) (\<lambda>s. take_inserts (length payloads) K Q first_insert (holding (tr_column far) s))
        (new_session r' w' peer k held)) =
      Inr (map (\<lambda>b. Some (lit ''mssql://'' @ peer @ lit ''/'' @ to_database d @ lit ''/'' @ to_table d
        @ lit ''/'' @ to_column d, b)) payloads)"
proof -
  let ?s = "new_session r' w' peer k held" and ?db = "to_database d" and ?login = "transport_login near"
    and ?as = "replicate (length payloads) (Complete 1)"
  let ?rest = "\<lambda>s. take_inserts (length payloads) K Q first_insert (holding (tr_column far) s)"
  define t where "t = entered K ?db ?login (concat (map (batch_packets K DEFAULT_PACKET_SIZE) sqls)) ?s"
  have let_in: "demanded far = None \<or> demanded far = Some ?login"
    using assms(15) by (auto simp: demanded_def)
  have parties: "parties K Q ?db ?login (demanded far)"
    by (rule parties_demanded [OF assms(1-3,7,14) let_in])
  have t: "ss_column (holding (tr_column far) t) = tr_column near" "ss_answering (holding (tr_column far) t) = None"
    "sound (ss_writer (holding (tr_column far) t))" "ss_peer (holding (tr_column far) t) = peer"
    "database (holding (tr_column far) t) = ?db" "ss_writer (holding (tr_column far) t) = ss_writer t"
    "incoming (ss_reader (holding (tr_column far) t)) = concat (map (batch_packets K DEFAULT_PACKET_SIZE) sqls)"
    using conversingD(2) [OF talk] assms(13) by (simp_all add: t_def entered_def holding_def new_session_def database_def)
  have "list_all (\<lambda>l. length (encode_batch K (insert_statement C (to_table d) (to_column d) l)) \<le> max_body K) ls"
    using assms(17) by (simp add: sqls list_all_length)
  from inserts_taken [OF assms(1,2,4,5,9,10) literals this t(1-3), of DEFAULT_PACKET_SIZE] t(4-7)
  obtain t' where t': "?rest t = (Inr (map (\<lambda>b. Some (lit ''mssql://'' @ peer @ lit ''/'' @ ?db @ lit ''/''
      @ to_table d @ lit ''/'' @ to_column d, b)) payloads), t')"
    "sent (ss_writer t') = sent (ss_writer t) @ concat (map (answer_packets K) ?as)"
    by (auto simp: sqls)
  have fits: "list_all (\<lambda>a. answer_fits a \<and> length (encode_tokens K (answer_tokens a)) \<le> max_body K) ?as"
    using done_answer [OF assms(1,7), of 1] by (simp add: list_all_length)
  have lengths: "length sqls = length ?as"
    using list_all2_lengthD [OF literals] by (simp add: sqls)
  have speaks: "speaks ss_writer ?rest" by (intro speaks_held take_inserts_speaks assms(4))
  have "sent (ss_writer (snd (?rest t))) = sent (ss_writer t) @ concat (map (answer_packets K) ?as)"
    using t' by simp
  from one_login [OF parties speaks talk let_in lengths fits t_def this]
  obtain c where c: "connect_on K pid ?db ?login (new_client r w) = (Inr (), c)"
    "fst (queries K sqls c) = map answer_result ?as"
    "sent (cl_writer (snd (queries K sqls c))) = sent w @ hello K @ login_packets K pid ?db ?login
      @ concat (map (batch_packets K DEFAULT_PACKET_SIZE) sqls)"
    "fst (far_end K Q (demanded far) ?rest ?s) = fst (?rest t)" .
  have "connect_to K pid dial near (to_server d) ?db = Inr c"
    using c(1) by (simp add: connect_to_def connect_def assms(18))
  then have fresh: "anew kept alive st (tr_connections near) (pool_key (to_server d) ?db)"
    "runs_on kept alive st (tr_connections near) (pool_key (to_server d) ?db)
      (connect_to K pid dial near (to_server d) ?db) c"
    using assms(19) by (simp_all add: anew_def runs_on_def)
  have "fst (queries K sqls c) = map Inr (replicate (length payloads) \<lparr>qr_columns = [], qr_rows = [], qr_rows_affected = 1\<rparr>)"
    using c(2) by (simp add: answer_result_def)
  from reusing_pool.sends_run [OF assms(6,8) literals assms(12) fresh(2) sqls this]
  obtain st' where "send_all K pid dial C near target payloads st = (Inr (map (\<lambda>_. ()) payloads), st')"
    "only_kept kept st' (tr_connections near) (pool_key (to_server d) ?db) (snd (queries K sqls c))"
    "opened st' (tr_connections near) = Suc (opened st (tr_connections near))"
    using fresh(1) by auto
  then show ?thesis using c(3,4) t'(1) by auto
qed

theorem sends_log_in_once_witness:
  "\<exists>r r'. fst (send_all reference 7 (\<lambda>_ _. Inr (r, quiet_writer)) pooling_capability sample_transport
      (lit ''inbox/payload'') [[1, 2], [3]] no_connections) = Inr [(), ()] \<and>
    fst (far_end reference reference_sql (demanded sample_transport)
        (\<lambda>s :: (unit, unit) session. take_inserts 2 reference reference_sql reference_first_insert (holding () s))
        (new_session r' quiet_writer (lit ''peer'') () ())) =
      Inr [Some (lit ''mssql://peer/orders/inbox/payload'', [1, 2]),
        Some (lit ''mssql://peer/orders/inbox/payload'', [3])]"
proof -
  let ?d = "\<lparr>to_server = lit ''sql:1433'', to_database = lit ''orders'',
    to_table = lit ''inbox'', to_column = lit ''payload''\<rparr>"
  let ?bs = "[[1, 2], [3]] :: byte list list"
  let ?rest = "\<lambda>s :: (unit, unit) session. take_inserts (length ?bs) reference reference_sql
    reference_first_insert (holding (tr_column sample_transport) s)"
  define sqls where "sqls = map (insert_statement pooling_capability (to_table ?d) (to_column ?d)) (map quote_hex ?bs)"
  define r' where "r' = \<lparr>incoming = hello reference @ login_packets reference 7 (lit ''orders'') sample_credentials
    @ concat (map (batch_packets reference DEFAULT_PACKET_SIZE) sqls), ending = Closed\<rparr>"
  define r where "r = \<lparr>incoming = hello_back reference @ token_packets reference (welcome_tokens (lit ''orders''))
    @ concat (map (answer_packets reference) [Complete 1, Complete 1]), ending = Closed\<rparr>"
  let ?s = "new_session r' quiet_writer (lit ''peer'') () () :: (unit, unit) session"
  define t where "t = entered reference (lit ''orders'') sample_credentials
    (concat (map (batch_packets reference DEFAULT_PACKET_SIZE) sqls)) ?s"
  have target: "destination pooling_capability SCHEMES (lit ''inbox/payload'') (tr_server sample_transport)
      (tr_database sample_transport) = Inr ?d"
    by (simp add: pooling_capability_def reference_capability_def)
  have names: "plain_name (to_table ?d)" "plain_name (to_column ?d)"
    by (simp_all add: plain_name_def lit_def)
  have literals: "list_all2 (\<lambda>b l. literal pooling_capability h b = Inr l) ?bs (map quote_hex ?bs)" for h
    by (simp add: pooling_capability_def reference_capability_def)
  have sizes: "list_all (\<lambda>sql. length (encode_batch reference sql) \<le> max_body reference) sqls"
    by (simp add: encode_batch_def reference_laws(3) [THEN text_forms.utf16_length] sqls_def
        pooling_capability_def reference_capability_def quote_hex_def hex_byte_def hex_digit_def)
  then have rows: "list_all (\<lambda>l. length (encode_batch reference (insert_statement pooling_capability
      (to_table ?d) (to_column ?d) l)) \<le> max_body reference) (map quote_hex ?bs)"
    by (simp add: sqls_def)
  have "incoming (ss_reader (holding (tr_column sample_transport) t)) = concat (map (batch_packets reference
      DEFAULT_PACKET_SIZE) (map (insert_statement pooling_capability (to_table ?d) (to_column ?d)) (map quote_hex ?bs)))"
    by (simp add: t_def entered_def holding_def sqls_def)
  moreover have "sound (ss_writer (holding (tr_column sample_transport) t))"
    "ss_answering (holding (tr_column sample_transport) t) = None"
    by (simp_all add: t_def entered_def holding_def new_session_def)
  ultimately have "sent (ss_writer (snd (?rest t))) = sent (ss_writer t) @ concat (map (answer_packets reference) [Complete 1, Complete 1])"
    using inserts_taken [OF reference_laws(4,5) reference_inserts.insert_taker_axioms
        pooling_forms.insert_forms_axioms names literals rows, where s = "holding (tr_column sample_transport) t" and n = DEFAULT_PACKET_SIZE]
    by (auto simp: holding_def)
  from conversation_exists [OF sample_parties, where rest = ?rest and t = t and as = "[Complete 1, Complete 1]"
      and sqls = sqls and s = ?s and r = r and w = quiet_writer, OF _ _ _ _ _ _ _ t_def this]
  have talk: "conversing (near_end reference 7 (to_database ?d) (transport_login sample_transport) sqls)
      (new_client r quiet_writer)
      (far_end reference reference_sql (demanded sample_transport) ?rest) ?s"
    by (simp add: sample_demanded r_def r'_def) (simp add: new_session_def)
  have "presentable (to_database ?d) (transport_login sample_transport)"
    using partiesD(6) [OF sample_parties] by simp
  moreover have "\<forall>c. pooled no_connections () (pool_key (to_server ?d) (to_database ?d)) c \<longrightarrow> \<not> usable (ps_live no_connections) c"
    by (simp add: pooled_def no_connections_def)
  ultimately have "\<exists>st' c. send_all reference 7 (\<lambda>_ _. Inr (r, quiet_writer)) pooling_capability sample_transport
      (lit ''inbox/payload'') ?bs no_connections = (Inr (map (\<lambda>_. ()) ?bs), st') \<and>
    only_kept pooled st' (tr_connections sample_transport) (pool_key (to_server ?d) (to_database ?d)) c \<and>
    counted_open st' (tr_connections sample_transport) = Suc (counted_open no_connections (tr_connections sample_transport)) \<and>
    sent (cl_writer c) = sent quiet_writer @ hello reference @ login_packets reference 7 (to_database ?d)
      (transport_login sample_transport) @ concat (map (batch_packets reference DEFAULT_PACKET_SIZE) sqls) \<and>
    fst (far_end reference reference_sql (demanded sample_transport) ?rest ?s) =
      Inr (map (\<lambda>b. Some (lit ''mssql://'' @ lit ''peer'' @ lit ''/'' @ to_database ?d @ lit ''/'' @ to_table ?d
        @ lit ''/'' @ to_column ?d, b)) ?bs)"
    by (intro sends_log_in_once [OF reference_laws(4,5) reference_constant_time.constant_time_axioms
        reference_inserts.insert_taker_axioms pooling_forms.insert_forms_axioms pooling.reusing_pool_axioms
        _ target names literals _ refl _ _ sqls_def sizes _ _ talk]) simp_all
  moreover have "lit ''mssql://'' @ lit ''peer'' @ lit ''/'' @ to_database ?d @ lit ''/'' @ to_table ?d
      @ lit ''/'' @ to_column ?d = lit ''mssql://peer/orders/inbox/payload''"
    by (simp add: lit_def)
  ultimately show ?thesis
    by - (rule exI [of _ r], rule exI [of _ r'],
        auto simp: numeral_2_eq_2)
qed

end
