(* ===== verification/Receives.thy ===== *)
theory Receives
  imports Reuse
begin

text \<open>
  Many receives on one connection: a transport logs in once however often it receives, and each
  receive hands up what the far end answered its query with.
\<close>

definition receive_all ::
    "nat \<Rightarrow> 'z externals_scheme \<Rightarrow> 32 word \<Rightarrow> 'd dialling
       \<Rightarrow> ('h, 'r, 'c, 's, 'verdict, 'arrived) capability \<Rightarrow> ('h, 'd, 'r, 'c) mssql_transport
       \<Rightarrow> ('s, 'arrived list list) act" where
  "receive_all n K pid dial C t = in_turn (replicate n (receive K pid dial C t))"

definition take_events ::
    "nat \<Rightarrow> 'z externals_scheme \<Rightarrow> ('h, 'v, 'p, 'y) sql_crate_scheme
       \<Rightarrow> (('k, 'h) session, 'p event option list) act" where
  "take_events n K Q = in_turn (replicate n (next_event K Q))"

text \<open>What a receive makes of the rows it has read.\<close>

definition rows_arrive ::
    "'z externals_scheme \<Rightarrow> 32 word \<Rightarrow> 'd dialling
       \<Rightarrow> ('h, 'r, 'c, 's, 'verdict, 'arrived) capability \<Rightarrow> ('h, 'd, 'r, 'c) mssql_transport
       \<Rightarrow> str option list list \<Rightarrow> ('s, 'arrived list) act" where
  "rows_arrive K pid dial C t rows =
     arrivals C rows (tr_refused t)
       (\<lambda>name. lit ''mssql://'' @ tr_server t @ lit ''/'' @ tr_database t @ lit ''?row='' @ name)
       (\<lambda>value. value) (bytes_in C (tr_column t))
       (\<lambda>name. accepting C (tr_accept t) name (run_accept K pid dial C (clone_transport C t)))"

lemma receive_is_exchange:
  "receive K pid dial C t =
     act_bind (exchange_query C (tr_connections t) (pool_key (tr_server t) (tr_database t))
       (connect_to K pid dial t (tr_server t) (tr_database t)) (query K (tr_query t)))
       (\<lambda>result. rows_arrive K pid dial C t (qr_rows result))"
  by (simp add: receive_def rows_arrive_def transport_connect_def Let_def)

context reusing_pool
begin

lemma rows_arrive_apart:
  "rows_arrive K pid dial C t rows s = (z, s') \<Longrightarrow> kept s' = kept s \<and> alive s' = alive s \<and> opened s' = opened s"
  unfolding rows_arrive_def by (rule arrivals_apart)

lemma receives_run_keeping:
  assumes "0 < n"
    and on: "runs_on kept alive st (tr_connections t) (pool_key (tr_server t) (tr_database t))
      (connect_to K pid dial t (tr_server t) (tr_database t)) c"
    and answered: "fst (queries K (replicate n (tr_query t)) c) = map Inr rs"
    and start: "I st" and keeps: "\<forall>p key conn step s. I s \<longrightarrow> I (snd (exchange_query C p key conn step s))"
    and arrive: "\<And>result st. result \<in> set rs \<Longrightarrow> I st \<Longrightarrow>
      \<exists>z st'. rows_arrive K pid dial C t (qr_rows result) st = (Inr z, st') \<and> I st'"
  obtains zs st' where "receive_all n K pid dial C t st = (Inr zs, st')"
    and "list_all2 (\<lambda>z result. \<exists>st st'. I st \<and> rows_arrive K pid dial C t (qr_rows result) st = (Inr z, st')) zs rs"
    and "only_kept kept st' (tr_connections t) (pool_key (tr_server t) (tr_database t))
      (snd (queries K (replicate n (tr_query t)) c))"
    and "opened st' (tr_connections t) = opened st (tr_connections t)
      + (if anew kept alive st (tr_connections t) (pool_key (tr_server t) (tr_database t)) then 1 else 0)"
    and "I st'"
proof -
  have "\<exists>z s'. rows_arrive K pid dial C t (qr_rows u) s = (Inr z, s') \<and> I s' \<and>
      kept s' = kept s \<and> alive s' = alive s \<and> opened s' = opened s" if "u \<in> set rs" "I s" for u s
    using arrive [OF that] rows_arrive_apart by blast
  from rows.exchanges_keeping [where after = "\<lambda>result. rows_arrive K pid dial C t (qr_rows result)" and I = I,
      OF on queries_in_turn(1) [OF answered] start _ this] keeps that assms(1)
  show thesis
    by (auto simp: receive_all_def receive_is_exchange)
qed

lemma receives_run:
  assumes "0 < n"
    and on: "runs_on kept alive st (tr_connections t) (pool_key (tr_server t) (tr_database t))
      (connect_to K pid dial t (tr_server t) (tr_database t)) c"
    and answered: "fst (queries K (replicate n (tr_query t)) c) = map Inr rs"
    and arrive: "\<forall>result \<in> set rs. \<forall>st. \<exists>z st'. rows_arrive K pid dial C t (qr_rows result) st = (Inr z, st')"
  obtains zs st' where "receive_all n K pid dial C t st = (Inr zs, st')"
    and "list_all2 (\<lambda>z result. \<exists>st st'. rows_arrive K pid dial C t (qr_rows result) st = (Inr z, st')) zs rs"
    and "only_kept kept st' (tr_connections t) (pool_key (tr_server t) (tr_database t))
      (snd (queries K (replicate n (tr_query t)) c))"
    and "opened st' (tr_connections t) = opened st (tr_connections t)
      + (if anew kept alive st (tr_connections t) (pool_key (tr_server t) (tr_database t)) then 1 else 0)"
  by (rule receives_run_keeping [where I = "\<lambda>_. True" and n = n and rs = rs and t = t, OF assms(1) on answered])
    (use arrive that in auto)

end

subsection \<open>Properties\<close>

text \<open>C5: However often a transport receives, it logs in once, and it does so whenever what it kept,
  if anything, has been closed by the server: each receive runs the query over the one new
  connection, which says the greeting, the login and the queries and nothing else and is what the
  pool keeps; each hands up what arrives of the rows its query was answered with; and the one
  session the far end accepted reports the queries in order.\<close>

theorem receives_log_in_once:
  assumes "codec K" and "body_ceiling K" and "constant_time Q"
    and "reusing_pool C kept alive opened" and "65600 \<le> max_body K"
    and "presentable (tr_database near) (transport_login near)"
    and "tr_password far = None \<or> transport_login far = transport_login near"
    and "is_str (tr_query near)" and "length (encode_batch K (tr_query near)) \<le> max_body K"
    and "dial (tr_server near) (tr_timeout near) = Inr (r, w)" and "0 < n"
    and "\<forall>c. kept st (tr_connections near) (pool_key (tr_server near) (tr_database near)) c \<longrightarrow> \<not> usable (alive st) c"
    and told: "told = replies Q (replicate n (tr_query near))
      (s\<lparr>ss_login := new_login7 (transport_login near) (tr_database near)\<rparr>)"
    and fits: "list_all (\<lambda>a. answer_fits a \<and> length (encode_tokens K (answer_tokens a)) \<le> max_body K) (map fst told)"
    and results: "map (answer_result \<circ> fst) told = map Inr rs"
    and arrive: "\<forall>result \<in> set rs. \<forall>st. \<exists>z st'. rows_arrive K pid dial C near (qr_rows result) st = (Inr z, st')"
    and talk: "conversing (near_end K pid (tr_database near) (transport_login near) (replicate n (tr_query near)))
      (new_client r w) (far_end K Q (demanded far) (take_events n K Q)) s"
  shows "\<exists>zs st' c. receive_all n K pid dial C near st = (Inr zs, st') \<and>
    list_all2 (\<lambda>z result. \<exists>st st'. rows_arrive K pid dial C near (qr_rows result) st = (Inr z, st')) zs rs \<and>
    only_kept kept st' (tr_connections near) (pool_key (tr_server near) (tr_database near)) c \<and>
    opened st' (tr_connections near) = Suc (opened st (tr_connections near)) \<and>
    sent (cl_writer c) = sent w @ hello K @ login_packets K pid (tr_database near) (transport_login near)
      @ concat (replicate n (batch_packets K DEFAULT_PACKET_SIZE (tr_query near))) \<and>
    fst (far_end K Q (demanded far) (take_events n K Q) s) = Inr (map (Some \<circ> snd) told)"
proof -
  let ?db = "tr_database near" and ?login = "transport_login near" and ?sqls = "replicate n (tr_query near)"
    and ?key = "pool_key (tr_server near) (tr_database near)"
  define t where "t = entered K ?db ?login (concat (map (batch_packets K DEFAULT_PACKET_SIZE) ?sqls)) s"
  have let_in: "demanded far = None \<or> demanded far = Some ?login"
    using assms(7) by (auto simp: demanded_def)
  have parties: "parties K Q ?db ?login (demanded far)"
    by (rule parties_demanded [OF assms(1-3,5,6) let_in])
  have "t = (s\<lparr>ss_login := new_login7 ?login ?db\<rparr>)\<lparr>ss_reader := ss_reader t, ss_writer := ss_writer t\<rparr>"
    by (rule session.equality) (simp_all add: t_def entered_def)
  then have same: "replies Q ?sqls t = told" by (metis told replies_io)
  have "list_all (\<lambda>sql. is_str sql \<and> length (encode_batch K sql) \<le> max_body K) ?sqls"
    using assms(8,9) by (simp add: list_all_length)
  moreover have "sound (ss_writer t)" "incoming (ss_reader t) = concat (map (batch_packets K DEFAULT_PACKET_SIZE) ?sqls)"
    using conversingD(2) [OF talk] by (simp_all add: t_def entered_def)
  ultimately obtain t' where t': "take_events n K Q t = (Inr (map (Some \<circ> snd) told), t')"
    "sent (ss_writer t') = sent (ss_writer t) @ concat (map (answer_packets K) (map fst told))"
    using events_in_turn [OF assms(1,2), of ?sqls t DEFAULT_PACKET_SIZE Q]
    by (auto simp: take_events_def same)
  have speaks: "speaks ss_writer (take_events n K Q)"
    unfolding take_events_def by (intro in_turn_speaks) (simp add: next_event_speaks)
  have lengths: "length ?sqls = length (map fst told)" by (simp add: told length_replies)
  have "sent (ss_writer (snd (take_events n K Q t))) = sent (ss_writer t) @ concat (map (answer_packets K) (map fst told))"
    using t' by simp
  from one_login [OF parties speaks talk let_in lengths fits t_def this]
  obtain c where c: "connect_on K pid ?db ?login (new_client r w) = (Inr (), c)"
    "fst (queries K ?sqls c) = map answer_result (map fst told)"
    "sent (cl_writer (snd (queries K ?sqls c))) = sent w @ hello K @ login_packets K pid ?db ?login
      @ concat (map (batch_packets K DEFAULT_PACKET_SIZE) ?sqls)"
    "fst (far_end K Q (demanded far) (take_events n K Q) s) = fst (take_events n K Q t)" .
  have "connect_to K pid dial near (tr_server near) ?db = Inr c"
    using c(1) by (simp add: connect_to_def connect_def assms(10))
  then have fresh: "anew kept alive st (tr_connections near) ?key"
    "runs_on kept alive st (tr_connections near) ?key (connect_to K pid dial near (tr_server near) ?db) c"
    using assms(12) by (simp_all add: anew_def runs_on_def)
  have "fst (queries K ?sqls c) = map Inr rs" using c(2) results by simp
  from reusing_pool.receives_run [OF assms(4,11) fresh(2) this arrive]
  obtain zs st' where "receive_all n K pid dial C near st = (Inr zs, st')"
    "list_all2 (\<lambda>z result. \<exists>st st'. rows_arrive K pid dial C near (qr_rows result) st = (Inr z, st')) zs rs"
    "only_kept kept st' (tr_connections near) ?key (snd (queries K ?sqls c))"
    "opened st' (tr_connections near) = Suc (opened st (tr_connections near))"
    using fresh(1) by auto
  then show ?thesis using c(3,4) t'(1) by auto
qed

text \<open>A row of the table, answered twice.\<close>

definition sample_rows :: answer where
  "sample_rows = Rows [lit ''id'', lit ''payload''] [[Some (lit ''7''), Some (lit ''0x0a'')]]"

lemma sample_rows_fit:
  "answer_fits sample_rows \<and> length (encode_tokens reference (answer_tokens sample_rows)) \<le> max_body reference"
  by (simp add: sample_rows_def answer_fits_def name_fits_def
      answer_tokens_def codec.encode_tokens_bytes [OF reference_laws(4)]
      codec.token_bytes_simps [OF reference_laws(4)] columns_after_def column_bytes_def
      codec.push_column_bytes [OF reference_laws(4)] text_column_def new_column_def
      write_type_info_def codec.b_varchar_bytes [OF reference_laws(4)]
      codec.length_counted [OF reference_laws(4)] write_value_def write_bytes_def write_plp_chunks
      length_plp_chunks length_chunks reference_laws(3) [THEN text_forms.utf16_length])

lemma sample_rows_arrive:
  "rows_arrive reference pid dial pooling_capability sample_transport [[Some (lit ''7''), Some (lit ''0x0a'')]] st =
    (Inr [(lit ''mssql://sql:1433/orders?row=7'', [0x0A])], st)"
  by (simp add: rows_arrive_def pooling_capability_def reference_capability_def)
    (simp add: lit_def unquote_hex_def hex_value_def)

theorem receives_log_in_once_witness:
  "\<exists>r s. fst (receive_all 2 reference 7 (\<lambda>_ _. Inr (r, quiet_writer)) pooling_capability sample_transport no_connections) =
      Inr [[(lit ''mssql://sql:1433/orders?row=7'', [0x0A])], [(lit ''mssql://sql:1433/orders?row=7'', [0x0A])]] \<and>
    fst (far_end reference reference_sql (demanded sample_transport)
      (take_events 2 reference reference_sql) (s :: (unit, unit) session)) =
      Inr [Some (Selected DEFAULT_QUERY), Some (Selected DEFAULT_QUERY)]"
proof -
  let ?db = "tr_database sample_transport" and ?login = "transport_login sample_transport"
    and ?sqls = "replicate 2 (tr_query sample_transport)"
    and ?told = "replicate 2 (sample_rows, Selected DEFAULT_QUERY)"
  let ?result = "\<lparr>qr_columns = [lit ''id'', lit ''payload''],
    qr_rows = [[Some (lit ''7''), Some (lit ''0x0a'')]], qr_rows_affected = 1\<rparr>"
  let ?sent = "concat (map (batch_packets reference DEFAULT_PACKET_SIZE) ?sqls)"
  define s :: "(unit, unit) session" where "s = (idle_session (hello reference
    @ login_packets reference 7 ?db ?login @ ?sent))
    \<lparr>ss_columns := [lit ''id'', lit ''payload''], ss_rows := [[Some (lit ''7''), Some (lit ''0x0a'')]]\<rparr>"
  define r where "r = \<lparr>incoming = hello_back reference @ token_packets reference (welcome_tokens ?db)
    @ concat (map (answer_packets reference) (map fst ?told)), ending = Closed\<rparr>"
  define t where "t = entered reference ?db ?login ?sent s"
  have query: "tr_query sample_transport = DEFAULT_QUERY"
    by (simp add: sample_transport_def with_password_def new_transport_def)
  have answer: "answer_batch reference_sql DEFAULT_QUERY u = ((sample_rows, Selected DEFAULT_QUERY), u)"
    if "ss_answering u = None" "ss_columns u = ss_columns s" "ss_rows u = ss_rows s" for u :: "(unit, unit) session"
    using that by (simp add: answer_batch_def s_def sample_rows_def reference_sql_def DEFAULT_QUERY_def lit_def)
  have kept: "ss_answering s = None" "ss_answering t = None" "ss_columns t = ss_columns s" "ss_rows t = ss_rows s"
    by (simp_all add: t_def s_def entered_def idle_session_def new_session_def)
  have told: "?told = replies reference_sql ?sqls u"
    if "ss_answering u = None" "ss_columns u = ss_columns s" "ss_rows u = ss_rows s" for u :: "(unit, unit) session"
    using answer [OF that] by (simp add: query numeral_2_eq_2)
  have size: "is_str (tr_query sample_transport)" "length (encode_batch reference (tr_query sample_transport)) \<le> max_body reference"
    unfolding query by (simp_all add: DEFAULT_QUERY_def encode_batch_def
        reference_laws(3) [THEN text_forms.utf16_length])
  have quiet: "sound (ss_writer s)" "sent (ss_writer s) = []" "incoming (ss_reader s) = hello reference
      @ login_packets reference 7 ?db ?login @ ?sent"
    by (simp_all add: s_def)
  have "sound (ss_writer t)" "incoming (ss_reader t) = ?sent" "list_all (\<lambda>sql. is_str sql \<and>
      length (encode_batch reference sql) \<le> max_body reference) ?sqls"
    using quiet(1) size by (simp_all add: t_def entered_def list_all_length)
  from events_in_turn [OF reference_laws(4,5) this(3,1,2), of reference_sql] told [OF kept(2-4), symmetric]
  have "sent (ss_writer (snd (take_events 2 reference reference_sql t))) =
      sent (ss_writer t) @ concat (map (answer_packets reference) (map fst ?told))"
    by (auto simp: take_events_def)
  from conversation_exists [OF sample_parties, where rest = "take_events 2 reference reference_sql" and t = t
      and as = "map fst ?told" and sqls = ?sqls and s = s and r = r and w = quiet_writer, OF _ _ _ _ _ _ _ _ this]
  have talk: "conversing (near_end reference 7 ?db ?login ?sqls) (new_client r quiet_writer)
      (far_end reference reference_sql (demanded sample_transport) (take_events 2 reference reference_sql)) s"
    using quiet by (simp add: sample_demanded r_def t_def)
  have "\<exists>zs st' c. receive_all 2 reference 7 (\<lambda>_ _. Inr (r, quiet_writer)) pooling_capability sample_transport
      no_connections = (Inr zs, st') \<and>
    list_all2 (\<lambda>z result. \<exists>st st'. rows_arrive reference 7 (\<lambda>_ _. Inr (r, quiet_writer)) pooling_capability
      sample_transport (qr_rows result) st = (Inr z, st')) zs [?result, ?result] \<and>
    only_kept pooled st' (tr_connections sample_transport) (pool_key (tr_server sample_transport) ?db) c \<and>
    counted_open st' (tr_connections sample_transport) = Suc (counted_open no_connections (tr_connections sample_transport)) \<and>
    sent (cl_writer c) = sent quiet_writer @ hello reference @ login_packets reference 7 ?db ?login
      @ concat (replicate 2 (batch_packets reference DEFAULT_PACKET_SIZE (tr_query sample_transport))) \<and>
    fst (far_end reference reference_sql (demanded sample_transport) (take_events 2 reference reference_sql) s) =
      Inr (map (Some \<circ> snd) ?told)"
    by (rule receives_log_in_once [OF reference_laws(4,5) reference_constant_time.constant_time_axioms
        pooling.reusing_pool_axioms _ _ _ size _ _ _ told _ _ _ talk])
      (use partiesD(6) [OF sample_parties] sample_rows_fit kept sample_rows_arrive
        in \<open>simp_all add: pooled_def no_connections_def sample_rows_def answer_result_def numeral_2_eq_2\<close>)
  then show ?thesis
    by - (rule exI [of _ r], rule exI [of _ s], auto simp: sample_rows_arrive list_all2_Cons2 numeral_2_eq_2)
qed

end
