(* ===== verification/Tests_Transport.thy ===== *)
theory Tests_Transport
  imports Tests_Ends Sends Receives
begin

text \<open>
  Tests of \<^verbatim>\<open>lib.rs\<close> that run a transport against its far end in a thread, in the manner of
  \<open>Tests_Ends\<close>: each end is run on what the other is to say, and the test asserts besides that
  what the pool keeps has said what the far end was run on. The clock is not modelled, nor what
  the tests assert of it.
\<close>

text \<open>
  What these take of the other crates: targets, literals and statements of plain names, a pool
  that starts idle, whose handles are shared by clones and whose connections a server may close
  (\<open>hang_up\<close>), and rows without a payload, which arrive unless they are refused. \<open>refusing\<close> is
  the memory of refused rows: it starts empty, and what refuses a row is a verdict, so no
  exchange, arrival or closed connection makes it refuse more.
\<close>

locale bench_of_transports = bench_of_two K retries Q table + reusing_pool C kept alive opened
    + insert_taker first_insert + insert_forms C Q
  for K :: "'z externals_scheme" and retries :: "terror \<Rightarrow> bool"
    and Q :: "('h, 'v, byte list, 'y) sql_crate_scheme"
    and table :: "str list \<Rightarrow> str option list list \<Rightarrow> str list \<times> str option list list"
    and C :: "('h, 'r, 'c, 's, 'verdict, 'arrived) capability"
    and kept :: "'s \<Rightarrow> 'c \<Rightarrow> str \<Rightarrow> client \<Rightarrow> bool" and alive :: "'s \<Rightarrow> writer \<Rightarrow> bool"
    and opened :: "'s \<Rightarrow> 'c \<Rightarrow> nat" and first_insert :: "(unit, 'h, byte list) insert_loop" +
  fixes F :: "('h, 'r, 'c) fresh" and idle :: 's and hang_up :: "'s \<Rightarrow> 's"
    and refusing :: "'s \<Rightarrow> 'r \<Rightarrow> str option list \<Rightarrow> bool"
  assumes place: "plain_name tab \<Longrightarrow> plain_name col \<Longrightarrow> destination C SCHEMES (tab @ lit ''/'' @ col) server db =
      Inr \<lparr>to_server = server, to_database = db, to_table = tab, to_column = col\<rparr>"
    and place_at: "plain_server a \<Longrightarrow> plain_name db \<Longrightarrow> db \<noteq> [] \<Longrightarrow> plain_name tab \<Longrightarrow> plain_name col \<Longrightarrow>
      destination C SCHEMES (a @ lit ''/'' @ db @ lit ''/'' @ tab @ lit ''/'' @ col) server db' =
      Inr \<lparr>to_server = a, to_database = db, to_table = tab, to_column = col\<rparr>"
    and place_of: "plain_server a \<Longrightarrow> plain_name db \<Longrightarrow> plain_name tab \<Longrightarrow> plain_name col \<Longrightarrow>
      destination C SCHEMES (lit ''mssql://'' @ a @ lit ''/'' @ db @ lit ''/'' @ tab @ lit ''/'' @ col) server db' =
      Inr \<lparr>to_server = a, to_database = db, to_table = tab, to_column = col\<rparr>"
    and no_place: "\<exists>e. destination C SCHEMES (lit ''sqlserver://host/only-one'') server db = Inl e \<and> \<not> retries e"
    and binary: "\<exists>l. literal C (binary_column F) bytes = Inr l"
    and modest: "literal C (binary_column F) bytes = Inr l \<Longrightarrow> plain_name tab \<Longrightarrow> plain_name col \<Longrightarrow>
      length tab + length col + 2 * length bytes \<le> 30000 \<Longrightarrow> utf16_units (insert_statement C tab col l) \<le> 32000"
    and named: "plain_name tab \<Longrightarrow> \<exists>z. insert_statement C tab col l = lit ''INSERT INTO ['' @ tab @ lit '']'' @ z"
    and shared: "clone_pool C p = p"
    and nothing_kept: "\<not> kept idle p key d" "opened idle p = 0"
    and hung_up: "\<not> alive (hang_up s) w" "opened (hang_up s) = opened s"
    and reads_default: "of_statement Q DEFAULT_QUERY = Some Select"
    and arrives: "\<not> refusing s refused [Some n, None] \<Longrightarrow>
      \<exists>zs s'. arrivals C [[Some n, None]] refused origin name of_text verdict s = (Inr zs, s') \<and> length zs = 1"
    and nothing_refused: "\<not> refusing idle (nothing_refused F) row"
    and exchange_refuses: "exchange_query C p key conn step s = (y, s') \<Longrightarrow> refusing s' refused row \<Longrightarrow> refusing s refused row"
    and arrivals_refuse: "arrivals C rs r origin name of_text verdict s = (z, s') \<Longrightarrow> refusing s' refused row \<Longrightarrow>
      refusing s refused row"
    and hang_up_refuses: "refusing (hang_up s) refused row \<Longrightarrow> refusing s refused row"

subsection \<open>The tests\<close>

text \<open>The transport they build, to a server, with the password or without.\<close>

definition orders_at :: "('h, 'r, 'c) fresh \<Rightarrow> 'd \<Rightarrow> str \<Rightarrow> ('h, 'd, 'r, 'c) mssql_transport" where
  "orders_at F secs address = timing_out_after secs (with_password (lit ''secret'')
     (new_transport F address (lit ''orders'') (lit ''xmip'')))"

definition saying ::
    "'z externals_scheme \<Rightarrow> 32 word \<Rightarrow> ('h, 'd, 'r, 'c) mssql_transport \<Rightarrow> str list \<Rightarrow> byte list" where
  "saying K pid t sqls = hello K @ login_packets K pid (tr_database t) (transport_login t)
     @ concat (map (batch_packets K DEFAULT_PACKET_SIZE) sqls)"

definition inserting ::
    "('h, 'r, 'c, 's, 'verdict, 'arrived) capability \<Rightarrow> ('h, 'd, 'r, 'c) mssql_transport \<Rightarrow> str \<Rightarrow> str
       \<Rightarrow> byte list \<Rightarrow> str" where
  "inserting C t tab col b = insert_statement C tab col (projr (literal C (tr_column t) b))"

text \<open>What the pool keeps under a transport's own key has said these bytes, if it keeps anything.\<close>

definition kept_said ::
    "('s \<Rightarrow> 'c \<Rightarrow> str \<Rightarrow> client \<Rightarrow> bool) \<Rightarrow> 's \<Rightarrow> ('h, 'd, 'r, 'c) mssql_transport \<Rightarrow> byte list \<Rightarrow> bool" where
  "kept_said kept s t bs \<longleftrightarrow> (\<exists>c. only_kept kept s (tr_connections t) (pool_key (tr_server t) (tr_database t)) c \<and>
     sent (cl_writer c) = bs)"

definition a_send_inserts_the_stream_as_one_column_and_the_login_is_checked ::
    "(terror \<Rightarrow> bool) \<Rightarrow> 32 word \<Rightarrow> 'd \<Rightarrow> str \<Rightarrow> str \<Rightarrow> 'h \<Rightarrow> ('h, 'r, 'c) fresh
       \<Rightarrow> ('s \<Rightarrow> 'c \<Rightarrow> str \<Rightarrow> client \<Rightarrow> bool) \<Rightarrow> 's
       \<Rightarrow> 'z externals_scheme \<Rightarrow> ('h, 'v, byte list, 'y) sql_crate_scheme
       \<Rightarrow> (unit, 'h, byte list) insert_loop \<Rightarrow> ('h, 'r, 'c, 's, 'verdict, 'arrived) capability \<Rightarrow> bool" where
  "a_send_inserts_the_stream_as_one_column_and_the_login_is_checked
       retries pid secs address peer held F kept idle K Q first_insert C \<longleftrightarrow>
     (let far = orders_at F secs (lit ''127.0.0.1:0'');
          near = orders_at F secs address;
          wrong = timing_out_after secs (with_password (lit ''wrong'')
            (new_transport F address (lit ''orders'') (lit ''xmip'')));
          here = as_bytes (lit (''it'' @ [CHR 39] @ ''s here''));
          named = lit ''mssql://'' @ address @ lit ''/orders/inbox/payload'';
          placed = address @ lit ''/orders/inbox/payload'';
          sqls = [inserting C near (lit ''inbox'') (lit ''payload'') here,
            inserting C near (lit ''outbox'') (lit ''body'') [],
            inserting C near (lit ''inbox'') (lit ''payload'') [0xFF, 0xFE]];
          refusal = hello_back K @ token_packets K (refusal_tokens (failed_text (lit ''xmip''))) in
      (case accept_one K Q (Inr (bytes_reader (saying K pid near sqls), quiet_writer, peer)) () held far of
         Inl _ \<Rightarrow> False
       | Inr session \<Rightarrow>
           (case next_insert K Q first_insert session of (one, session) \<Rightarrow>
            (case next_insert K Q first_insert session of (two, session) \<Rightarrow>
             (case next_insert K Q first_insert session of (three, session) \<Rightarrow>
               (case (one, two, three) of
                  (Inr (Some (origin1, bytes1)), Inr (Some (origin2, bytes2)), Inr (Some (_, bytes3))) \<Rightarrow>
                    bytes1 = here \<and> suffix (lit ''/orders/inbox/payload'') origin1 \<and>
                    bytes2 = [] \<and> suffix (lit ''/orders/outbox/body'') origin2 \<and>
                    bytes3 = [0xFF, 0xFE]
                | _ \<Rightarrow> False) \<and>
               (let dial = (\<lambda>_ _. Inr (bytes_reader (sent (ss_writer session)), quiet_writer)) in
                (case in_turn [send K pid dial C near named here, send K pid dial C near (lit ''outbox/body'') [],
                    send K pid dial C near placed [0xFF, 0xFE]] idle of (sending, st) \<Rightarrow>
                  \<not> isl sending \<and> kept_said kept st near (saying K pid near sqls) \<and>
                  (case send K pid dial C near (lit ''sqlserver://host/only-one'') (as_bytes (lit ''x'')) st of
                    (bad_target, _) \<Rightarrow> isl bad_target \<and> \<not> retries (projl bad_target)))))))) \<and>
      says ''Login failed'' (accept_one K Q (Inr (bytes_reader (saying K pid wrong []), quiet_writer, peer)) () held far) \<and>
      sent (ss_writer (snd (accept_on K Q (Some (transport_login far))
        (new_session (bytes_reader (saying K pid wrong [])) quiet_writer peer () held)))) = refusal \<and>
      (case send K pid (\<lambda>_ _. Inr (bytes_reader refusal, quiet_writer)) C wrong (lit ''inbox/payload'')
          (as_bytes (lit ''x'')) idle of (refused, _) \<Rightarrow>
        says ''18456'' refused \<and> \<not> retries (projl refused)) \<and>
      transport_claims \<noteq> None \<and> transport_name = lit ''mssql'' \<and> transport_directions = BothDirections)"

definition a_thousand_inserts_log_in_once_and_a_connection_the_server_closed_is_replaced ::
    "32 word \<Rightarrow> 'd \<Rightarrow> str \<Rightarrow> str \<Rightarrow> 'h \<Rightarrow> ('h, 'r, 'c) fresh
       \<Rightarrow> ('s \<Rightarrow> 'c \<Rightarrow> str \<Rightarrow> client \<Rightarrow> bool) \<Rightarrow> ('s \<Rightarrow> 'c \<Rightarrow> nat) \<Rightarrow> 's \<Rightarrow> ('s \<Rightarrow> 's)
       \<Rightarrow> 'z externals_scheme \<Rightarrow> ('h, 'v, byte list, 'y) sql_crate_scheme
       \<Rightarrow> (unit, 'h, byte list) insert_loop \<Rightarrow> ('h, 'r, 'c, 's, 'verdict, 'arrived) capability \<Rightarrow> bool" where
  "a_thousand_inserts_log_in_once_and_a_connection_the_server_closed_is_replaced
       pid secs address peer held F kept opened idle hang_up K Q first_insert C \<longleftrightarrow>
     (let far = orders_at F secs (lit ''127.0.0.1:0'');
          near = orders_at F secs address;
          sending = clone_transport C near;
          inbox = lit ''inbox/payload'';
          sqls = inserting C sending (lit ''inbox'') (lit ''payload'');
          numbers = map (\<lambda>n. as_bytes (dec_nat n)) [0..<1000];
          after = as_bytes (lit ''after the close'') in
      (case accept_one K Q (Inr (bytes_reader (saying K pid near (map sqls numbers)), quiet_writer, peer)) () held far of
         Inl _ \<Rightarrow> False
       | Inr session \<Rightarrow>
           (case take_inserts 1000 K Q first_insert session of
              (Inl _, _) \<Rightarrow> False
            | (Inr taken, session) \<Rightarrow>
                map (map_option snd) taken = map Some numbers \<and>
                (case accept_one K Q (Inr (bytes_reader (saying K pid near [sqls after]), quiet_writer, peer)) () held far of
                   Inl _ \<Rightarrow> False
                 | Inr again \<Rightarrow>
                     (case next_insert K Q first_insert again of (last_one, again) \<Rightarrow>
                       map_sum id (map_option snd) last_one = Inr (Some after) \<and>
                       (case send_all K pid (\<lambda>_ _. Inr (bytes_reader (sent (ss_writer session)), quiet_writer))
                           C sending inbox numbers idle of
                          (Inl _, _) \<Rightarrow> False
                        | (Inr _, st) \<Rightarrow>
                            kept_said kept st near (saying K pid near (map sqls numbers)) \<and>
                            (case send K pid (\<lambda>_ _. Inr (bytes_reader (sent (ss_writer again)), quiet_writer))
                                C sending inbox after (hang_up st) of (joined, st) \<Rightarrow>
                              joined = Inr () \<and>
                              kept_said kept st near (saying K pid near [sqls after]) \<and>
                              opened st (tr_connections near) = 2)))))))"

definition selected_event :: "'p event option \<Rightarrow> bool" where
  "selected_event e \<longleftrightarrow> (case e of Some (Selected _) \<Rightarrow> True | _ \<Rightarrow> False)"

definition a_thousand_receives_log_in_once_and_a_connection_the_server_closed_is_replaced ::
    "32 word \<Rightarrow> 'd \<Rightarrow> str \<Rightarrow> str \<Rightarrow> 'h \<Rightarrow> ('h, 'r, 'c) fresh
       \<Rightarrow> (str list \<Rightarrow> str option list list \<Rightarrow> str list \<times> str option list list)
       \<Rightarrow> ('s \<Rightarrow> 'c \<Rightarrow> str \<Rightarrow> client \<Rightarrow> bool) \<Rightarrow> ('s \<Rightarrow> 'c \<Rightarrow> nat) \<Rightarrow> 's \<Rightarrow> ('s \<Rightarrow> 's)
       \<Rightarrow> 'z externals_scheme \<Rightarrow> ('h, 'v, byte list, 'y) sql_crate_scheme
       \<Rightarrow> ('h, 'r, 'c, 's, 'verdict, 'arrived) capability \<Rightarrow> bool" where
  "a_thousand_receives_log_in_once_and_a_connection_the_server_closed_is_replaced
       pid secs address peer held F table kept opened idle hang_up K Q C \<longleftrightarrow>
     (let far = orders_at F secs (lit ''127.0.0.1:0'');
          near = orders_at F secs address;
          receiving = clone_transport C near;
          asking = replicate 1000 (tr_query receiving);
          accepted = (\<lambda>sqls. map_sum id (with_table table [lit ''id'', lit ''payload''] [[Some (lit ''1''), None]])
            (accept_one K Q (Inr (bytes_reader (saying K pid near sqls), quiet_writer, peer)) () held far)) in
      (case accepted asking :: terror + (unit, 'h) session of
         Inl _ \<Rightarrow> False
       | Inr session \<Rightarrow>
           (case take_events 1000 K Q session of
              (Inl _, _) \<Rightarrow> False
            | (Inr events, session) \<Rightarrow>
                list_all selected_event events \<and>
                (case accepted [tr_query receiving] of
                   Inl _ \<Rightarrow> False
                 | Inr again \<Rightarrow>
                     (case next_event K Q again of (event, again) \<Rightarrow>
                       \<not> isl event \<and> selected_event (projr event) \<and>
                       (case receive_all 1000 K pid (\<lambda>_ _. Inr (bytes_reader (sent (ss_writer session)), quiet_writer))
                           C receiving idle of
                          (Inl _, _) \<Rightarrow> False
                        | (Inr arrived, st) \<Rightarrow>
                            list_all (\<lambda>one. length one = 1) arrived \<and>
                            kept_said kept st near (saying K pid near asking) \<and>
                            (case receive K pid (\<lambda>_ _. Inr (bytes_reader (sent (ss_writer again)), quiet_writer))
                                C receiving (hang_up st) of (joined, st) \<Rightarrow>
                              \<not> isl joined \<and> length (projr joined) = 1 \<and>
                              kept_said kept st near (saying K pid near [tr_query receiving]) \<and>
                              opened st (tr_connections near) = 2)))))))"

definition missing :: "unit \<Rightarrow> str \<Rightarrow> answer option \<times> unit" where
  "missing k sql =
     (if sublist (lit ''[missing]'') sql then
        Some (AnswerError 208 (lit (''Invalid object name '' @ [CHR 39] @ ''missing'' @ [CHR 39] @ ''.'')))
      else None, k)"

definition a_batch_the_far_end_errors_is_the_senders_error ::
    "(terror \<Rightarrow> bool) \<Rightarrow> 32 word \<Rightarrow> 'd \<Rightarrow> str \<Rightarrow> str \<Rightarrow> 'h \<Rightarrow> ('h, 'r, 'c) fresh \<Rightarrow> 's
       \<Rightarrow> 'z externals_scheme \<Rightarrow> ('h, 'v, byte list, 'y) sql_crate_scheme
       \<Rightarrow> ('h, 'r, 'c, 's, 'verdict, 'arrived) capability \<Rightarrow> bool" where
  "a_batch_the_far_end_errors_is_the_senders_error retries pid secs address peer held F idle K Q C \<longleftrightarrow>
     (let transport = (\<lambda>a. timing_out_after secs (new_transport F a (lit ''orders'') (lit ''xmip'')));
          far = transport (lit ''127.0.0.1:0'');
          near = transport address;
          sql = inserting C near (lit ''missing'') (lit ''payload'') (as_bytes (lit ''x'')) in
      (case accept_one K Q (Inr (bytes_reader (saying K pid near [sql]), quiet_writer, peer)) () held far of
         Inl _ \<Rightarrow> False
       | Inr session \<Rightarrow>
           (let session = answering missing session in
             (case next_event K Q session of (event, session) \<Rightarrow>
               (case event of
                  Inr (Some (Executed sql)) \<Rightarrow> take 21 sql = lit ''INSERT INTO [missing]''
                | _ \<Rightarrow> False) \<and>
               (let heard = bytes_reader (sent (ss_writer session)) in
                 sent (cl_writer (snd (near_end K pid (lit ''orders'') (transport_login near) [sql]
                   (new_client heard quiet_writer)))) = saying K pid near [sql] \<and>
                 (case send K pid (\<lambda>_ _. Inr (heard, quiet_writer)) C near (lit ''missing/payload'')
                     (as_bytes (lit ''x'')) idle of (error, _) \<Rightarrow>
                   says ''208'' error \<and> says ''Invalid object name'' error \<and> \<not> retries (projl error)))))))"

subsection \<open>Two ends over one connection\<close>

lemma orders_at_simps [simp]:
  "tr_server (orders_at F secs a) = a" "tr_database (orders_at F secs a) = lit ''orders''"
  "tr_column (orders_at F secs a) = binary_column F" "tr_connections (orders_at F secs a) = new_pool F"
  "tr_password (orders_at F secs a) = Some (lit ''secret'')" "tr_query (orders_at F secs a) = DEFAULT_QUERY"
  "tr_timeout (orders_at F secs a) = Some secs" "tr_refused (orders_at F secs a) = nothing_refused F"
  "transport_login (orders_at F secs a) = \<lparr>login_user = lit ''xmip'', login_password = lit ''secret''\<rparr>"
  by (simp_all add: orders_at_def timing_out_after_def with_password_def new_transport_def transport_login_def)

lemma presentable_test:
  "presentable (lit ''orders'') \<lparr>login_user = lit ''xmip'', login_password = lit ''secret''\<rparr>"
  "presentable (lit ''orders'') \<lparr>login_user = lit ''xmip'', login_password = []\<rparr>"
  by (simp_all add: presentable_def login_fits_def login_strings_def new_login7_def name_fits_def
      utf16_units_def lit_def is_scalar_def)

lemma dec_nat_bytes: "n < 1000 \<Longrightarrow> length (as_bytes (dec_nat n)) \<le> 4000"
proof -
  have "length (dec_nat n) \<le> Suc n" for n
  proof (induction n rule: dec_nat.induct)
    case (1 n)
    then show ?case by (subst dec_nat.simps) (auto intro: order_trans)
  qed
  from this [of n] have "n < 1000 \<Longrightarrow> length (dec_nat n) \<le> 1000" by linarith
  moreover have "length (as_bytes s) \<le> 4 * length s" for s
    by (induction s) (auto simp: as_bytes_def utf8_char_def)
  from this [of "dec_nat n"] show "n < 1000 \<Longrightarrow> length (as_bytes (dec_nat n)) \<le> 4000"
    using calculation by linarith
qed

definition one_row :: answer where
  "one_row = Rows [lit ''id'', lit ''payload''] [[Some (lit ''1''), None]]"


context bench_of_transports
begin

lemma clones [simp]: "clone_transport C t = t"
  by (simp add: clone_transport_def shared)

lemma accept_one_demanded:
  "accept_one K Q accepted k h t = and_then (accept K Q accepted (demanded t) k h) (\<lambda>s. Inr (holding (tr_column t) s))"
  by (simp add: accept_one_def demanded_def)

text \<open>A far end lets a transport's client in.\<close>

lemma accepts_one:
  assumes "presentable (tr_database near) (transport_login near)"
    and "demanded far = None \<or> demanded far = Some (transport_login near)"
  shows "accept_one K Q (Inr (bytes_reader (saying K pid near sqls), quiet_writer, peer)) () held far =
    Inr (holding (tr_column far) (session_at ((new_session (bytes_reader []) quiet_writer peer () held)
        \<lparr>ss_login := new_login7 (transport_login near) (tr_database near)\<rparr>)
      (concat (map (batch_packets K DEFAULT_PACKET_SIZE) sqls))
      (hello_back K @ token_packets K (welcome_tokens (tr_database near)))))"
  using accepts [OF assms, of pid "concat (map (batch_packets K DEFAULT_PACKET_SIZE) sqls)" peer "()" held]
  by (simp add: accept_one_def saying_def demanded_def)

text \<open>A transport connects to what a far end said, and its statements are answered.\<close>

lemma connected_answered:
  assumes "presentable (tr_database near) (transport_login near)" and "length sqls = length as"
    and "list_all (\<lambda>a. answer_fits a \<and> length (encode_tokens K (answer_tokens a)) \<le> max_body K) as"
    and "said = hello_back K @ token_packets K (welcome_tokens (tr_database near))
      @ concat (map (answer_packets K) as)"
  obtains c where "connect_to K pid (\<lambda>_ _. Inr (bytes_reader said, quiet_writer)) near server (tr_database near) = Inr c"
    and "fst (queries K sqls c) = map answer_result as"
    and "sent (cl_writer (snd (queries K sqls c))) = saying K pid near sqls"
proof -
  let ?c = "client_at (concat (map (answer_packets K) as))
    (hello K @ login_packets K pid (tr_database near) (transport_login near))"
  have "connect_to K pid (\<lambda>_ _. Inr (bytes_reader said, quiet_writer)) near server (tr_database near) = Inr ?c"
    using connects [OF assms(1)] by (simp add: connect_to_def assms(4))
  moreover have "fst (queries K sqls ?c) = map answer_result as"
    using queries_answered [OF codec_axioms body_ceiling_axioms _ assms(2,3), of ?c "[]"]
    by (simp add: client_at_def bytes_reader_def)
  moreover have "sent (cl_writer (snd (queries K sqls ?c))) = saying K pid near sqls"
    using queries_say [of ?c K sqls] by (simp add: client_at_def saying_def)
  ultimately show thesis by (rule that)
qed

lemma short_insert:
  assumes "literal C (binary_column F) b = Inr l" and "plain_name t" and "plain_name c"
    and "length t + length c + 2 * length b \<le> 30000"
  shows "length (encode_batch K (insert_statement C t c l)) \<le> max_body K"
  using modest [OF assms] roomy by (simp add: encode_batch_def utf16_length)

text \<open>Inserts sent over one new connection, and taken by the session that accepted it.\<close>

lemma inserts_over_one:
  fixes near far :: "('h, 'd, 'r, 'c) mssql_transport"
  assumes "presentable (tr_database near) (transport_login near)"
    and "demanded far = None \<or> demanded far = Some (transport_login near)"
    and columns: "tr_column near = binary_column F" "tr_column far = binary_column F"
    and names: "plain_name tab" "plain_name col" and "payloads \<noteq> []"
    and short: "\<forall>b \<in> set payloads. length tab + length col + 2 * length b \<le> 30000"
    and fresh: "anew kept alive st (tr_connections near) (pool_key (tr_server near) (tr_database near))"
  obtains session t st' where
    "accept_one K Q (Inr (bytes_reader (saying K pid near (map (inserting C near tab col) payloads)),
       quiet_writer, peer)) () held far = Inr session"
    and "take_inserts (length payloads) K Q first_insert session =
      (Inr (map (\<lambda>b. Some (lit ''mssql://'' @ peer @ lit ''/'' @ tr_database near @ lit ''/'' @ tab
        @ lit ''/'' @ col, b)) payloads), t)"
    and "send_all K pid (\<lambda>_ _. Inr (bytes_reader (sent (ss_writer t)), quiet_writer)) C near
      (tab @ lit ''/'' @ col) payloads st = (Inr (map (\<lambda>_. ()) payloads), st')"
    and "kept_said kept st' near (saying K pid near (map (inserting C near tab col) payloads))"
    and "opened st' (tr_connections near) = Suc (opened st (tr_connections near))"
proof -
  define l where "l b = projr (literal C (binary_column F) b)" for b
  let ?d = "\<lparr>to_server = tr_server near, to_database = tr_database near, to_table = tab, to_column = col\<rparr>"
  let ?as = "replicate (length payloads) (Complete 1)" and ?sqls = "map (inserting C near tab col) payloads"
  define s where "s = (new_session (bytes_reader []) quiet_writer peer () held)
    \<lparr>ss_login := new_login7 (transport_login near) (tr_database near)\<rparr>"
  define session where "session = holding (tr_column far) (session_at s
    (concat (map (batch_packets K DEFAULT_PACKET_SIZE) ?sqls))
    (hello_back K @ token_packets K (welcome_tokens (tr_database near))))"
  have literal: "literal C (binary_column F) b = Inr (l b)" for b
    using binary [of b] by (auto simp: l_def)
  then have literals: "list_all2 (\<lambda>b l. literal C (binary_column F) b = Inr l) payloads (map l payloads)"
    by (simp add: list_all2_map2 list.rel_refl)
  have sqls: "?sqls = map (insert_statement C tab col) (map l payloads)"
    by (simp add: inserting_def columns l_def)
  have sizes: "list_all (\<lambda>l. length (encode_batch K (insert_statement C tab col l)) \<le> max_body K) (map l payloads)"
    using short short_insert [OF literal names] by (auto simp: list_all_iff)
  have session: "ss_column session = binary_column F" "ss_answering session = None"
    "sound (ss_writer session)" "ss_peer session = peer" "database session = tr_database near"
    "incoming (ss_reader session) = concat (map (batch_packets K DEFAULT_PACKET_SIZE) ?sqls)"
    "sent (ss_writer session) = hello_back K @ token_packets K (welcome_tokens (tr_database near))"
    by (simp_all add: session_def s_def session_at_def holding_def new_session_def database_def bytes_reader_def columns)
  from inserts_taken [OF codec_axioms body_ceiling_axioms insert_taker_axioms insert_forms_axioms names literals
      sizes session(1-3), of DEFAULT_PACKET_SIZE] session(4-7)
  obtain t where t: "take_inserts (length payloads) K Q first_insert session =
      (Inr (map (\<lambda>b. Some (lit ''mssql://'' @ peer @ lit ''/'' @ tr_database near @ lit ''/'' @ tab
        @ lit ''/'' @ col, b)) payloads), t)"
    "sent (ss_writer t) = hello_back K @ token_packets K (welcome_tokens (tr_database near))
      @ concat (map (answer_packets K) ?as)"
    by (auto simp: sqls)
  have fits: "list_all (\<lambda>a. answer_fits a \<and> length (encode_tokens K (answer_tokens a)) \<le> max_body K) ?as"
    using done_answer [OF codec_axioms roomy, of 1] by (simp add: list_all_length)
  obtain c where c: "connect_to K pid (\<lambda>_ _. Inr (bytes_reader (sent (ss_writer t)), quiet_writer)) near
      (tr_server near) (tr_database near) = Inr c" "fst (queries K ?sqls c) = map answer_result ?as"
    "sent (cl_writer (snd (queries K ?sqls c))) = saying K pid near ?sqls"
    by (rule connected_answered [OF assms(1) _ fits t(2), of ?sqls pid "tr_server near"]) simp_all
  have on: "runs_on kept alive st (tr_connections near) (pool_key (to_server ?d) (to_database ?d))
      (connect_to K pid (\<lambda>_ _. Inr (bytes_reader (sent (ss_writer t)), quiet_writer)) near
        (to_server ?d) (to_database ?d)) c"
    using fresh c(1) by (simp add: runs_on_def)
  have answered: "fst (queries K ?sqls c) =
      map Inr (replicate (length payloads) \<lparr>qr_columns = [], qr_rows = [], qr_rows_affected = 1\<rparr>)"
    using c(2) by (simp add: answer_result_def)
  have to: "?sqls = map (insert_statement C (to_table ?d) (to_column ?d)) (map l payloads)"
    by (simp add: sqls)
  obtain st' where "send_all K pid (\<lambda>_ _. Inr (bytes_reader (sent (ss_writer t)), quiet_writer)) C near
      (tab @ lit ''/'' @ col) payloads st = (Inr (map (\<lambda>_. ()) payloads), st')"
    "only_kept kept st' (tr_connections near) (pool_key (to_server ?d) (to_database ?d)) (snd (queries K ?sqls c))"
    "opened st' (tr_connections near) = Suc (opened st (tr_connections near))"
    using sends_run [OF place [OF names] _ assms(7) on to answered] literals fresh
    by (auto simp: columns)
  with c(3) t(1) that [of session t st'] accepts_one [OF assms(1,2)] show thesis
    by (auto simp: kept_said_def session_def s_def)
qed

lemma next_insert_at:
  assumes "literal C (ss_column s) b = Inr l" and "plain_name tab" and "plain_name col"
    and "length tab + length col + 2 * length b \<le> 30000" and "ss_column s = binary_column F"
    and "ss_answering s = None"
  shows "next_insert K Q first_insert (session_at s (batch_packets K n (insert_statement C tab col l) @ bs) out) =
    (Inr (Some (lit ''mssql://'' @ ss_peer s @ lit ''/'' @ database s @ lit ''/'' @ tab @ lit ''/'' @ col, b)),
      session_at s bs (out @ answer_packets K (Complete 1)))"
proof -
  have "next_event K Q (session_at s (batch_packets K n (insert_statement C tab col l) @ bs) out) =
      (Inr (Some (Inserted (lit ''mssql://'' @ ss_peer s @ lit ''/'' @ database s @ lit ''/'' @ tab @ lit ''/'' @ col) b)),
        session_at s bs (out @ answer_packets K (Complete 1)))"
    using next_event_at [OF is_text [OF assms(1-3)] _ insert_answered [OF assms(1-3,6)]]
      short_insert [OF _ assms(2-4)] assms(1,5) by simp
  from takes [where f = inserted and ev = "next_event K Q", OF this] show ?thesis
    by (simp add: next_insert_def inserted_def)
qed

lemma refused_test:
  fixes far wrong :: "('h, 'd, 'r, 'c) mssql_transport"
  assumes wrong: "presentable (tr_database wrong) (transport_login wrong)" "tr_database wrong = lit ''orders''"
    "tr_server wrong = address" "login_user (transport_login wrong) = lit ''xmip''"
    "tr_column wrong = binary_column F" "tr_connections wrong = new_pool F"
    and far: "demanded far = Some (transport_login far)" "is_str (login_password (transport_login far))"
    "transport_login far \<noteq> transport_login wrong" "tr_password far \<noteq> None"
    and refusal: "refusal = hello_back K @ token_packets K (refusal_tokens (failed_text (lit ''xmip'')))"
  shows "says ''Login failed'' (accept_one K Q (Inr (bytes_reader (saying K pid wrong []), quiet_writer, peer)) () held far)"
    and "sent (ss_writer (snd (accept_on K Q (Some (transport_login far))
        (new_session (bytes_reader (saying K pid wrong [])) quiet_writer peer () held)))) = refusal"
    and "\<exists>st. send K pid (\<lambda>_ _. Inr (bytes_reader refusal, quiet_writer)) C wrong (lit ''inbox/payload'') b idle =
        (Inl (sql_error (new_message LOGIN_FAILED 14 (failed_text (lit ''xmip'')))), st)"
proof -
  let ?s = "new_session (bytes_reader (saying K pid wrong [])) quiet_writer peer () held"
  obtain t where t: "accept_on K Q (Some (transport_login far)) ?s = (Inl (Permanent (failed_text (lit ''xmip''))), t)"
    "sent (ss_writer t) = refusal"
    using accept_on_entered(2) [OF codec_axioms body_ceiling_axioms constant_time_axioms _ wrong(1) _ roomy,
        of ?s "Some (transport_login far)" pid "[]"] far(2,3)
    by (auto simp: new_session_def bytes_reader_def saying_def wrong(4) refusal)
  have "sublist (lit ''Login failed'') (lit ''Login failed'' @ z)" for z by simp
  moreover obtain z where "failed_text (lit ''xmip'') = lit ''Login failed'' @ z"
    by (simp add: failed_text_def) (simp add: lit_def)
  ultimately show "says ''Login failed'' (accept_one K Q (Inr (bytes_reader (saying K pid wrong []), quiet_writer, peer)) () held far)"
    using t(1) far(1) by (simp add: accept_one_demanded accept_def says_def error_text_def)
  show "sent (ss_writer (snd (accept_on K Q (Some (transport_login far)) ?s))) = refusal"
    using t by simp
  have "connect_on K pid (lit ''orders'') (transport_login wrong) (new_client (bytes_reader refusal) quiet_writer) =
      (Inl (sql_error (new_message LOGIN_FAILED 14 (failed_text (lit ''xmip'')))),
        new_client (bytes_reader []) (quiet_writer\<lparr>sent := hello K @ login_packets K pid (lit ''orders'') (transport_login wrong)\<rparr>))"
    using connect_on_entered(2) [OF codec_axioms body_ceiling_axioms _ wrong(1) roomy, of quiet_writer "bytes_reader refusal" "[]" pid]
    by (simp add: refusal wrong(2,4) bytes_reader_def)
  then have refused: "connect_to K pid (\<lambda>_ _. Inr (bytes_reader refusal, quiet_writer)) wrong address (lit ''orders'') =
      Inl (sql_error (new_message LOGIN_FAILED 14 (failed_text (lit ''xmip''))))"
    by (simp add: connect_to_def connect_def)
  have names: "plain_name (lit ''inbox'')" "plain_name (lit ''payload'')" by (simp_all add: plain_name_def lit_def)
  have place: "destination C SCHEMES (lit ''inbox/payload'') address (lit ''orders'') = Inr
      \<lparr>to_server = address, to_database = lit ''orders'', to_table = lit ''inbox'', to_column = lit ''payload''\<rparr>"
    using place [OF names, of address "lit ''orders''"] by (simp add: lit_def)
  obtain l where l: "literal C (binary_column F) b = Inr l" using binary by blast
  obtain x st where x: "exchange_unit C (new_pool F) (pool_key address (lit ''orders''))
      (Inl (sql_error (new_message LOGIN_FAILED 14 (failed_text (lit ''xmip'')))))
      (run_statement K (insert_statement C (lit ''inbox'') (lit ''payload'') l)) idle = (x, st)"
    by fastforce
  then show "\<exists>st. send K pid (\<lambda>_ _. Inr (bytes_reader refusal, quiet_writer)) C wrong (lit ''inbox/payload'') b idle =
        (Inl (sql_error (new_message LOGIN_FAILED 14 (failed_text (lit ''xmip'')))), st)"
    using unit_runs [OF x] by (simp add: send_def wrong place l refused nothing_kept)
qed

text \<open>An error the server answers is told by its number, and not tried again.\<close>

lemma numbered:
  "sql_error (new_message 208 c m) = Permanent (lit ''the server answered '' @ lit ''208'' @ lit '': '' @ m)"
  "sql_error (new_message 18456 c m) = Permanent (lit ''the server answered '' @ lit ''18456'' @ lit '': '' @ m)"
  by (simp_all add: sql_error_def new_message_def dec_int_def dec_nat.simps lit_def)

lemma told:
  assumes "e = Permanent (p @ lit d @ q)"
  shows "says d (Inl e)" and "\<not> retries e"
  by (simp_all only: assms says_def error_text_def terror.case sum.sel sum.disc sublist_appendI judged simp_thms)

lemma holding_at: "holding h (session_at s bs out) = session_at (holding h s) bs out"
  by (simp add: holding_def session_at_def)

text \<open>Receives over one new connection, and answered by the session that accepted it.\<close>

lemma one_row_fits: "answer_fits one_row \<and> length (encode_tokens K (answer_tokens one_row)) \<le> max_body K"
proof -
  have "length (chunks 65535 (utf16_encode K (lit ''1''))) \<le> 1 \<and> length (utf16_encode K (lit ''1'')) \<le> 4"
    using utf16_length [of "lit ''1''"] by (auto simp: chunks_rec utf16_units_def lit_def simp flip: length_0_conv)
  then show ?thesis
    using roomy by (simp add: one_row_def answer_fits_def name_fits_def encode_tokens_bytes answer_tokens_def
        token_bytes_simps columns_after_def text_column_def new_column_def column_bytes_def push_column_bytes
        write_type_info_def b_varchar_bytes length_counted write_value_def write_bytes_def write_plp_chunks
        length_plp_chunks write_plp_def [of _ None] utf16_units_def lit_def is_scalar_def)
qed

lemma receives_over_one:
  fixes near far :: "('h, 'd, 'r, 'c) mssql_transport"
  assumes login: "presentable (tr_database near) (transport_login near)"
    "demanded far = None \<or> demanded far = Some (transport_login near)"
    and sql: "tr_query near = DEFAULT_QUERY" and "0 < n"
    and fresh: "anew kept alive st (tr_connections near) (pool_key (tr_server near) (tr_database near))"
    and received: "\<not> refusing st (tr_refused near) [Some (lit ''1''), None]"
  obtains session t zs st' where
    "accept_one K Q (Inr (bytes_reader (saying K pid near (replicate n DEFAULT_QUERY)), quiet_writer, peer))
      () held far = Inr session"
    and "take_events n K Q (with_table table [lit ''id'', lit ''payload''] [[Some (lit ''1''), None]] session) =
      (Inr (replicate n (Some (Selected DEFAULT_QUERY))), t)"
    and "receive_all n K pid (\<lambda>_ _. Inr (bytes_reader (sent (ss_writer t)), quiet_writer)) C near st = (Inr zs, st')"
    and "length zs = n" and "list_all (\<lambda>z. length z = 1) zs"
    and "kept_said kept st' near (saying K pid near (replicate n DEFAULT_QUERY))"
    and "opened st' (tr_connections near) = Suc (opened st (tr_connections near))"
    and "\<not> refusing st' (tr_refused near) [Some (lit ''1''), None]"
proof -
  let ?sqls = "replicate n DEFAULT_QUERY" and ?as = "replicate n one_row"
  let ?result = "\<lparr>qr_columns = [lit ''id'', lit ''payload''], qr_rows = [[Some (lit ''1''), None]], qr_rows_affected = 1\<rparr>"
  define session where "session = holding (tr_column far) (session_at
    ((new_session (bytes_reader []) quiet_writer peer () held)
      \<lparr>ss_login := new_login7 (transport_login near) (tr_database near)\<rparr>)
    (concat (map (batch_packets K DEFAULT_PACKET_SIZE) ?sqls))
    (hello_back K @ token_packets K (welcome_tokens (tr_database near))))"
  define s where "s = with_table table [lit ''id'', lit ''payload''] [[Some (lit ''1''), None]] session"
  have "answer_batch Q DEFAULT_QUERY s = ((one_row, Selected DEFAULT_QUERY), s)"
    by (simp add: answer_batch_def s_def session_def with_table_def as_given holding_def session_at_def
        new_session_def one_row_def reads_default)
  then have told: "replies Q (replicate m DEFAULT_QUERY) s = replicate m (one_row, Selected DEFAULT_QUERY)" for m
    by (induction m) simp_all
  have s: "sound (ss_writer s)" "incoming (ss_reader s) = concat (map (batch_packets K DEFAULT_PACKET_SIZE) ?sqls)"
    "sent (ss_writer s) = hello_back K @ token_packets K (welcome_tokens (tr_database near))"
    by (simp_all add: s_def session_def with_table_def holding_def session_at_def bytes_reader_def as_given)
  have "list_all (\<lambda>sql. is_str sql \<and> length (encode_batch K sql) \<le> max_body K) ?sqls"
    using roomy by (simp add: list_all_length encode_batch_def utf16_length DEFAULT_QUERY_def lit_def
        utf16_units_def is_scalar_def)
  from events_in_turn [OF codec_axioms body_ceiling_axioms this s(1,2), of Q] s(3)
  obtain t where t: "take_events n K Q s = (Inr (replicate n (Some (Selected DEFAULT_QUERY))), t)"
    "sent (ss_writer t) = hello_back K @ token_packets K (welcome_tokens (tr_database near))
      @ concat (map (answer_packets K) ?as)"
    by (auto simp: take_events_def told)
  have fits: "list_all (\<lambda>a. answer_fits a \<and> length (encode_tokens K (answer_tokens a)) \<le> max_body K) ?as"
    using one_row_fits by (simp add: list_all_length)
  obtain c where c: "connect_to K pid (\<lambda>_ _. Inr (bytes_reader (sent (ss_writer t)), quiet_writer)) near
      (tr_server near) (tr_database near) = Inr c" "fst (queries K ?sqls c) = map answer_result ?as"
    "sent (cl_writer (snd (queries K ?sqls c))) = saying K pid near ?sqls"
    by (rule connected_answered [OF login(1) _ fits t(2), of ?sqls pid "tr_server near"]) simp_all
  have on: "runs_on kept alive st (tr_connections near) (pool_key (tr_server near) (tr_database near))
      (connect_to K pid (\<lambda>_ _. Inr (bytes_reader (sent (ss_writer t)), quiet_writer)) near
        (tr_server near) (tr_database near)) c"
    using fresh c(1) by (simp add: runs_on_def)
  have answered: "fst (queries K (replicate n (tr_query near)) c) = map Inr (replicate n ?result)"
    using c(2) by (simp add: sql answer_result_def one_row_def)
  define I where "I s \<longleftrightarrow> \<not> refusing s (tr_refused near) [Some (lit ''1''), None]" for s
  have start: "I st" using received by (simp add: I_def)
  have arrive: "\<exists>z st'. rows_arrive K pid dial C near (qr_rows result) st = (Inr z, st') \<and> I st'"
    if "result \<in> set (replicate n ?result)" "I st" for result dial st
    using that arrives arrivals_refuse unfolding rows_arrive_def I_def by fastforce
  have ones: "length z = 1" if "I st" "rows_arrive K pid dial C near [[Some (lit ''1''), None]] st = (Inr z, st')" for dial st z st'
    using that arrives unfolding rows_arrive_def I_def by (metis Inr_inject prod.inject)
  have keeps: "\<forall>p key conn step s. I s \<longrightarrow> I (snd (exchange_query C p key conn step s))"
    using exchange_refuses [OF surjective_pairing] unfolding I_def by blast
  obtain zs st' where zs: "receive_all n K pid (\<lambda>_ _. Inr (bytes_reader (sent (ss_writer t)), quiet_writer)) C near st = (Inr zs, st')"
    "list_all2 (\<lambda>z result. \<exists>st st'. I st \<and> rows_arrive K pid (\<lambda>_ _. Inr (bytes_reader (sent (ss_writer t)), quiet_writer))
      C near (qr_rows result) st = (Inr z, st')) zs (replicate n ?result)"
    "only_kept kept st' (tr_connections near) (pool_key (tr_server near) (tr_database near))
      (snd (queries K (replicate n (tr_query near)) c))"
    "opened st' (tr_connections near) = Suc (opened st (tr_connections near))" "I st'"
    using receives_run_keeping [where I = I, OF assms(4) on answered start keeps arrive] fresh by auto
  from zs(2) ones have "length zs = n" "list_all (\<lambda>z. length z = 1) zs"
    by (auto simp: list_all2_conv_all_nth list_all_length)
  with zs(1,3-5) c(3) t(1) that [of session t zs st'] accepts_one [OF login] show thesis
    by (auto simp: kept_said_def session_def s_def sql I_def)
qed

end

end
