(* ===== verification/Tests_Pass.thy ===== *)
theory Tests_Pass
  imports Tests_Transport
begin

text \<open>
  The tests of \<open>Tests_Transport\<close> hold over any crates that keep their laws, and there are
  crates that do.
\<close>

context bench_of_transports
begin

lemma sends_test:
  assumes address: "plain_server address"
  shows "a_send_inserts_the_stream_as_one_column_and_the_login_is_checked
    retries pid secs address peer held F kept idle K Q first_insert C"
proof -
  let ?far = "orders_at F secs (lit ''127.0.0.1:0'')" and ?near = "orders_at F secs address"
  define wrong where "wrong = timing_out_after secs (with_password (lit ''wrong'')
    (new_transport F address (lit ''orders'') (lit ''xmip'')))"
  define here where "here = as_bytes (lit (''it'' @ [CHR 39] @ ''s here''))"
  define refusal where "refusal = hello_back K @ token_packets K (refusal_tokens (failed_text (lit ''xmip'')))"
  let ?inbox = "lit ''inbox''" and ?payload = "lit ''payload''" and ?outbox = "lit ''outbox''" and ?body = "lit ''body''"
  have names: "plain_name ?inbox" "plain_name ?payload" "plain_name ?outbox" "plain_name ?body"
    "plain_name (lit ''orders'')" "lit ''orders'' \<noteq> []"
    by (simp_all add: plain_name_def lit_def)
  obtain l1 l2 l3 where l: "literal C (binary_column F) here = Inr l1" "literal C (binary_column F) [] = Inr l2"
    "literal C (binary_column F) [0xFF, 0xFE] = Inr l3"
    using binary by blast
  define sqls where "sqls = [insert_statement C ?inbox ?payload l1, insert_statement C ?outbox ?body l2,
    insert_statement C ?inbox ?payload l3]"
  have sqls: "[inserting C ?near ?inbox ?payload here, inserting C ?near ?outbox ?body [],
      inserting C ?near ?inbox ?payload [0xFF, 0xFE]] = sqls"
    by (simp add: inserting_def sqls_def l)
  have short: "length here \<le> 100" by (simp add: here_def as_bytes_def utf8_char_def lit_def)
  have login: "presentable (tr_database ?near) (transport_login ?near)"
    "demanded ?far = None \<or> demanded ?far = Some (transport_login ?near)"
    by (simp_all add: presentable_test demanded_def)
  define s where "s = holding (binary_column F) ((new_session (bytes_reader []) quiet_writer peer () held)
    \<lparr>ss_login := new_login7 (transport_login ?near) (lit ''orders'')\<rparr>)"
  let ?p = "hello_back K @ token_packets K (welcome_tokens (lit ''orders''))" and ?done = "answer_packets K (Complete 1)"
  let ?at = "\<lambda>tab col. lit ''mssql://'' @ peer @ lit ''/'' @ lit ''orders'' @ lit ''/'' @ tab @ lit ''/'' @ col"
  have s: "ss_column s = binary_column F" "ss_answering s = None" "ss_peer s = peer" "database s = lit ''orders''"
    by (simp_all add: s_def holding_def new_session_def database_def)
  have accepted: "accept_one K Q (Inr (bytes_reader (saying K pid ?near sqls), quiet_writer, peer)) () held ?far =
      Inr (session_at s (concat (map (batch_packets K DEFAULT_PACKET_SIZE) sqls)) ?p)"
    using accepts_one [OF login] by (simp add: holding_at s_def)
  define session where "session = session_at s [] (((?p @ ?done) @ ?done) @ ?done)"
  have taken: "next_insert K Q first_insert (session_at s (concat (map (batch_packets K DEFAULT_PACKET_SIZE) sqls)) ?p) =
      (Inr (Some (?at ?inbox ?payload, here)), session_at s (batch_packets K DEFAULT_PACKET_SIZE (sqls ! 1)
        @ batch_packets K DEFAULT_PACKET_SIZE (sqls ! 2) @ []) (?p @ ?done))"
    "next_insert K Q first_insert (session_at s (batch_packets K DEFAULT_PACKET_SIZE (sqls ! 1)
        @ batch_packets K DEFAULT_PACKET_SIZE (sqls ! 2) @ []) (?p @ ?done)) =
      (Inr (Some (?at ?outbox ?body, [])), session_at s (batch_packets K DEFAULT_PACKET_SIZE (sqls ! 2) @ []) ((?p @ ?done) @ ?done))"
    "next_insert K Q first_insert (session_at s (batch_packets K DEFAULT_PACKET_SIZE (sqls ! 2) @ []) ((?p @ ?done) @ ?done)) =
      (Inr (Some (?at ?inbox ?payload, [0xFF, 0xFE])), session)"
    using next_insert_at [of s here l1 ?inbox ?payload] next_insert_at [of s "[]" l2 ?outbox ?body]
      next_insert_at [of s "[0xFF, 0xFE]" l3 ?inbox ?payload DEFAULT_PACKET_SIZE "[]" "(?p @ ?done) @ ?done"] l short
    by (simp_all add: sqls_def s names session_def)
  have fits: "list_all (\<lambda>a. answer_fits a \<and> length (encode_tokens K (answer_tokens a)) \<le> max_body K)
      [Complete 1, Complete 1, Complete 1]"
    using done_answer [OF codec_axioms roomy, of 1] by simp
  let ?dial = "\<lambda>_ _. Inr (bytes_reader (sent (ss_writer session)), quiet_writer)"
  have said: "sent (ss_writer session) = hello_back K @ token_packets K (welcome_tokens (tr_database ?near))
      @ concat (map (answer_packets K) [Complete 1, Complete 1, Complete 1])"
    by (simp add: session_def said_at)
  obtain c where c: "connect_to K pid ?dial ?near address (tr_database ?near) = Inr c"
    "fst (queries K sqls c) = map answer_result [Complete 1, Complete 1, Complete 1]"
    "sent (cl_writer (snd (queries K sqls c))) = saying K pid ?near sqls"
    by (rule connected_answered [OF login(1) _ fits said, of sqls pid address]) (simp_all add: sqls_def)
  let ?exchange = "exchange_unit C (new_pool F) (pool_key address (lit ''orders''))
    (connect_to K pid ?dial ?near address (lit ''orders''))"
  have targets: "destination C SCHEMES (lit ''mssql://'' @ address @ lit ''/orders/inbox/payload'') address (lit ''orders'') =
      Inr \<lparr>to_server = address, to_database = lit ''orders'', to_table = ?inbox, to_column = ?payload\<rparr>"
    "destination C SCHEMES (lit ''outbox/body'') address (lit ''orders'') =
      Inr \<lparr>to_server = address, to_database = lit ''orders'', to_table = ?outbox, to_column = ?body\<rparr>"
    "destination C SCHEMES (address @ lit ''/orders/inbox/payload'') address (lit ''orders'') =
      Inr \<lparr>to_server = address, to_database = lit ''orders'', to_table = ?inbox, to_column = ?payload\<rparr>"
    using place_of [OF address names(5,1,2), of address "lit ''orders''"] place [OF names(3,4), of address "lit ''orders''"]
      place_at [OF address names(5,6,1,2), of address "lit ''orders''"]
    by (simp_all add: lit_def)
  have sends: "send K pid ?dial C ?near (lit ''mssql://'' @ address @ lit ''/orders/inbox/payload'') here =
      ?exchange (run_statement K (sqls ! 0))"
    "send K pid ?dial C ?near (lit ''outbox/body'') [] = ?exchange (run_statement K (sqls ! 1))"
    "send K pid ?dial C ?near (address @ lit ''/orders/inbox/payload'') [0xFF, 0xFE] = ?exchange (run_statement K (sqls ! 2))"
    by (rule ext; simp add: send_def targets l sqls_def)+
  have on: "runs_on kept alive idle (new_pool F) (pool_key address (lit ''orders''))
      (connect_to K pid ?dial ?near address (lit ''orders'')) c"
    using c(1) by (simp add: runs_on_def anew_def nothing_kept)
  have "fst (queries K sqls c) = map Inr (replicate 3 \<lparr>qr_columns = [], qr_rows = [], qr_rows_affected = 1\<rparr>)"
    using c(2) by (simp add: answer_result_def numeral_3_eq_3)
  from effects.exchanges_in_turn [OF on queries_in_turn(2) [OF this], of act_return]
  obtain us st where sent: "in_turn [?exchange (run_statement K (sqls ! 0)), ?exchange (run_statement K (sqls ! 1)),
      ?exchange (run_statement K (sqls ! 2))] idle = (Inr us, st)"
    "only_kept kept st (new_pool F) (pool_key address (lit ''orders'')) (snd (queries K sqls c))"
    by (auto simp: sqls_def act_bind_return)
  then have kept: "kept_said kept st ?near (saying K pid ?near sqls)"
    using c(3) by (auto simp: kept_said_def)
  obtain e where e: "destination C SCHEMES (lit ''sqlserver://host/only-one'') address (lit ''orders'') = Inl e" "\<not> retries e"
    using no_place by blast
  have wrong: "presentable (tr_database wrong) (transport_login wrong)" "tr_database wrong = lit ''orders''"
    "tr_server wrong = address" "login_user (transport_login wrong) = lit ''xmip''"
    "tr_column wrong = binary_column F" "tr_connections wrong = new_pool F" "transport_login ?far \<noteq> transport_login wrong"
    by (simp_all add: wrong_def timing_out_after_def with_password_def new_transport_def transport_login_def
        presentable_def login_fits_def login_strings_def new_login7_def name_fits_def utf16_units_def lit_def is_scalar_def)
  have far: "demanded ?far = Some (transport_login ?far)" "is_str (login_password (transport_login ?far))"
    "tr_password ?far \<noteq> None"
    by (simp_all add: demanded_def)
  note refused = refused_test(1,2) [OF wrong(1-6) far(1,2) wrong(7) far(3) refusal_def, where peer = peer and held = held and pid = pid]
    refused_test(3) [OF wrong(1-6) far(1,2) wrong(7) far(3) refusal_def]
  obtain st' where no: "send K pid (\<lambda>_ _. Inr (bytes_reader refusal, quiet_writer)) C wrong (lit ''inbox/payload'') (as_bytes (lit ''x'')) idle =
      (Inl (sql_error (new_message LOGIN_FAILED 14 (failed_text (lit ''xmip'')))), st')"
    using refused(3) by blast
  have number: "says ''18456'' (Inl (sql_error (new_message LOGIN_FAILED 14 m)) :: terror + unit)"
    "\<not> retries (sql_error (new_message LOGIN_FAILED 14 m))" for m
    unfolding LOGIN_FAILED_def by (rule told [OF numbered(2)])+
 have ends: "suffix (lit ''/orders/inbox/payload'') (?at ?inbox ?payload)" "suffix (lit ''/orders/outbox/body'') (?at ?outbox ?body)"
    by (simp_all add: suffix_def lit_def)
  show ?thesis
    unfolding a_send_inserts_the_stream_as_one_column_and_the_login_is_checked_def Let_def here_def [symmetric]
      wrong_def [symmetric] refusal_def [symmetric] sqls accepted sum.case taken prod.case option.case sends sent(1) no
    using kept e number refused(1,2) ends
    by (simp add: send_def transport_claims_def transport_name_def transport_directions_def says_def)
qed

lemma inserts_test:
  "a_thousand_inserts_log_in_once_and_a_connection_the_server_closed_is_replaced
     pid secs address peer held F kept opened idle hang_up K Q first_insert C"
proof -
  let ?far = "orders_at F secs (lit ''127.0.0.1:0'')" and ?near = "orders_at F secs address"
    and ?inbox = "lit ''inbox/payload''" and ?after = "as_bytes (lit ''after the close'')"
  define numbers where "numbers = map (\<lambda>n. as_bytes (dec_nat n)) [0..<1000]"
  define sqls where "sqls = inserting C ?near (lit ''inbox'') (lit ''payload'')"
  have many: "length numbers = 1000" by (simp add: numbers_def)
  have inbox: "lit ''inbox'' @ lit ''/'' @ lit ''payload'' = ?inbox" by (simp add: lit_def)
  have names: "plain_name (lit ''inbox'')" "plain_name (lit ''payload'')"
    by (simp_all add: plain_name_def lit_def)
  have login: "presentable (tr_database ?near) (transport_login ?near)"
    "demanded ?far = None \<or> demanded ?far = Some (transport_login ?near)"
    by (simp_all add: presentable_test demanded_def)
  have short: "\<forall>b \<in> set numbers. length (lit ''inbox'') + length (lit ''payload'') + 2 * length b \<le> 30000"
    "\<forall>b \<in> set [?after]. length (lit ''inbox'') + length (lit ''payload'') + 2 * length b \<le> 30000"
    by (force simp: numbers_def lit_def dest: dec_nat_bytes) (simp add: as_bytes_def lit_def utf8_char_def)
  have fresh: "anew kept alive idle (tr_connections ?near) (pool_key (tr_server ?near) (tr_database ?near))"
    "anew kept alive (hang_up st) (tr_connections ?near) (pool_key (tr_server ?near) (tr_database ?near))" for st
    by (simp_all add: anew_def nothing_kept usable_def hung_up)
  have columns: "tr_column ?near = binary_column F" "tr_column ?far = binary_column F" by simp_all
  have "numbers \<noteq> []" using many by auto
  from inserts_over_one [OF login columns names this short(1) fresh(1), where peer = peer and held = held and pid = pid]
  obtain session t st where first: "accept_one K Q (Inr (bytes_reader (saying K pid ?near (map sqls numbers)),
      quiet_writer, peer)) () held ?far = Inr session"
    "take_inserts 1000 K Q first_insert session = (Inr (map (\<lambda>b. Some (lit ''mssql://'' @ peer @ lit ''/''
      @ tr_database ?near @ lit ''/'' @ lit ''inbox'' @ lit ''/'' @ lit ''payload'', b)) numbers), t)"
    "send_all K pid (\<lambda>_ _. Inr (bytes_reader (sent (ss_writer t)), quiet_writer)) C ?near ?inbox numbers idle =
      (Inr (map (\<lambda>_. ()) numbers), st)"
    "kept_said kept st ?near (saying K pid ?near (map sqls numbers))" "opened st (tr_connections ?near) = 1"
    by (auto simp: sqls_def inbox many nothing_kept)
  from inserts_over_one [OF login columns names _ short(2) fresh(2) [of st], where peer = peer and held = held and pid = pid]
  obtain again t' st' where second: "accept_one K Q (Inr (bytes_reader (saying K pid ?near [sqls ?after]),
      quiet_writer, peer)) () held ?far = Inr again"
    "take_inserts 1 K Q first_insert again = (Inr [Some (lit ''mssql://'' @ peer @ lit ''/''
      @ tr_database ?near @ lit ''/'' @ lit ''inbox'' @ lit ''/'' @ lit ''payload'', ?after)], t')"
    "send_all K pid (\<lambda>_ _. Inr (bytes_reader (sent (ss_writer t')), quiet_writer)) C ?near ?inbox [?after] (hang_up st) =
      (Inr [()], st')"
    "kept_said kept st' ?near (saying K pid ?near [sqls ?after])" "opened st' (tr_connections ?near) = Suc 1"
    by (auto simp: sqls_def inbox hung_up first(5) simp del: orders_at_simps)
  have again: "next_insert K Q first_insert again = (Inr (Some (lit ''mssql://'' @ peer @ lit ''/''
      @ tr_database ?near @ lit ''/'' @ lit ''inbox'' @ lit ''/'' @ lit ''payload'', ?after)), t')"
    "send K pid (\<lambda>_ _. Inr (bytes_reader (sent (ss_writer t')), quiet_writer)) C ?near ?inbox ?after (hang_up st) =
      (Inr (), st')"
    using second(2,3) by (auto simp: take_inserts_def send_all_def in_turn_Cons)
  show ?thesis
    unfolding a_thousand_inserts_log_in_once_and_a_connection_the_server_closed_is_replaced_def Let_def clones
      numbers_def [symmetric] sqls_def [symmetric] first(1,2) second(1) again prod.case sum.case first(3)
    using first(4) second(4,5) by (simp add: comp_def id_def)
qed

lemma receives_test:
  "a_thousand_receives_log_in_once_and_a_connection_the_server_closed_is_replaced
     pid secs address peer held F table kept opened idle hang_up K Q C"
proof -
  let ?far = "orders_at F secs (lit ''127.0.0.1:0'')" and ?near = "orders_at F secs address"
  let ?table = "with_table table [lit ''id'', lit ''payload''] [[Some (lit ''1''), None]]"
  define asking where "asking = replicate 1000 DEFAULT_QUERY"
  have login: "presentable (tr_database ?near) (transport_login ?near)"
    "demanded ?far = None \<or> demanded ?far = Some (transport_login ?near)"
    by (simp_all add: presentable_test demanded_def)
  have query: "tr_query ?near = DEFAULT_QUERY" by simp
  have fresh: "anew kept alive idle (tr_connections ?near) (pool_key (tr_server ?near) (tr_database ?near))"
    "anew kept alive (hang_up st) (tr_connections ?near) (pool_key (tr_server ?near) (tr_database ?near))" for st
    by (simp_all add: anew_def nothing_kept usable_def hung_up)
  have "(0 :: nat) < 1000" "\<not> refusing idle (tr_refused ?near) [Some (lit ''1''), None]"
    by (simp_all add: nothing_refused)
  note over = receives_over_one [OF login query this(1) fresh(1) this(2), where peer = peer and held = held and pid = pid,
      folded asking_def, unfolded nothing_kept orders_at_simps(4)]
  obtain session t zs st where first: "accept_one K Q (Inr (bytes_reader (saying K pid ?near asking), quiet_writer, peer))
      () held ?far = Inr session"
    "take_events 1000 K Q (?table session) = (Inr (replicate 1000 (Some (Selected DEFAULT_QUERY))), t)"
    "receive_all 1000 K pid (\<lambda>_ _. Inr (bytes_reader (sent (ss_writer t)), quiet_writer)) C ?near idle = (Inr zs, st)"
    "length zs = 1000" "list_all (\<lambda>z. length z = 1) zs" "kept_said kept st ?near (saying K pid ?near asking)"
    "opened st (new_pool F) = Suc 0" "\<not> refusing st (tr_refused ?near) [Some (lit ''1''), None]"
    by (rule over)
  have "(0 :: nat) < 1" "\<not> refusing (hang_up st) (tr_refused ?near) [Some (lit ''1''), None]"
    using first(8) hang_up_refuses by auto
  note over = receives_over_one [OF login query this(1) fresh(2) [of st] this(2), where peer = peer and held = held and pid = pid,
      unfolded hung_up orders_at_simps(4) first(7) One_nat_def replicate.simps, folded One_nat_def]
  obtain again t' zs' st' where second: "accept_one K Q (Inr (bytes_reader (saying K pid ?near [DEFAULT_QUERY]),
      quiet_writer, peer)) () held ?far = Inr again"
    "take_events 1 K Q (?table again) = (Inr [Some (Selected DEFAULT_QUERY)], t')"
    "receive_all 1 K pid (\<lambda>_ _. Inr (bytes_reader (sent (ss_writer t')), quiet_writer)) C ?near (hang_up st) = (Inr zs', st')"
    "length zs' = 1" "list_all (\<lambda>z. length z = 1) zs'" "kept_said kept st' ?near (saying K pid ?near [DEFAULT_QUERY])"
    "opened st' (new_pool F) = Suc 1"
    by (rule over)
  then obtain z where z: "zs' = [z]" "length z = 1"
    by (auto simp: length_Suc_conv)
  have again: "next_event K Q (?table again) = (Inr (Some (Selected DEFAULT_QUERY)), t')"
    "receive K pid (\<lambda>_ _. Inr (bytes_reader (sent (ss_writer t')), quiet_writer)) C ?near (hang_up st) = (Inr z, st')"
    using second(2,3) by (auto simp: take_events_def receive_all_def in_turn_Cons z)
  show ?thesis
    unfolding a_thousand_receives_log_in_once_and_a_connection_the_server_closed_is_replaced_def Let_def clones
      query asking_def [symmetric] first(1) second(1) map_sum.simps sum.case first(2) again(1) prod.case first(3) again(2)
    using first(5,6) second(6,7) z(2) by (simp add: list_all_length selected_event_def)
qed

lemma errors_test:
  "a_batch_the_far_end_errors_is_the_senders_error retries pid secs address peer held F idle K Q C"
proof -
  define transport where "transport a = timing_out_after secs (new_transport F a (lit ''orders'') (lit ''xmip''))" for a
  let ?far = "transport (lit ''127.0.0.1:0'')" and ?near = "transport address"
  define invalid where "invalid = lit (''Invalid object name '' @ [CHR 39] @ ''missing'' @ [CHR 39] @ ''.'')"
  let ?error = "sql_error (new_message 208 16 invalid)" and ?x = "as_bytes (lit ''x'')"
  define sql where "sql = inserting C ?near (lit ''missing'') (lit ''payload'') ?x"
  have near: "tr_database ?near = lit ''orders''" "tr_server ?near = address" "tr_column ?near = binary_column F"
    "tr_connections ?near = new_pool F" "transport_login ?near = \<lparr>login_user = lit ''xmip'', login_password = []\<rparr>"
    and far: "demanded ?far = None" "tr_column ?far = binary_column F"
    by (simp_all add: transport_def timing_out_after_def new_transport_def transport_login_def demanded_def)
  have login: "presentable (tr_database ?near) (transport_login ?near)" "demanded ?far = None \<or> demanded ?far = Some (transport_login ?near)"
    by (simp_all add: near far presentable_test)
  have names: "plain_name (lit ''missing'')" "plain_name (lit ''payload'')" by (simp_all add: plain_name_def lit_def)
  obtain l where l: "literal C (binary_column F) ?x = Inr l" using binary by blast
  then have sql_l: "sql = insert_statement C (lit ''missing'') (lit ''payload'') l"
    by (simp add: sql_def inserting_def near)
  have batch: "is_str sql" "length (encode_batch K sql) \<le> max_body K"
    using is_text [OF l names] short_insert [OF l names] by (simp_all add: sql_l as_bytes_def utf8_char_def lit_def)
  obtain z where z: "sql = lit ''INSERT INTO ['' @ lit ''missing'' @ lit '']'' @ z"
    using named [OF names(1)] sql_l by blast
  have "sublist (lit ''[missing]'') (lit ''INSERT INTO '' @ lit ''[missing]'' @ z)" by (rule sublist_appendI)
  then have has: "sublist (lit ''[missing]'') sql" "take 21 sql = lit ''INSERT INTO [missing]''"
    by (simp_all add: z lit_def)
  define s where "s = answering missing (holding (tr_column ?far) ((new_session (bytes_reader []) quiet_writer peer () held)
    \<lparr>ss_login := new_login7 (transport_login ?near) (tr_database ?near)\<rparr>))"
  have answer: "answer_batch Q sql s = ((AnswerError 208 invalid, Executed sql), s)"
    by (simp add: answer_batch_def s_def answering_def holding_def new_session_def missing_def has(1) invalid_def Let_def)
  have "length (message_body K (new_message 208 16 invalid)) < 65536"
    by (rule message_body_length)
      (simp add: message_fits_def new_message_def invalid_def name_fits_def lit_def utf16_units_def is_scalar_def)
  then have fits: "list_all (\<lambda>a. answer_fits a \<and> length (encode_tokens K (answer_tokens a)) \<le> max_body K) [AnswerError 208 invalid]"
    using roomy by (simp add: encode_tokens_bytes answer_tokens_def token_bytes_simps sized_def answer_fits_def
        invalid_def name_fits_def lit_def utf16_units_def is_scalar_def)
  let ?p = "hello_back K @ token_packets K (welcome_tokens (tr_database ?near))"
  define said where "said = ?p @ concat (map (answer_packets K) [AnswerError 208 invalid])"
  obtain session where session: "accept_one K Q (Inr (bytes_reader (saying K pid ?near [sql]), quiet_writer, peer))
      () held ?far = Inr session" "answering missing session = session_at s (batch_packets K DEFAULT_PACKET_SIZE sql @ []) ?p"
    using accepts_one [OF login, of pid "[sql]" peer held] by (simp add: s_def holding_def session_at_def answering_def)
  have event: "next_event K Q (session_at s (batch_packets K DEFAULT_PACKET_SIZE sql @ []) ?p) =
      (Inr (Some (Executed sql)), session_at s [] said)"
    using next_event_at [OF batch answer, of DEFAULT_PACKET_SIZE "[]" ?p] by (simp add: said_def)
  obtain c where c: "connect_to K pid (\<lambda>_ _. Inr (bytes_reader said, quiet_writer)) ?near address (tr_database ?near) = Inr c"
    "fst (queries K [sql] c) = [Inl ?error]" "sent (cl_writer (snd (queries K [sql] c))) = saying K pid ?near [sql]"
    by (rule connected_answered [OF login(1) _ fits said_def [unfolded append_assoc], of "[sql]" pid address]) (simp_all add: answer_result_def)
  have spoke: "sent (cl_writer (snd (near_end K pid (lit ''orders'') (transport_login ?near) [sql]
      (new_client (bytes_reader said) quiet_writer)))) = saying K pid ?near [sql]"
    using c(1,3) by (auto simp: connect_to_def connect_def near(1) near_end_def act_bind_def split_beta split: prod.splits sum.splits)
  have place: "destination C SCHEMES (lit ''missing/payload'') address (lit ''orders'') = Inr
      \<lparr>to_server = address, to_database = lit ''orders'', to_table = lit ''missing'', to_column = lit ''payload''\<rparr>"
    using place [OF names, of address "lit ''orders''"] by (simp add: lit_def)
  obtain x st where x: "exchange_unit C (new_pool F) (pool_key address (lit ''orders'')) (Inr c) (run_statement K sql) idle = (x, st)"
    by fastforce
  have "x = Inl ?error"
    using unit_runs [OF x] c(2) by (simp add: nothing_kept run_statement_result split_beta)
  then have "fst (send K pid (\<lambda>_ _. Inr (bytes_reader said, quiet_writer)) C ?near (lit ''missing/payload'') ?x idle) = Inl ?error"
    using x c(1) by (simp add: send_def near place l sql_l)
  moreover have "says ''208'' (Inl ?error :: terror + unit)" "says ''Invalid object name'' (Inl ?error :: terror + unit)"
    "\<not> retries ?error"
  proof -
    have "invalid = lit ''Invalid object name'' @ lit ('' '' @ [CHR 39] @ ''missing'' @ [CHR 39] @ ''.'')"
      by (simp add: invalid_def lit_def)
    then have "?error = Permanent ((lit ''the server answered '' @ lit ''208'' @ lit '': '') @ lit ''Invalid object name''
        @ lit ('' '' @ [CHR 39] @ ''missing'' @ [CHR 39] @ ''.''))"
      by (simp only: numbered(1) append_assoc)
    note named = told [OF this]
    show "says ''208'' (Inl ?error :: terror + unit)" "says ''Invalid object name'' (Inl ?error :: terror + unit)"
      "\<not> retries ?error"
      by (rule told(1) [OF numbered(1)], rule named(1), rule named(2))
  qed
 ultimately show ?thesis
    unfolding a_batch_the_far_end_errors_is_the_senders_error_def transport_def [symmetric] Let_def sql_def [symmetric]
      session sum.case event prod.case
    using spoke has(2) by (simp add: said_at split_beta says_def)
qed

end

subsection \<open>Crates that keep the laws\<close>

lemma plain_name_apart: "plain_name n \<Longrightarrow> 47 \<notin> set n \<and> 58 \<notin> set n"
  by (auto simp: plain_name_def list_all_iff)

lemma bares_pieces:
  assumes "bares schemes target \<noteq> []" and "\<forall>scheme \<in> set schemes. 47 \<notin> set scheme"
  shows "\<exists>p ps. pieces target = p # [] # ps"
proof -
  from assms obtain scheme n where n: "47 \<notin> set scheme" "take n target = scheme @ lit ''://''"
    by (induction schemes) (auto simp: bares_def List.map_filter_simps split: if_splits)
  then have "target = (scheme @ [58]) @ 47 # ([] :: str) @ 47 # drop n target"
    using append_take_drop_id [of n target] by (simp add: lit_def)
  moreover have "47 \<notin> set (scheme @ [58])" using n(1) by simp
  ultimately have "pieces target = (scheme @ [58]) # [] # pieces (drop n target)"
    by (metis append_Nil empty_iff list.set(1) pieces_cut(2))
  then show ?thesis by blast
qed

lemma plain_units: "plain_name n \<Longrightarrow> utf16_units n = length n"
  by (induction n) (auto simp: plain_name_def)

lemma hex_units: "utf16_units (quote_hex bs) = 2 + 2 * length bs"
proof -
  have "utf16_units (hex_byte b) = 2" for b
  proof -
    have "unat b div 16 < 16" using unsigned_less [of b, where 'a = nat] by simp
    moreover have "unat b mod 16 < 65449" by (rule order.strict_trans [of _ 16]) simp_all
    ultimately show ?thesis by (simp add: hex_byte_def hex_digit_def)
  qed
  then have "utf16_units (concat (map hex_byte bs)) = 2 * length bs" by (induction bs) simp_all
  then show ?thesis by (simp add: quote_hex_def)
qed

definition fresh_sample :: "(unit, unit, unit) fresh" where
  "fresh_sample = \<lparr>binary_column = (), nothing_refused = (), new_pool = ()\<rparr>"

definition all_closed :: "pool_state \<Rightarrow> pool_state" where
  "all_closed s = s\<lparr>ps_live := (\<lambda>_. False)\<rparr>"

interpretation reference_bench_of_transports: bench_of_transports reference tried_again reference_sql Pair
  pooling_capability pooled ps_live counted_open reference_first_insert fresh_sample no_connections all_closed
  "\<lambda>_ _ _. False"
proof unfold_locales
  fix tab col server db assume names: "plain_name tab" "plain_name col"
  then show "destination pooling_capability SCHEMES (tab @ lit ''/'' @ col) server db =
      Inr \<lparr>to_server = server, to_database = db, to_table = tab, to_column = col\<rparr>"
    using reference_destination_table [of tab col SCHEMES server db] plain_name_apart
    by (simp add: pooling_capability_def reference_capability_def lit_def)
  fix a db' assume place: "plain_server a" "plain_name db"
  then have "in_full (pieces (a @ 47 # db @ 47 # tab @ 47 # col)) =
      Inr \<lparr>to_server = a, to_database = db, to_table = tab, to_column = col\<rparr>"
    using names plain_name_apart by (simp add: plain_server_def in_full_def)
  moreover have "destination pooling_capability schemes target server db' = reference_destination schemes target server db'" for schemes target
    by (simp add: pooling_capability_def reference_capability_def)
  moreover have "db \<noteq> [] \<Longrightarrow> bares SCHEMES (a @ 47 # db @ 47 # tab @ 47 # col) = []"
    using bares_pieces [of SCHEMES "a @ 47 # db @ 47 # tab @ 47 # col"] names place plain_name_apart
    by (auto simp: plain_server_def SCHEMES_def lit_def)
  moreover have "pieces (a @ 47 # db @ 47 # tab @ 47 # col) = [a, db, tab, col]"
    using names place plain_name_apart by (simp add: plain_server_def)
  ultimately show "db \<noteq> [] \<Longrightarrow> destination pooling_capability SCHEMES (a @ lit ''/'' @ db @ lit ''/'' @ tab @ lit ''/'' @ col) server db' =
      Inr \<lparr>to_server = a, to_database = db, to_table = tab, to_column = col\<rparr>"
    "destination pooling_capability SCHEMES (lit ''mssql://'' @ a @ lit ''/'' @ db @ lit ''/'' @ tab @ lit ''/'' @ col) server db' =
      Inr \<lparr>to_server = a, to_database = db, to_table = tab, to_column = col\<rparr>"
    by (simp_all add: reference_destination_def lit_def)
      (simp add: bares_def SCHEMES_def List.map_filter_simps lit_def)
next
  show "\<exists>e. destination pooling_capability SCHEMES (lit ''sqlserver://host/only-one'') server db = Inl e \<and> \<not> tried_again e"
    for server db
    by (simp add: pooling_capability_def reference_capability_def reference_destination_def bares_def SCHEMES_def
        List.map_filter_simps lit_def in_full_def tried_again_def)
next
  show "utf16_units (insert_statement pooling_capability tab col l) \<le> 32000"
    if "literal pooling_capability (binary_column fresh_sample) bytes = Inr l" "plain_name tab" "plain_name col"
      "length tab + length col + 2 * length bytes \<le> 30000" for bytes l tab col
    using that by (auto simp: pooling_capability_def reference_capability_def plain_units hex_units)
  show "\<exists>z. insert_statement pooling_capability tab col l = lit ''INSERT INTO ['' @ tab @ lit '']'' @ z"
    if "plain_name tab" for tab col l
    by (simp add: pooling_capability_def reference_capability_def)
      (simp add: lit_def)
  show "of_statement reference_sql DEFAULT_QUERY = Some Select"
    by (simp add: reference_sql_def DEFAULT_QUERY_def) (simp add: lit_def)
qed (auto simp: pooling_capability_def reference_capability_def pooled_def no_connections_def counted_open_def
    all_closed_def)

subsection \<open>The tests pass\<close>

text \<open>C32: The tests of the transport hold of the model, with crates that keep their laws: inserts to
  tables and columns named in full or in part go over one login, an ill-named target and a wrong
  password are errors not to be tried again, on both ends; a thousand inserts and a thousand
  receives log in once, and once more when the server has closed the connection; and an error the
  far end answers is the sender's.\<close>

theorem transport_tests_hold:
  assumes "bench_of_transports K retries Q table C kept alive opened first_insert F idle hang_up refusing"
    and "plain_server address"
  shows "a_send_inserts_the_stream_as_one_column_and_the_login_is_checked
      retries pid secs address peer held F kept idle K Q first_insert C
    \<and> a_thousand_inserts_log_in_once_and_a_connection_the_server_closed_is_replaced
      pid secs address peer held F kept opened idle hang_up K Q first_insert C
    \<and> a_thousand_receives_log_in_once_and_a_connection_the_server_closed_is_replaced
      pid secs address peer held F table kept opened idle hang_up K Q C
    \<and> a_batch_the_far_end_errors_is_the_senders_error retries pid secs address peer held F idle K Q C"
  by (intro conjI bench_of_transports.sends_test [OF assms] bench_of_transports.inserts_test [OF assms(1)]
      bench_of_transports.receives_test [OF assms(1)] bench_of_transports.errors_test [OF assms(1)])

theorem transport_tests_hold_witness:
  "a_thousand_inserts_log_in_once_and_a_connection_the_server_closed_is_replaced
      4711 (5 :: nat) (lit ''127.0.0.1:1433'') (lit ''peer'') () fresh_sample pooled counted_open no_connections
      all_closed reference reference_sql reference_first_insert pooling_capability
    \<and> a_batch_the_far_end_errors_is_the_senders_error tried_again 4711 (5 :: nat) (lit ''127.0.0.1:1433'')
      (lit ''peer'') () fresh_sample no_connections reference reference_sql pooling_capability"
proof -
  have "plain_server (lit ''127.0.0.1:1433'')" by (simp add: plain_server_def lit_def)
  from transport_tests_hold [OF reference_bench_of_transports.bench_of_transports_axioms this,
      where pid = 4711 and secs = "5 :: nat"]
  show ?thesis by blast
qed

end
