(* ===== verification/Spec2Isabelle.thy ===== *)
theory Spec2Isabelle
  imports Interleaving Typing Tests_Pass
begin

text \<open>
  A model of \<^verbatim>\<open>xmip-core-transport-mssql\<close>, the SQL Server transport of Xmip: Tabular Data
  Stream 7.4 from the packet up to a send and a receive, both sides of the connection, with the
  properties that make it correct. Every definition that models code is a translation of the
  function it is named after.

  \<^bold>\<open>The program.\<close> A client (\<^verbatim>\<open>src/client.rs\<close>) greets a server, logs in and sends batches; a
  session (\<^verbatim>\<open>src/session.rs\<close>) is the server's side of that. What they say are messages cut
  into packets (\<^verbatim>\<open>wire.rs\<close>): a pre-login (\<^verbatim>\<open>prelogin.rs\<close>), a login
  (\<^verbatim>\<open>login.rs\<close>), batches (\<^verbatim>\<open>batch.rs\<close>) and, back, token streams
  (\<^verbatim>\<open>token.rs\<close>) whose rows hold typed values (\<^verbatim>\<open>column.rs\<close>). The transport
  (\<^verbatim>\<open>lib.rs\<close>) makes a send an INSERT and a receive a query, on connections kept in a pool.

  \<^bold>\<open>The theories\<close>, in the order they build on each other:
  \<^item> \<open>Prelude\<close>: bytes, text, errors, readers over a byte cursor (\<open>rd\<close>), actions on a
    state (\<open>act\<close>), and \<open>rd_loop\<close>, the loop over a cursor.
  \<^item> \<open>Rust_Std\<close>, \<open>Rust_Text\<close>, \<open>Rust_Io\<close>: what the code uses of the standard library:
    integers as bytes, chunks, decimal and hexadecimal forms, UTF-8 and its lossy reading,
    a connection's two ends. A reader is the bytes still to come and how they end; a writer is
    the bytes said, and where it fails if it does.
  \<^item> \<open>Externals\<close>: the crates that are not in this repository, as a record of operations
    (\<open>externals\<close>) and locales of the laws the code relies on: \<open>cursor\<close>, \<open>byte_writer\<close>,
    \<open>text_forms\<close>, together \<open>codec\<close>, \<open>body_ceiling\<close> and \<open>binary_literal\<close>.
    \<open>Reference\<close> is one that keeps them all; every witness runs on it.
  \<^item> \<open>Wire\<close>: \<open>packets\<close>, \<open>read_message\<close> (the loop \<open>read_packets\<close>), the counted
    text fields; \<open>message\<close> is the framing as a grammar.
  \<^item> \<open>Prelogin\<close>, \<open>Batch\<close>, \<open>Login\<close>, \<open>Column\<close>, \<open>Token\<close>: a writer and a reader
    each. \<open>prelogin_of\<close>, \<open>batch\<close>, \<open>field_of\<close>, \<open>type_info\<close>, \<open>plp_chunks\<close> say what the
    readers compute, without their loops and assignments; \<open>shown\<close> and \<open>tokens_shown\<close> what
    comes back of what was written.
  \<^item> \<open>Client\<close>, \<open>Session\<close>: the two ends, a record of reader, writer and what they keep.
    \<open>batch_answer\<close>, \<open>login_answer\<close>, \<open>replies\<close> say what they come to, without the loops.
  \<^item> \<open>Inserts\<close>: the first insert of a session, which is what a far end takes.
  \<^item> \<open>Transport\<close>: settings, login, send, receive, the far end, over what the transport
    capability does (\<open>capability\<close>).
  \<^item> \<open>Pool\<close>: the connections a transport keeps, over any sequence of its operations
    (\<open>operated\<close>), and where they lead: \<open>reaches\<close> is which sockets lead to which server.
  \<^item> \<open>Conversation\<close>, \<open>Loopback\<close>: both ends at once. \<open>conversing\<close> is that each hears what the
    other says; what they say is not assumed but follows.
  \<^item> \<open>Reuse\<close>, \<open>Sends\<close>, \<open>Receives\<close>: many sends and many receives over one kept connection.
    \<open>exchanging\<close> is what an exchange of either kind has of the pool: a live connection is used
    again, another is opened, and counted, when there is none. \<open>in_turn\<close> runs actions one
    after another, \<open>one_login\<close> is what comes of two ends that do so over one connection.
  \<^item> \<open>Turns\<close>, \<open>Waiting\<close>, \<open>Interleaving\<close>: the two ends step by step, a step being that
    more of what one said reaches the other. \<open>Turns\<close> is two speakers of any kind
    (\<open>turn_taking\<close>), \<open>Waiting\<close> that what the code says depends only on what it has heard
    (\<open>causal\<close>), \<open>Interleaving\<close> the two programs as such speakers.
  \<^item> \<open>Typing\<close>: which texts a column of a type can come back as (\<open>of_type\<close>).
  \<^item> \<open>Tests\<close>, \<open>Tests_Ends\<close>, \<open>Tests_Transport\<close>, \<open>Tests_Pass\<close>: the tests beside the code,
    each as the conjunction of its assertions, of the message files, of client and session, and
    of the transport in turn; in a test that runs two ends in threads, each end is run on the
    bytes the other is to say, and is found to have said what the other was run on.

  \<^bold>\<open>The properties\<close>, numbered C1 on in their theories:
  \<^item> of the two programs together: a whole conversation; what one transport sends another takes, and what
    it receives is what the far end answers, however often over one login, and over one more
    where the server had closed the connection; kept connections are the ones their keys name;
    a client makes of an answer what was meant; and however the connection cuts the two streams,
    neither waits for the other in vain and their talk ends;
  \<^item> of what is read and written: the framing, the batches and the types are read exactly by their
    grammar, pre-logins and logins by their tables, a transport's settings as declared; messages, logins, batches, pre-logins, values and token streams
    read back as written; a value sent in pieces is its pieces;
  \<^item> of the login: it is given only to a server that does not demand encryption, checked by user
    and password whatever the client's bytes, and ends as the answer says;
  \<^item> of the answers: a batch's result, that it takes one whole answer and no more, and that its
    cells are texts of the types the answer declared;
  \<^item> of bounds and errors: packet sizes, messages that break off, types, tokens and
    packets that have no place, and the places where the code does less than its
    documentation or the protocol say: a login shorter than its fixed part, a length that saturates, a value taken for
    null, a byte read as signed;
  \<^item> of the tests: what they assert holds over any crates that keep their laws.

  \<^bold>\<open>Loops, fuel and bounds.\<close> Loops over a cursor are \<open>rd_loop\<close>, whose fuel is one more than
  the bytes at hand; each round takes at least one byte (\<open>progressing\<close>, \<open>consumes\<close>), so the
  fuel is never used up, and the loops satisfy their own equations without it. The loops over a
  connection (\<open>read_packets\<close>, \<open>serve_from\<close>) are recursive functions with the bytes still to
  come as their measure. A mark of divergence, \<open>Diverged\<close>, is an error no reader returns. Sizes
  that the properties assume are those of the protocol's own fields: 65535 bytes for what a
  sixteen-bit length counts, 255 units for a counted name, and the ceiling \<open>max_body\<close> on a
  message, which the properties on both ends take to be at least 65600 bytes, the size of the
  largest login or refusal.

  \<^bold>\<open>Where the model is told what it cannot read.\<close> The cursor, writer and text forms of
  \<^verbatim>\<open>codec\<close>, the ceiling of \<^verbatim>\<open>net\<close>, literals and verbs of \<^verbatim>\<open>sql\<close> and the pool,
  destinations and arrivals of \<^verbatim>\<open>transport\<close> are parameters. Each locale states what the
  code relies on and is interpreted by a concrete instance.

  \<^bold>\<open>Not modelled:\<close> opening, splitting and shutting sockets, and timeouts, which are the operating
  system's and come in as their results; the clock the tests of \<^verbatim>\<open>lib.rs\<close> read, and those
  of them that check other crates through this one, the settings table and its reader, the
  verdicts on arrived rows, the encodings of text columns and the round of the loopback, whose
  part in this crate \<open>Transport\<close> and \<open>Loopback\<close> show in general; buffering of the reader, which is invisible to it. An answer
  closure is a function with a state of its own. A \<^verbatim>\<open>usize\<close> is a natural number: every
  value the code computes in one is bounded by the ceiling or by a sixteen-bit length.
\<close>

end
